(* ===== verification/Prelude.thy ===== *)
theory Prelude
  imports Complex_Main "HOL-Library.Word" "HOL-Library.Multiset"
begin

text \<open>
  What every component theory shares: names for the fixed-width integers of the C++ code, the
  time stamps of \<open>std::chrono\<close>, the value types of Qt the code passes around (\<open>QSize\<close>,
  \<open>QPoint\<close>, \<open>QRect\<close>), the two integer helpers the code uses everywhere (\<open>std::clamp\<close>
  and the narrowing cast to a 32-bit \<open>int\<close>), and the generic machine: a step function with
  an invariant, from which every run of the component inherits the invariant.
\<close>

section \<open>Fixed-width integers and time\<close>

type_synonym u8 = "8 word"
type_synonym u16 = "16 word"
type_synonym u32 = "32 word"
type_synonym u64 = "64 word"

text \<open>
  A \<open>time_point\<close> or a \<open>duration\<close> of \<open>std::chrono::system_clock\<close> and
  \<open>steady_clock\<close> is its tick count. The tick is one nanosecond, as in libstdc++. Tick counts
  are 64 bits wide in the code; the model uses unbounded integers, so a signed overflow (undefined
  behaviour, after 292 years) is outside the model.
\<close>

type_synonym ticks = int

abbreviation ms :: "int \<Rightarrow> ticks" where
  "ms n \<equiv> n * 1000000"

abbreviation sec :: "int \<Rightarrow> ticks" where
  "sec n \<equiv> n * 1000000000"

text \<open>\<open>static_cast<int>\<close> of a wider integer: modular since C++20.\<close>

definition to_int32 :: "int \<Rightarrow> int" where
  "to_int32 n = sint (word_of_int n :: 32 word)"

lemma to_int32_small [simp]: "- (2 ^ 31) \<le> n \<Longrightarrow> n < 2 ^ 31 \<Longrightarrow> to_int32 n = n"
  by (simp add: to_int32_def sint_sbintrunc' signed_take_bit_int_eq_self)

lemma to_int32_range: "- (2 ^ 31) \<le> to_int32 n" "to_int32 n < 2 ^ 31"
  using sint_ge [of "word_of_int n :: 32 word"] sint_lt [of "word_of_int n :: 32 word"]
  by (simp_all add: to_int32_def)

text \<open>The same for a 64-bit signed integer.\<close>

definition to_int64 :: "int \<Rightarrow> int" where
  "to_int64 n = sint (word_of_int n :: 64 word)"

lemma to_int64_small [simp]: "- (2 ^ 63) \<le> n \<Longrightarrow> n < 2 ^ 63 \<Longrightarrow> to_int64 n = n"
  by (simp add: to_int64_def sint_sbintrunc' signed_take_bit_int_eq_self)

text \<open>\<open>std::clamp(v, lo, hi)\<close>: compares with the lower bound first.\<close>

definition clamp :: "'a::linorder \<Rightarrow> 'a \<Rightarrow> 'a \<Rightarrow> 'a" where
  "clamp v lo hi = (if v < lo then lo else if hi < v then hi else v)"

lemma clamp_bounds: "lo \<le> hi \<Longrightarrow> lo \<le> clamp v lo hi" "lo \<le> hi \<Longrightarrow> clamp v lo hi \<le> hi"
  by (auto simp: clamp_def)

lemma clamp_id: "lo \<le> v \<Longrightarrow> v \<le> hi \<Longrightarrow> clamp v lo hi = v"
  by (auto simp: clamp_def)

lemma clamp_mono: "v \<le> w \<Longrightarrow> lo \<le> hi \<Longrightarrow> clamp v lo hi \<le> clamp w lo hi"
  by (auto simp: clamp_def)

section \<open>Value types of Qt\<close>

text \<open>
  \<open>QSize\<close>: \<open>isValid\<close> is both sides non-negative, \<open>isEmpty\<close> is a side of zero or
  less; a default-constructed one is invalid, (-1, -1).
\<close>

record qsize =
  width :: int
  height :: int

definition qsize_default :: qsize where
  "qsize_default = \<lparr>width = -1, height = -1\<rparr>"

definition qsize_isValid :: "qsize \<Rightarrow> bool" where
  "qsize_isValid sz \<longleftrightarrow> 0 \<le> width sz \<and> 0 \<le> height sz"

definition qsize_isEmpty :: "qsize \<Rightarrow> bool" where
  "qsize_isEmpty sz \<longleftrightarrow> width sz \<le> 0 \<or> height sz \<le> 0"

type_synonym qpoint = "int \<times> int"

text \<open>\<open>QRect\<close> by its top-left corner and size; \<open>right()\<close> is \<open>left + width - 1\<close>.\<close>

record qrect =
  rx :: int
  ry :: int
  rw :: int
  rh :: int

definition qrect_right :: "qrect \<Rightarrow> int" where
  "qrect_right r = rx r + rw r - 1"

definition qrect_bottom :: "qrect \<Rightarrow> int" where
  "qrect_bottom r = ry r + rh r - 1"

definition qrect_isValid :: "qrect \<Rightarrow> bool" where
  "qrect_isValid r \<longleftrightarrow> rx r \<le> qrect_right r \<and> ry r \<le> qrect_bottom r"

text \<open>A \<open>QRegion\<close> is the set of pixels it covers.\<close>

type_synonym qregion = "(int \<times> int) set"

definition rect_region :: "qrect \<Rightarrow> qregion" where
  "rect_region r = {rx r..qrect_right r} \<times> {ry r..qrect_bottom r}"

lemma rect_region_empty_iff: "rect_region r = {} \<longleftrightarrow> \<not> qrect_isValid r"
  by (auto simp: rect_region_def qrect_isValid_def)

text \<open>
  A \<open>QImage\<close>: its format, its size and the scan lines that \<open>convertToFormat\<close> to
  \<open>Format_ARGB32\<close> yields (four bytes per pixel, no padding). Equality of images compares all
  of it.
\<close>

record qimage =
  img_format :: nat
  img_width :: int
  img_height :: int
  img_argb32 :: "u8 list list"

definition qimage_isNull :: "qimage \<Rightarrow> bool" where
  "qimage_isNull im \<longleftrightarrow> img_width im \<le> 0 \<or> img_height im \<le> 0"

definition qimage_wf :: "qimage \<Rightarrow> bool" where
  "qimage_wf im \<longleftrightarrow> int (length (img_argb32 im)) = max 0 (img_height im) \<and>
     list_all (\<lambda>row. int (length row) = 4 * max 0 (img_width im)) (img_argb32 im)"

lemma concat_rev_length:
  "list_all (\<lambda>row. int (length row) = k) rows \<Longrightarrow>
   int (length (concat (rev rows))) = k * int (length rows)"
  by (induction rows) (auto simp: algebra_simps)

section \<open>Machines\<close>

text \<open>
  A component is a state, a step function over its events (calls, callbacks, timer ticks) and an
  invariant that every well-formed event keeps. Every run from the initial state keeps it.
\<close>

locale machine =
  fixes step :: "'e \<Rightarrow> 's \<Rightarrow> 's"
    and start :: 's
    and ok :: "'e \<Rightarrow> bool"
    and inv :: "'s \<Rightarrow> bool"
  assumes inv_start: "inv start"
    and inv_step: "inv s \<Longrightarrow> ok e \<Longrightarrow> inv (step e s)"
begin

lemma inv_run: "inv s \<Longrightarrow> list_all ok es \<Longrightarrow> inv (fold step es s)"
  by (induction es arbitrary: s) (auto intro: inv_step)

lemma inv_reach: "list_all ok es \<Longrightarrow> inv (fold step es start)"
  by (rule inv_run [OF inv_start])

lemma inv_reach_then:
  assumes "\<And>s. inv s \<Longrightarrow> P s" and "list_all ok es"
  shows "P (fold step es start)"
  using assms inv_reach by blast

end

text \<open>
  A machine whose state carries a log of what it sent: steps only append to it, so what was sent
  before stays a prefix of the log.
\<close>

locale logging_machine = machine step start ok inv
  for step :: "'e \<Rightarrow> 's \<Rightarrow> 's" and start ok inv +
  fixes log :: "'s \<Rightarrow> 'o list"
  assumes log_step: "\<exists>xs. log (step e s) = log s @ xs"
begin

lemma log_run: "\<exists>xs. log (fold step es s) = log s @ xs"
proof (induction es arbitrary: s)
  case (Cons e es)
  obtain xs where "log (step e s) = log s @ xs" using log_step by blast
  moreover obtain ys where "log (fold step es (step e s)) = log (step e s) @ ys"
    using Cons.IH by blast
  ultimately show ?case by simp
qed simp

lemma log_keeps: "x \<in> set (log s) \<Longrightarrow> x \<in> set (log (fold step es s))"
  using log_run [of es s] by auto

end

text \<open>
  A machine whose steps can fail to return (\<open>None\<close>): once it has not returned it never does.
\<close>

definition lift_step :: "('e \<Rightarrow> 's \<Rightarrow> 's option) \<Rightarrow> 'e \<Rightarrow> 's option \<Rightarrow> 's option" where
  "lift_step f e o' = Option.bind o' (f e)"

definition returns_with :: "('s \<Rightarrow> bool) \<Rightarrow> 's option \<Rightarrow> bool" where
  "returns_with good o' \<longleftrightarrow> (case o' of None \<Rightarrow> False | Some s \<Rightarrow> good s)"

lemma lift_step_simps [simp]: "lift_step f e (Some s) = f e s" "lift_step f e None = None"
  by (simp_all add: lift_step_def)

lemma returns_with_simps [simp]: "returns_with good (Some s) = good s" "\<not> returns_with good None"
  by (simp_all add: returns_with_def)

lemma returns_with_iff: "returns_with good o' \<longleftrightarrow> (\<exists>s. o' = Some s \<and> good s)"
  by (cases o') auto

text \<open>
  A simulation: what the concrete machine does to its state, the abstract one does to the state it
  stands for. It carries over to runs.
\<close>

locale simulation =
  fixes cstep :: "'e \<Rightarrow> 'c \<Rightarrow> 'c"
    and astep :: "'e \<Rightarrow> 'a \<Rightarrow> 'a"
    and ok :: "'e \<Rightarrow> bool"
    and rel :: "'c \<Rightarrow> 'a \<Rightarrow> bool"
  assumes sim_step: "rel c a \<Longrightarrow> ok e \<Longrightarrow> rel (cstep e c) (astep e a)"
begin

lemma sim_run: "rel c a \<Longrightarrow> list_all ok es \<Longrightarrow> rel (fold cstep es c) (fold astep es a)"
  by (induction es arbitrary: c a) (auto intro: sim_step)

end

section \<open>Lists\<close>

text \<open>A walk over a \<open>QHash\<close> or \<open>QSet\<close> visits every entry once, in an order Qt does not define.\<close>

definition iteration_order :: "('a list \<Rightarrow> 'a list) \<Rightarrow> bool" where
  "iteration_order order \<longleftrightarrow> (\<forall>xs. mset (order xs) = mset xs)"

lemma iteration_order_set: "iteration_order order \<Longrightarrow> set (order xs) = set xs"
  unfolding iteration_order_def by (metis set_mset_mset)

lemma iteration_order_distinct: "iteration_order order \<Longrightarrow> distinct (order xs) = distinct xs"
  unfolding iteration_order_def by (metis mset_eq_imp_distinct_iff)

lemma iteration_order_id: "iteration_order (\<lambda>xs. xs)" "iteration_order rev"
  by (simp_all add: iteration_order_def)

text \<open>\<open>std::min_element\<close> with a strict comparison: the first of the least elements.\<close>

fun min_element_by :: "('a \<Rightarrow> 'a \<Rightarrow> bool) \<Rightarrow> 'a list \<Rightarrow> 'a option" where
  "min_element_by lt [] = None"
| "min_element_by lt (x # xs) =
     (case min_element_by lt xs of
        None \<Rightarrow> Some x
      | Some y \<Rightarrow> Some (if lt y x then y else x))"

lemma min_element_by_None_iff [simp]: "min_element_by lt xs = None \<longleftrightarrow> xs = []"
  by (cases xs) (auto split: option.splits)

lemma min_element_by_in: "min_element_by lt xs = Some y \<Longrightarrow> y \<in> set xs"
  by (induction xs arbitrary: y) (auto split: option.splits if_splits)

lemma min_element_by_key:
  fixes key :: "'a \<Rightarrow> 'b::linorder"
  shows "min_element_by (\<lambda>a b. key a < key b) xs = Some y \<Longrightarrow> x \<in> set xs \<Longrightarrow> key y \<le> key x"
proof (induction xs arbitrary: y x)
  case (Cons a as)
  show ?case
  proof (cases as)
    case Nil
    with Cons.prems show ?thesis by simp
  next
    case (Cons b bs)
    then obtain z where z: "min_element_by (\<lambda>a b. key a < key b) as = Some z"
      by (metis list.distinct(1) min_element_by_None_iff option.exhaust)
    then show ?thesis
      using Cons.prems Cons.IH [OF z] by (force split: if_splits)
  qed
qed simp

text \<open>\<open>std::max_element\<close>: the first of the greatest.\<close>

definition max_element_by :: "('a \<Rightarrow> 'a \<Rightarrow> bool) \<Rightarrow> 'a list \<Rightarrow> 'a option" where
  "max_element_by lt = min_element_by (\<lambda>a b. lt b a)"

lemma max_element_by_None_iff [simp]: "max_element_by lt xs = None \<longleftrightarrow> xs = []"
  by (simp add: max_element_by_def)

lemma max_element_by_in: "max_element_by lt xs = Some y \<Longrightarrow> y \<in> set xs"
  unfolding max_element_by_def by (rule min_element_by_in)

lemma max_element_by_key:
  fixes key :: "'a \<Rightarrow> 'b::linorder"
  shows "max_element_by (\<lambda>a b. key a < key b) xs = Some y \<Longrightarrow> x \<in> set xs \<Longrightarrow> key x \<le> key y"
  unfolding max_element_by_def
proof (induction xs arbitrary: y x)
  case (Cons a as)
  show ?case
  proof (cases as)
    case Nil
    with Cons.prems show ?thesis by simp
  next
    case (Cons b bs)
    then obtain z where z: "min_element_by (\<lambda>a b. key b < key a) as = Some z"
      by (metis list.distinct(1) min_element_by_None_iff option.exhaust)
    then show ?thesis
      using Cons.prems Cons.IH [OF z] by (force split: if_splits)
  qed
qed simp

end
