(* ===== verification/Connection_Types.thy ===== *)
theory Connection_Types
  imports Prelude
begin

text \<open>
  The types every part of a connection looks at: the session state and the close reasons of
  \<open>RdpConnection.h\<close>, and the status codes of the FreeRDP channel API the code compares with.
  The numeric values are those of the FreeRDP headers; the code only compares them.
\<close>

datatype conn_state = Initial | Starting | Running | Activated | Streaming | Closed

datatype close_reason = NoReason | VideoInitFailed | OtherConnection

definition CHANNEL_RC_OK :: u32 where
  "CHANNEL_RC_OK = 0"

definition CHANNEL_RC_NOT_INITIALIZED :: u32 where
  "CHANNEL_RC_NOT_INITIALIZED = 2"

definition CHANNEL_RC_BAD_CHANNEL :: u32 where
  "CHANNEL_RC_BAD_CHANNEL = 6"

definition CHANNEL_RC_INITIALIZATION_ERROR :: u32 where
  "CHANNEL_RC_INITIALIZATION_ERROR = 20"

text \<open>Qt's strings are lists of UTF-16 units; \<open>qs\<close> writes an ASCII literal as one.\<close>

type_synonym qstring = "u16 list"

definition qs :: "string \<Rightarrow> qstring" where
  "qs s = map of_char s"

text \<open>\<open>VirtualMonitor\<close> of \<open>AbstractSession.h\<close>.\<close>

record virtual_monitor =
  mon_name :: qstring
  mon_size :: qsize
  mon_dpr :: real

end
