(* ===== verification/Server.thy ===== *)
theory Server
  imports Connection_Types
begin

text \<open>
  The server's settings, \<open>src/Server.cpp\<close> without its list of connections (that is
  \<open>ServerSessions\<close>): the address and port, the users, the choice between PAM and the SAM
  database, the paths of the TLS files, and \<open>start\<close> and \<open>stop\<close>. Addresses and paths are strings too.
\<close>

record user =
  user_name :: qstring
  user_password :: qstring
  readOnly :: bool

text \<open>\<open>listening\<close> is the state of the \<open>QTcpServer\<close>, \<open>rdp_settings_set\<close> tells whether the
  settings object exists, and the two counters count how often one was made and freed.\<close>

record server =
  address :: qstring
  port :: u16
  users :: "user list"
  usePamAuthentication :: bool
  tlsCertificate :: qstring
  tlsCertificateKey :: qstring
  rdp_settings_set :: bool
  listening :: bool
  settings_made :: nat
  settings_freed :: nat

definition server_init :: server where
  "server_init = \<lparr>address = qs ''127.0.0.1'', port = 3389, users = [], usePamAuthentication = False,
     tlsCertificate = [], tlsCertificateKey = [], rdp_settings_set = False, listening = False,
     settings_made = 0, settings_freed = 0\<rparr>"

text \<open>
  \<open>path_exists\<close> is what the file system answers, \<open>listen_ok\<close> what \<open>listen\<close> does.
\<close>

definition server_start :: "(qstring \<Rightarrow> bool) \<Rightarrow> (qstring \<Rightarrow> u16 \<Rightarrow> bool) \<Rightarrow> server \<Rightarrow> bool \<times> server" where
  "server_start path_exists listen_ok s =
     (if \<not> path_exists (tlsCertificate s) \<or> \<not> path_exists (tlsCertificateKey s) then (False, s)
      else if \<not> listen_ok (address s) (port s) then (False, s)
      else (True, s\<lparr>listening := True, rdp_settings_set := True, settings_made := Suc (settings_made s)\<rparr>))"

definition server_stop :: "server \<Rightarrow> server" where
  "server_stop s =
     (let s1 = s\<lparr>listening := False\<rparr>
      in if rdp_settings_set s1
         then s1\<lparr>rdp_settings_set := False, settings_freed := Suc (settings_freed s1)\<rparr> else s1)"

definition setAddress :: "qstring \<Rightarrow> server \<Rightarrow> server" where
  "setAddress newAddress s = (if newAddress = address s then s else s\<lparr>address := newAddress\<rparr>)"

definition setPort :: "u16 \<Rightarrow> server \<Rightarrow> server" where
  "setPort newPort s = (if newPort = port s then s else s\<lparr>port := newPort\<rparr>)"

definition setUsers :: "user list \<Rightarrow> server \<Rightarrow> server" where
  "setUsers us s = s\<lparr>users := us\<rparr>"

definition addUser :: "user \<Rightarrow> server \<Rightarrow> server" where
  "addUser u s = s\<lparr>users := users s @ [u]\<rparr>"

definition setUsePAMAuthentication :: "bool \<Rightarrow> server \<Rightarrow> server" where
  "setUsePAMAuthentication usePAM s = s\<lparr>usePamAuthentication := usePAM\<rparr>"

definition setTlsCertificate :: "qstring \<Rightarrow> server \<Rightarrow> server" where
  "setTlsCertificate p s = (if p = tlsCertificate s then s else s\<lparr>tlsCertificate := p\<rparr>)"

definition setTlsCertificateKey :: "qstring \<Rightarrow> server \<Rightarrow> server" where
  "setTlsCertificateKey p s = (if p = tlsCertificateKey s then s else s\<lparr>tlsCertificateKey := p\<rparr>)"

text \<open>The early returns of the setters save a store and nothing else.\<close>

lemma setters:
  "setAddress a s = s\<lparr>address := a\<rparr>" "setPort p s = s\<lparr>port := p\<rparr>"
  "setTlsCertificate c s = s\<lparr>tlsCertificate := c\<rparr>"
  "setTlsCertificateKey c s = s\<lparr>tlsCertificateKey := c\<rparr>"
  by (simp_all add: setAddress_def setPort_def setTlsCertificate_def setTlsCertificateKey_def)

end
