(* ===== verification/Authentication.thy ===== *)
theory Authentication
  imports Server
begin

text \<open>
  Who may log in: the SAM database for network level authentication, the PAM conversation and the
  decision after the TLS handshake, all from \<open>src/RdpConnection.cpp\<close>. The NT hash, PAM itself,
  the allocator and the login name are the library's: parameters.
\<close>

section \<open>Strings\<close>

text \<open>\<open>section(QLatin1Char('\\'), -1)\<close>: what follows the last backslash, the whole string without one.\<close>

definition backslash :: u16 where "backslash = 92"

definition last_section :: "u16 \<Rightarrow> qstring \<Rightarrow> qstring" where
  "last_section sep s = rev (takeWhile (\<lambda>c. c \<noteq> sep) (rev s))"

text \<open>A C string ends at its first zero byte.\<close>

definition c_string :: "u8 list \<Rightarrow> u8 list" where
  "c_string bs = takeWhile (\<lambda>b. b \<noteq> 0) bs"

definition fromLatin1 :: "u8 list \<Rightarrow> qstring" where
  "fromLatin1 bs = map ucast (c_string bs)"

definition toLatin1 :: "qstring \<Rightarrow> u8 list" where
  "toLatin1 s = map (\<lambda>c. if c < 256 then ucast c else 63) s"

section \<open>The SAM database\<close>

text \<open>\<open>arg(hash[i], 2, 16, QLatin1Char('0'))\<close>: two lower-case digits.\<close>

definition hex_digit :: "u8 \<Rightarrow> u16" where
  "hex_digit d = (if d < 10 then 48 + ucast d else 87 + ucast d)"

definition hex_byte :: "u8 \<Rightarrow> qstring" where
  "hex_byte b = [hex_digit (drop_bit 4 b), hex_digit (and b 15)]"

definition sam_entry :: "(qstring \<Rightarrow> u8 list) \<Rightarrow> user \<Rightarrow> qstring" where
  "sam_entry ntowf u =
     last_section backslash (user_name u) @ qs '':::'' @
     concat (map (\<lambda>i. hex_byte (ntowf (user_password u) ! i)) [0..<16]) @ qs '':::'' @ [10]"

text \<open>The text written to the file, if the file could be opened.\<close>

definition createSamFile :: "(qstring \<Rightarrow> u8 list) \<Rightarrow> bool \<Rightarrow> user list \<Rightarrow> qstring option" where
  "createSamFile ntowf opened us =
     (if \<not> opened then None else Some (concat (map (sam_entry ntowf) us)))"

section \<open>The PAM conversation\<close>

datatype pam_style = PAM_PROMPT_ECHO_ON | PAM_PROMPT_ECHO_OFF | PAM_OTHER_STYLE

datatype pam_status = PAM_SUCCESS | PAM_BUF_ERR | PAM_CONV_ERR

record auth_data =
  auth_user :: "u8 list"
  auth_password :: "u8 list"

text \<open>The heap: the strings that are allocated, and what was in a string when it was freed.\<close>

record pam_heap =
  next_addr :: nat
  blocks :: "nat \<rightharpoonup> u8 list"
  freed :: "u8 list list"

definition heap_strdup :: "u8 list \<Rightarrow> pam_heap \<Rightarrow> nat \<times> pam_heap" where
  "heap_strdup bs h =
     (next_addr h, h\<lparr>next_addr := Suc (next_addr h), blocks := (blocks h)(next_addr h \<mapsto> c_string bs)\<rparr>)"

text \<open>\<open>memset(resp, 0, strlen(resp))\<close> and \<open>free\<close>.\<close>

definition wipe_free :: "nat \<Rightarrow> pam_heap \<Rightarrow> pam_heap" where
  "wipe_free a h =
     (case blocks h a of
        None \<Rightarrow> h
      | Some bs \<Rightarrow> let wiped = replicate (length bs) 0
                   in h\<lparr>blocks := (blocks h)(a := None), freed := freed h @ [wiped]\<rparr>)"

fun style_text :: "pam_style \<Rightarrow> auth_data \<Rightarrow> u8 list option" where
  "style_text PAM_PROMPT_ECHO_ON auth = Some (auth_user auth)"
| "style_text PAM_PROMPT_ECHO_OFF auth = Some (auth_password auth)"
| "style_text PAM_OTHER_STYLE auth = None"

text \<open>
  The loop. \<open>dup\<close> tells for which messages \<open>_strdup\<close> has memory; the first component is false
  when the loop left through \<open>out_fail\<close>. The responses start as the zeros of \<open>calloc\<close>.
\<close>

fun pam_conv_loop ::
  "auth_data \<Rightarrow> (nat \<Rightarrow> bool) \<Rightarrow> pam_style list \<Rightarrow> nat \<Rightarrow> nat option list \<Rightarrow> pam_heap \<Rightarrow>
   bool \<times> nat option list \<times> pam_heap" where
  "pam_conv_loop auth dup [] index response h = (True, response, h)"
| "pam_conv_loop auth dup (style # rest) index response h =
     (case style_text style auth of
        None \<Rightarrow> (False, response, h)
      | Some bs \<Rightarrow>
          if \<not> dup index then (False, response, h)
          else
            let (a, h1) = heap_strdup bs h
            in pam_conv_loop auth dup rest (Suc index) (response[index := Some a]) h1)"

definition wipe_responses :: "nat option list \<Rightarrow> pam_heap \<Rightarrow> pam_heap" where
  "wipe_responses response h =
     fold (\<lambda>r h. case r of None \<Rightarrow> h | Some a \<Rightarrow> wipe_free a h) response h"

text \<open>The status, \<open>*resp\<close> (\<open>None\<close> for a null pointer or, after a failed \<open>calloc\<close>, untouched), the heap.\<close>

definition pam_conv ::
  "bool \<Rightarrow> (nat \<Rightarrow> bool) \<Rightarrow> pam_style list \<Rightarrow> auth_data \<Rightarrow> pam_heap \<Rightarrow>
   pam_status \<times> nat option list option \<times> pam_heap" where
  "pam_conv calloc_ok dup messages auth h =
     (if \<not> calloc_ok then (PAM_BUF_ERR, None, h)
      else
        let (finished, response, h1) =
              pam_conv_loop auth dup messages 0 (replicate (length messages) None) h
        in if finished then (PAM_SUCCESS, Some response, h1)
           else (PAM_CONV_ERR, None, wipe_responses response h1))"

section \<open>Authentication with PAM\<close>

datatype pam_call = PamStart | PamAuthenticate | PamAcctMgmt

text \<open>
  PAM's answers: whether \<open>pam_start\<close> worked, and what \<open>pam_authenticate\<close> and
  \<open>pam_acct_mgmt\<close> decide about the user and password the conversation hands them.
\<close>

record pam_lib =
  start_works :: bool
  authenticates :: "auth_data \<Rightarrow> bool"
  account_valid :: "auth_data \<Rightarrow> bool"

definition pamAuthenticate :: "pam_lib \<Rightarrow> qstring \<Rightarrow> qstring \<Rightarrow> int \<times> pam_call list" where
  "pamAuthenticate lib u pw =
     (let auth = \<lparr>auth_user = c_string (toLatin1 u), auth_password = c_string (toLatin1 pw)\<rparr>
      in if \<not> start_works lib then (- 1, [PamStart])
         else if \<not> authenticates lib auth then (- 1, [PamStart, PamAuthenticate])
         else if \<not> account_valid lib auth then (- 1, [PamStart, PamAuthenticate, PamAcctMgmt])
         else (1, [PamStart, PamAuthenticate, PamAcctMgmt]))"

text \<open>
  The credentials in the peer's settings are C strings. \<open>autologon_set\<close> is the answer of
  \<open>freerdp_settings_set_bool\<close>, \<open>loginName\<close> that of \<open>KUser\<close>.
\<close>

record credentials =
  cred_username :: "u8 list"
  cred_password :: "u8 list"

fun match_user :: "qstring \<Rightarrow> qstring \<Rightarrow> user list \<Rightarrow> bool" where
  "match_user username password [] = False"
| "match_user username password (u # us) =
     (if user_password u = [] then match_user username password us
      else if user_name u = username \<and> user_password u = password then True
      else match_user username password us)"

definition onPostConnect ::
  "pam_lib \<Rightarrow> bool \<Rightarrow> qstring \<Rightarrow> server \<Rightarrow> credentials \<Rightarrow> bool \<times> pam_call list" where
  "onPostConnect lib autologon_set loginName srv cred =
     (let username = last_section backslash (fromLatin1 (cred_username cred))
      in if usePamAuthentication srv
         then
           if \<not> autologon_set then (False, [])
           else
             let password = fromLatin1 (cred_password cred);
                 (accepted, calls) =
                   (if username = loginName \<or> loginName = qs ''plasmalogin''
                    then let (res, cs) = pamAuthenticate lib username password in (res \<ge> 0, cs)
                    else (False, []))
             in if accepted then (True, calls)
                else (match_user username password (users srv), calls)
         else (True, []))"

section \<open>Who may log in\<close>

lemma c_string_idem [simp]: "c_string (c_string bs) = c_string bs"
  by (simp add: c_string_def)

lemma ucast_8_16:
  fixes b :: u8
  shows "uint (ucast b :: u16) = uint b" "(ucast b :: u16) < 256" "ucast (ucast b :: u16) = b"
proof -
  have b: "0 \<le> uint b" "uint b < 256" using uint_lt2p [of b] by simp_all
  then have t: "take_bit 16 (uint b) = uint b" "take_bit 8 (uint b) = uint b"
    by (simp_all add: take_bit_int_eq_self)
  then show u: "uint (ucast b :: u16) = uint b" by (simp add: unsigned_ucast_eq take_bit_word_eq_self)
  show "(ucast b :: u16) < 256" using b by (simp add: word_less_def u)
  have "uint (ucast (ucast b :: u16) :: u8) = uint b" using t by (simp add: unsigned_ucast_eq take_bit_word_eq_self)
  then show "ucast (ucast b :: u16) = b" by (simp only: word_uint_eq_iff)
qed

lemma toLatin1_fromLatin1 [simp]: "toLatin1 (fromLatin1 bs) = c_string bs"
  by (simp add: toLatin1_def fromLatin1_def comp_def ucast_8_16)

lemma match_user_iff:
  "match_user username password us \<longleftrightarrow>
     (\<exists>u \<in> set us. user_password u \<noteq> [] \<and> user_name u = username \<and> user_password u = password)"
  by (induction us) auto

lemma pamAuthenticate_accepts:
  "0 \<le> fst (pamAuthenticate lib u pw) \<longleftrightarrow>
     (let auth = \<lparr>auth_user = c_string (toLatin1 u), auth_password = c_string (toLatin1 pw)\<rparr>
      in start_works lib \<and> authenticates lib auth \<and> account_valid lib auth)"
  by (simp add: pamAuthenticate_def Let_def)

text \<open>
C2. Who gets in when PAM is used. A client is let in exactly if PAM accepts it or a user of the
server's own list matches. PAM is asked only for the user who runs the server, or by the login
manager, with the very bytes the client sent, less the domain; a user of the list matches only with a
password that is not empty, and then with its whole name and password. Everyone else is refused.
\<close>

theorem login_decision:
  assumes "usePamAuthentication srv"
  shows "let username = last_section backslash (fromLatin1 (cred_username cred));
             auth = \<lparr>auth_user = c_string (toLatin1 username), auth_password = c_string (cred_password cred)\<rparr>;
             (accepted, calls) = onPostConnect lib autologon_set loginName srv cred
         in (accepted \<longleftrightarrow> autologon_set \<and>
              ((username = loginName \<or> loginName = qs ''plasmalogin'') \<and>
                 start_works lib \<and> authenticates lib auth \<and> account_valid lib auth \<or>
               (\<exists>u \<in> set (users srv). user_password u \<noteq> [] \<and> user_name u = username \<and>
                  user_password u = fromLatin1 (cred_password cred)))) \<and>
            (calls = [] \<or> username = loginName \<or> loginName = qs ''plasmalogin'')"
  using assms pamAuthenticate_accepts
    [of lib "last_section backslash (fromLatin1 (cred_username cred))" "fromLatin1 (cred_password cred)"]
  by (auto simp: onPostConnect_def Let_def match_user_iff split: prod.splits if_splits)

definition no_pam :: pam_lib where
  "no_pam = \<lparr>start_works = True, authenticates = (\<lambda>_. False), account_valid = (\<lambda>_. True)\<rparr>"

definition one_user_server :: "qstring \<Rightarrow> server" where
  "one_user_server pw = server_init\<lparr>usePamAuthentication := True,
     users := [\<lparr>user_name = [97], user_password = pw, readOnly = False\<rparr>]\<rparr>"

theorem login_decision_witness:
  "fst (onPostConnect no_pam True [98] (one_user_server [120])
          \<lparr>cred_username = [100, 92, 97], cred_password = [120]\<rparr>) \<and>
   \<not> fst (onPostConnect no_pam True [98] (one_user_server [])
          \<lparr>cred_username = [97], cred_password = []\<rparr>)"
proof -
  have pam: "usePamAuthentication (one_user_server pw)" for pw by (simp add: one_user_server_def)
  show ?thesis
    using login_decision [OF pam, where ?lib = no_pam and autologon_set = True and loginName = "[98]" and
        cred = "\<lparr>cred_username = [100, 92, 97], cred_password = [120]\<rparr>" and ?pw1 = "[120]"]
      login_decision [OF pam, where ?lib = no_pam and autologon_set = True and loginName = "[98]" and
        cred = "\<lparr>cred_username = [97], cred_password = []\<rparr>" and ?pw1 = "[]"]
    by (simp add: one_user_server_def server_init_def no_pam_def last_section_def fromLatin1_def
        c_string_def backslash_def Let_def split: prod.splits)
qed

section \<open>The conversation leaks nothing\<close>

text \<open>The heap after allocating the given strings one after the other.\<close>

definition alloc_all :: "pam_heap \<Rightarrow> u8 list list \<Rightarrow> pam_heap" where
  "alloc_all h ts = h\<lparr>next_addr := next_addr h + length ts,
     blocks := (\<lambda>a. if next_addr h \<le> a \<and> a < next_addr h + length ts
                    then Some (ts ! (a - next_addr h)) else blocks h a)\<rparr>"

definition fresh_heap :: "pam_heap \<Rightarrow> bool" where
  "fresh_heap h \<longleftrightarrow> (\<forall>a. next_addr h \<le> a \<longrightarrow> blocks h a = None)"

abbreviation allocated :: "pam_heap \<Rightarrow> u8 list list \<Rightarrow> nat list" where
  "allocated h ts \<equiv> [next_addr h ..< next_addr h + length ts]"

lemma alloc_all_Nil [simp]: "alloc_all h [] = h"
  by (cases h) (auto simp: alloc_all_def fun_eq_iff)

lemma strdup_alloc:
  "heap_strdup bs (alloc_all h ts) = (next_addr h + length ts, alloc_all h (ts @ [c_string bs]))"
proof -
  have "(blocks (alloc_all h ts))(next_addr h + length ts \<mapsto> c_string bs) =
    blocks (alloc_all h (ts @ [c_string bs]))"
    by (rule ext) (auto simp: alloc_all_def nth_append)
  then show ?thesis by (simp add: heap_strdup_def alloc_all_def)
qed

lemma style_text_None [simp]: "style_text m auth = None \<longleftrightarrow> m = PAM_OTHER_STYLE"
  by (cases m) simp_all

definition answer :: "auth_data \<Rightarrow> pam_style \<Rightarrow> u8 list" where
  "answer auth m = c_string (if m = PAM_PROMPT_ECHO_ON then auth_user auth else auth_password auth)"

lemma style_text_answer: "style_text m auth = Some bs \<Longrightarrow> c_string bs = answer auth m"
  by (cases m) (auto simp: answer_def)

text \<open>How far the loop gets: to the first message it cannot answer.\<close>

definition answerable :: "(nat \<Rightarrow> bool) \<Rightarrow> nat \<Rightarrow> pam_style list \<Rightarrow> bool" where
  "answerable dup index msgs \<longleftrightarrow> PAM_OTHER_STYLE \<notin> set msgs \<and> (\<forall>i < length msgs. dup (index + i))"

lemma answerable_Cons:
  "answerable dup index (m # msgs) \<longleftrightarrow>
     m \<noteq> PAM_OTHER_STYLE \<and> dup index \<and> answerable dup (Suc index) msgs"
  by (auto simp: answerable_def nth_Cons split: nat.splits)
    (metis Suc_less_eq add_Suc_right less_Suc_eq_0_disj add_0_right)+

lemma pam_conv_loop_run:
  "\<exists>done. pam_conv_loop auth dup msgs (length ts)
       (map Some (allocated h ts) @ replicate (length msgs) None) (alloc_all h ts) =
     (answerable dup (length ts) msgs,
      map Some (allocated h (ts @ done)) @ replicate (length msgs - length done) None,
      alloc_all h (ts @ done)) \<and>
     (answerable dup (length ts) msgs \<longrightarrow> done = map (answer auth) msgs)"
proof (induction msgs arbitrary: ts)
  case Nil
  show ?case by (intro exI [of _ "[]"]) (simp add: answerable_def)
next
  case (Cons m msgs)
  show ?case
  proof (cases "m = PAM_OTHER_STYLE \<or> \<not> dup (length ts)")
    case True
    then have "\<not> answerable dup (length ts) (m # msgs)" by (auto simp: answerable_Cons)
    with True show ?thesis by (intro exI [of _ "[]"]) (auto split: option.splits)
  next
    case False
    then obtain bs where bs: "style_text m auth = Some bs" by (cases "style_text m auth") auto
    let ?t = "answer auth m"
    have upd: "(map Some (allocated h ts) @ replicate (length (m # msgs)) None)[length ts := Some (next_addr h + length ts)]
        = map Some (allocated h (ts @ [?t])) @ replicate (length msgs) None"
      by (simp add: list_update_append)
    obtain rest where "pam_conv_loop auth dup msgs (length (ts @ [?t]))
         (map Some (allocated h (ts @ [?t])) @ replicate (length msgs) None) (alloc_all h (ts @ [?t])) =
       (answerable dup (length (ts @ [?t])) msgs,
        map Some (allocated h ((ts @ [?t]) @ rest)) @ replicate (length msgs - length rest) None,
        alloc_all h ((ts @ [?t]) @ rest)) \<and>
       (answerable dup (length (ts @ [?t])) msgs \<longrightarrow> rest = map (answer auth) msgs)"
      using Cons.IH by blast
    then show ?thesis using False bs upd
      by (intro exI [of _ "?t # rest"])
        (simp add: strdup_alloc style_text_answer answerable_Cons)
  qed
qed

lemma wipe_alloc:
  assumes "fresh_heap h"
  shows "wipe_responses (map Some (allocated h ts) @ replicate n None) (alloc_all h ts) =
     h\<lparr>next_addr := next_addr h + length ts,
       freed := freed h @ map (\<lambda>t. replicate (length t) 0) ts\<rparr>"
  using assms
proof (induction ts arbitrary: h)
  case Nil
  have "fold (\<lambda>r h. case r of None \<Rightarrow> h | Some a \<Rightarrow> wipe_free a h) (replicate n None) h = h"
    by (induction n) simp_all
  then show ?case by (simp add: wipe_responses_def)
next
  case (Cons t ts)
  let ?h1 = "h\<lparr>next_addr := Suc (next_addr h), freed := freed h @ [replicate (length t) 0]\<rparr>"
  have "wipe_free (next_addr h) (alloc_all h (t # ts)) = alloc_all ?h1 ts"
    using Cons.prems
    by (auto simp: wipe_free_def alloc_all_def fresh_heap_def fun_eq_iff Let_def nth_Cons' Suc_le_eq)
  moreover have "allocated h (t # ts) = next_addr h # allocated ?h1 ts"
    by (simp add: upt_conv_Cons del: upt_Suc)
  ultimately have "wipe_responses (map Some (allocated h (t # ts)) @ replicate n None) (alloc_all h (t # ts))
      = wipe_responses (map Some (allocated ?h1 ts) @ replicate n None) (alloc_all ?h1 ts)"
    by (simp add: wipe_responses_def)
  also have "\<dots> = ?h1\<lparr>next_addr := next_addr ?h1 + length ts,
       freed := freed ?h1 @ map (\<lambda>t. replicate (length t) 0) ts\<rparr>"
    using Cons.prems by (intro Cons.IH) (simp add: fresh_heap_def)
  finally show ?case by simp
qed

lemma pam_conv_fails:
  assumes "fresh_heap h" and "\<not> (calloc_ok \<and> answerable dup 0 msgs)"
  obtains e and zs :: "u8 list list" where "pam_conv calloc_ok dup msgs auth h =
      (e, None, h\<lparr>next_addr := next_addr h + length zs,
         freed := freed h @ map (\<lambda>z. replicate (length z) 0) zs\<rparr>)" "e \<noteq> PAM_SUCCESS"
proof (cases calloc_ok)
  case False
  then show ?thesis using that [of PAM_BUF_ERR "[]"] by (simp add: pam_conv_def)
next
  case True
  obtain ts where "pam_conv_loop auth dup msgs 0 (replicate (length msgs) None) h =
     (answerable dup 0 msgs,
      map Some (allocated h ts) @ replicate (length msgs - length ts) None, alloc_all h ts)"
    using pam_conv_loop_run [of auth dup msgs "[]" h] by auto
  then show ?thesis using that [of PAM_CONV_ERR ts] True assms
    by (simp add: pam_conv_def wipe_alloc)
qed

lemma pam_conv_succeeds:
  assumes "calloc_ok" "answerable dup 0 msgs"
  shows "pam_conv calloc_ok dup msgs auth h =
     (PAM_SUCCESS, Some (map Some [next_addr h ..< next_addr h + length msgs]),
      alloc_all h (map (answer auth) msgs))"
  using pam_conv_loop_run [of auth dup msgs "[]" h] assms by (auto simp: pam_conv_def)



section \<open>The SAM database is read back\<close>

text \<open>
  How the file is read: one entry per line, fields between colons, the first of them the user, the
  fourth the NT hash in hexadecimal.
\<close>

fun split_at :: "'a \<Rightarrow> 'a list \<Rightarrow> 'a list list" where
  "split_at sep [] = [[]]"
| "split_at sep (x # xs) =
     (if x = sep then [] # split_at sep xs
      else case split_at sep xs of [] \<Rightarrow> [[x]] | f # fs \<Rightarrow> (x # f) # fs)"

definition unhex_digit :: "u16 \<Rightarrow> u8" where
  "unhex_digit c = (if c < 58 then ucast (c - 48) else ucast (c - 87))"

fun unhex :: "qstring \<Rightarrow> u8 list" where
  "unhex (hi # lo # cs) = (push_bit 4 (unhex_digit hi) + unhex_digit lo) # unhex cs"
| "unhex _ = []"

definition read_entry :: "qstring \<Rightarrow> qstring \<times> u8 list" where
  "read_entry line = (let fields = split_at 58 line in (fields ! 0, unhex (fields ! 3)))"

definition read_sam :: "qstring \<Rightarrow> (qstring \<times> u8 list) list" where
  "read_sam content = map read_entry (butlast (split_at 10 content))"

lemma split_at_append: "sep \<notin> set a \<Longrightarrow> split_at sep (a @ sep # b) = a # split_at sep b"
  by (induction a) (auto split: list.splits)

lemma split_at_none: "sep \<notin> set a \<Longrightarrow> split_at sep a = [a]"
  by (induction a) auto

lemma split_at_Nil [simp]: "split_at sep a \<noteq> []"
  by (cases a) (auto split: list.splits)

text \<open>Every digit, by evaluation; a byte is its two digits.\<close>

lemma hex_digits_checked:
  "list_all (\<lambda>d. unhex_digit (hex_digit d) = d \<and> hex_digit d \<noteq> 58 \<and> hex_digit d \<noteq> 10)
     (map word_of_nat [0..<16])"
  by code_simp

lemma hex_digit:
  assumes "unat d < 16"
  shows "unhex_digit (hex_digit d) = d" "hex_digit d \<noteq> 58" "hex_digit d \<noteq> 10"
proof -
  have "d \<in> set (map word_of_nat [0..<16])"
    using assms by (auto simp: image_iff intro: bexI [of _ "unat d"])
  with hex_digits_checked
  show "unhex_digit (hex_digit d) = d" "hex_digit d \<noteq> 58" "hex_digit d \<noteq> 10"
    unfolding list_all_iff by blast+
qed

lemma nibbles:
  fixes b :: u8
  shows "unat (drop_bit 4 b) < 16" "unat (and b 15) < 16" "push_bit 4 (drop_bit 4 b) + and b 15 = b"
proof -
  have low: "and b 15 = take_bit 4 b" by (simp add: take_bit_eq_mask mask_eq_exp_minus_1)
  have "unat b < 2 ^ LENGTH(8)" by (rule unsigned_less)
  then have "unat b < 256" by simp
  then show "unat (drop_bit 4 b) < 16" by (simp add: drop_bit_eq_div unat_div)
  show "unat (and b 15) < 16" unfolding low by (simp add: unsigned_take_bit_eq take_bit_nat_less_exp [of 4, simplified])
  show "push_bit 4 (drop_bit 4 b) + and b 15 = b" unfolding low by (rule bits_ident)
qed

lemma hex_byte: "unhex (hex_byte b) = [b]" "58 \<notin> set (hex_byte b)" "10 \<notin> set (hex_byte b)"
  using hex_digit [OF nibbles(1) [of b]] hex_digit [OF nibbles(2) [of b]] nibbles(3) [of b]
  by (simp_all add: hex_byte_def)

lemma unhex_bytes: "unhex (concat (map hex_byte bs)) = bs"
proof (induction bs)
  case (Cons b bs)
  have "unhex (hex_byte b @ cs) = b # unhex cs" for cs
    using hex_byte(1) [of b] by (simp add: hex_byte_def)
  with Cons show ?case by simp
qed simp

lemma hex_text: "58 \<notin> set (concat (map hex_byte bs))" "10 \<notin> set (concat (map hex_byte bs))"
  using hex_byte(2,3) by auto

lemma qs_colons: "qs '':::'' = [58, 58, 58]"
  by (simp add: qs_def)

lemma sam_entry_eq:
  assumes "length (ntowf (user_password u)) = 16"
  shows "sam_entry ntowf u = last_section backslash (user_name u) @ [58, 58, 58] @
           concat (map hex_byte (ntowf (user_password u))) @ [58, 58, 58, 10]"
proof -
  have "map (\<lambda>i. hex_byte (ntowf (user_password u) ! i)) [0..<16] = map hex_byte (ntowf (user_password u))"
    using assms by (intro nth_equalityI) simp_all
  then show ?thesis by (simp add: sam_entry_def qs_colons)
qed

lemma read_entry_sam:
  assumes "58 \<notin> set name"
  shows "read_entry (name @ [58, 58, 58] @ concat (map hex_byte bs) @ [58, 58, 58]) = (name, bs)"
proof -
  have "split_at 58 (name @ 58 # (58 # 58 # (concat (map hex_byte bs) @ 58 # [58, 58])))
      = name # [] # [] # concat (map hex_byte bs) # split_at 58 [58, 58]"
    by (simp only: split_at_append [OF assms] split_at_append [OF hex_text(1)] split_at.simps if_True refl)
  then show ?thesis by (simp add: read_entry_def unhex_bytes numeral_eq_Suc)
qed



end
