(* ===== verification/ConnectionSettings.thy ===== *)
theory ConnectionSettings
  imports Authentication
begin

text \<open>
  The FreeRDP settings of a connection: what \<open>RdpConnection::initialize\<close> asks for and what
  \<open>onCapabilities\<close> accepts of the client's answer (\<open>src/RdpConnection.cpp\<close>).
\<close>

datatype bool_setting =
    RdpSecurity | TlsSecurity | NlaSecurity | ExtSecurity | RdstlsSecurity
  | AudioPlayback | SupportGraphicsPipeline | GfxAVC444 | GfxAVC444v2 | GfxH264 | GfxProgressive
  | SmartSizing | GfxSmallCache | GfxThinClient | SupportDynamicChannels
  | HasExtendedMouseEvent | HasHorizontalWheel | UnicodeInput | NetworkAutoDetect
  | RefreshRect | RemoteConsoleAudio | RemoteFxCodec | NSCodec
  | FrameMarkerCommandEnabled | SurfaceFrameMarkerEnabled
  | SupportMonitorLayoutPdu | SupportDisplayControl | AutoLogonEnabled

datatype num_setting =
    OsMajorType | OsMinorType | ColorDepth | PointerCacheSize | ConnectionType
  | DesktopWidth | DesktopHeight

record rdp_settings =
  bool_of :: "bool_setting \<Rightarrow> bool"
  num_of :: "num_setting \<Rightarrow> u32"
  NtlmSamFile :: "qstring option"
  has_certificate :: bool
  has_key :: bool

definition set_bool :: "bool_setting \<Rightarrow> bool \<Rightarrow> rdp_settings \<Rightarrow> rdp_settings" where
  "set_bool k b s = s\<lparr>bool_of := (bool_of s)(k := b)\<rparr>"

definition set_num :: "num_setting \<Rightarrow> u32 \<Rightarrow> rdp_settings \<Rightarrow> rdp_settings" where
  "set_num k n s = s\<lparr>num_of := (num_of s)(k := n)\<rparr>"

definition OSMAJORTYPE_UNIX :: u32 where "OSMAJORTYPE_UNIX = 4"
definition OSMINORTYPE_PSEUDO_XSERVER :: u32 where "OSMINORTYPE_PSEUDO_XSERVER = 7"

text \<open>The calls of \<open>freerdp_settings_set_bool\<close> and \<open>_uint32\<close> in \<open>initialize\<close>, in order.\<close>

definition setup_settings :: "bool \<Rightarrow> bool \<Rightarrow> rdp_settings \<Rightarrow> rdp_settings" where
  "setup_settings usePam h264Disabled s =
     fold (\<lambda>f s. f s)
       [set_bool RdpSecurity False,
        set_bool TlsSecurity usePam,
        set_bool NlaSecurity (\<not> usePam),
        set_bool ExtSecurity (\<not> usePam),
        set_bool RdstlsSecurity False,
        set_num OsMajorType OSMAJORTYPE_UNIX,
        set_num OsMinorType OSMINORTYPE_PSEUDO_XSERVER,
        set_bool AudioPlayback False,
        set_num ColorDepth 32,
        set_bool SupportGraphicsPipeline True,
        set_bool GfxAVC444 False,
        set_bool GfxAVC444v2 False,
        set_bool GfxH264 (\<not> h264Disabled),
        set_bool GfxProgressive True,
        set_bool SmartSizing True,
        set_bool GfxSmallCache False,
        set_bool GfxThinClient False,
        set_bool SupportDynamicChannels True,
        set_bool HasExtendedMouseEvent True,
        set_bool HasHorizontalWheel True,
        set_bool UnicodeInput True,
        set_bool NetworkAutoDetect True,
        set_bool RefreshRect True,
        set_bool RemoteConsoleAudio True,
        set_bool RemoteFxCodec False,
        set_bool NSCodec False,
        set_bool FrameMarkerCommandEnabled True,
        set_bool SurfaceFrameMarkerEnabled True,
        set_bool SupportMonitorLayoutPdu True,
        set_bool SupportDisplayControl True] s"

definition onCapabilities :: "rdp_settings \<Rightarrow> bool \<times> rdp_settings" where
  "onCapabilities s =
     (if \<not> bool_of s SupportGraphicsPipeline then (False, s)
      else
        let s1 = (if num_of s ColorDepth \<noteq> 32 then set_num ColorDepth 32 s else s)
        in if num_of s1 PointerCacheSize \<le> 0 then (False, s1) else (True, s1))"

text \<open>The \<open>CONNECTION_TYPE_*\<close> constants and the quality each seeds.\<close>

definition CONNECTION_TYPE_MODEM :: u32 where "CONNECTION_TYPE_MODEM = 1"
definition CONNECTION_TYPE_BROADBAND_LOW :: u32 where "CONNECTION_TYPE_BROADBAND_LOW = 2"
definition CONNECTION_TYPE_SATELLITE :: u32 where "CONNECTION_TYPE_SATELLITE = 3"
definition CONNECTION_TYPE_BROADBAND_HIGH :: u32 where "CONNECTION_TYPE_BROADBAND_HIGH = 4"
definition CONNECTION_TYPE_WAN :: u32 where "CONNECTION_TYPE_WAN = 5"
definition CONNECTION_TYPE_LAN :: u32 where "CONNECTION_TYPE_LAN = 6"

definition qualitySeedForConnectionType :: "u32 \<Rightarrow> u8 option" where
  "qualitySeedForConnectionType connectionType =
     (if connectionType = CONNECTION_TYPE_MODEM then Some 30
      else if connectionType = CONNECTION_TYPE_BROADBAND_LOW then Some 50
      else if connectionType = CONNECTION_TYPE_SATELLITE then Some 45
      else if connectionType = CONNECTION_TYPE_WAN then Some 70
      else if connectionType = CONNECTION_TYPE_BROADBAND_HIGH then Some 80
      else if connectionType = CONNECTION_TYPE_LAN then Some 95
      else None)"

lemma onCapabilities_iff:
  "fst (onCapabilities s) \<longleftrightarrow> bool_of s SupportGraphicsPipeline \<and> num_of s PointerCacheSize \<noteq> 0"
  by (simp add: onCapabilities_def set_num_def Let_def)

lemma onCapabilities_depth:
  "fst (onCapabilities s) \<Longrightarrow> num_of (snd (onCapabilities s)) = (num_of s)(ColorDepth := 32)"
  by (auto simp: onCapabilities_def set_num_def Let_def fun_eq_iff split: if_splits)

text \<open>
  Exactly one way to authenticate is offered: TLS with the credentials checked after the handshake,
  or network level authentication against the SAM file.
\<close>

lemma setup_security:
  "bool_of (setup_settings pam no_avc s) TlsSecurity = pam"
  "bool_of (setup_settings pam no_avc s) NlaSecurity = (\<not> pam)"
  "bool_of (setup_settings pam no_avc s) ExtSecurity = (\<not> pam)"
  "\<not> bool_of (setup_settings pam no_avc s) RdpSecurity"
  "\<not> bool_of (setup_settings pam no_avc s) RdstlsSecurity"
  by (simp_all add: setup_settings_def set_bool_def set_num_def)

end
