(* ===== verification/Doubles.thy ===== *)
theory Doubles
  imports Prelude
begin

text \<open>
  The \<open>double\<close> arithmetic of the rate, window and quality computations. A double is a real
  number, and every operation of the code rounds its exact result to the nearest number with a
  53-bit significand, ties to even (IEEE 754 binary64). Exponents are unbounded here: the values
  the code computes lie between 1e-9 and 1e20, far from overflow and from subnormals. Nothing that
  follows depends on more of the rounding than that it is monotone and leaves representable numbers
  alone; the locale \<open>rounding\<close> states this much, and \<open>fl\<close> is its interpretation.
\<close>

section \<open>Rounding to 53 bits\<close>

definition round_even :: "real \<Rightarrow> int" where
  "round_even x = (if frac x = 1 / 2 \<and> odd (round x) then round x - 1 else round x)"

definition ulp_exp :: "real \<Rightarrow> int" where
  "ulp_exp x = \<lfloor>log 2 x\<rfloor> - 52"

definition fl_pos :: "real \<Rightarrow> real" where
  "fl_pos x = of_int (round_even (x / 2 powr ulp_exp x)) * 2 powr ulp_exp x"

definition fl :: "real \<Rightarrow> real" where
  "fl x = (if x = 0 then 0 else if 0 < x then fl_pos x else - fl_pos (- x))"

definition is_double :: "real \<Rightarrow> bool" where
  "is_double x \<longleftrightarrow> fl x = x"

lemma round_even_of_int [simp]: "round_even (of_int n) = n"
  by (simp add: round_even_def)

lemma round_cases:
  fixes x :: real
  shows "frac x < 1 / 2 \<Longrightarrow> round x = \<lfloor>x\<rfloor>" and "1 / 2 \<le> frac x \<Longrightarrow> round x = \<lfloor>x\<rfloor> + 1"
  by (simp_all add: round_def frac_def floor_eq_iff) linarith+

lemma round_even_le: "\<lfloor>x\<rfloor> \<le> round_even x" "round_even x \<le> \<lfloor>x\<rfloor> + 1"
  by (cases "frac x < 1 / 2"; simp add: round_even_def round_cases)+

lemma round_even_mono: "x \<le> y \<Longrightarrow> round_even x \<le> round_even y"
proof (cases "\<lfloor>x\<rfloor> = \<lfloor>y\<rfloor>")
  case True
  assume "x \<le> y"
  with True have "frac x \<le> frac y" by (simp add: frac_def)
  with True show ?thesis
    by (cases "frac x < 1 / 2"; cases "frac y < 1 / 2") (auto simp: round_even_def round_cases)
next
  case False
  assume "x \<le> y"
  then have "\<lfloor>x\<rfloor> \<le> \<lfloor>y\<rfloor>" by (rule floor_mono)
  with False have "\<lfloor>x\<rfloor> + 1 \<le> \<lfloor>y\<rfloor>" by simp
  then show ?thesis using round_even_le(2) [of x] round_even_le(1) [of y] by linarith
qed

lemma ulp_exp_bounds:
  assumes "0 < x"
  shows "2 ^ 52 * 2 powr ulp_exp x \<le> x" and "x < 2 ^ 53 * 2 powr ulp_exp x"
proof -
  let ?k = "\<lfloor>log 2 x\<rfloor>"
  have "2 powr ?k \<le> 2 powr log 2 x" by simp
  moreover have "2 powr log 2 x < 2 powr (?k + 1)" by (rule powr_less_mono) linarith+
  moreover have "(2::real) powr ?k = 2 ^ 52 * 2 powr ulp_exp x"
    by (simp add: ulp_exp_def powr_diff)
  moreover have "(2::real) powr (?k + 1) = 2 ^ 53 * 2 powr ulp_exp x"
    by (simp add: ulp_exp_def powr_diff powr_add)
  ultimately show "2 ^ 52 * 2 powr ulp_exp x \<le> x" and "x < 2 ^ 53 * 2 powr ulp_exp x"
    using assms by simp_all
qed

lemma scaled_bounds:
  assumes "0 < x"
  shows "2 ^ 52 \<le> round_even (x / 2 powr ulp_exp x)" and "round_even (x / 2 powr ulp_exp x) \<le> 2 ^ 53"
proof -
  have "of_int (2 ^ 52) \<le> x / 2 powr ulp_exp x"
    using ulp_exp_bounds(1) [OF assms] by (simp add: field_simps)
  then have "round_even (of_int (2 ^ 52)) \<le> round_even (x / 2 powr ulp_exp x)"
    by (rule round_even_mono)
  then show "2 ^ 52 \<le> round_even (x / 2 powr ulp_exp x)" by (simp only: round_even_of_int)
  have "x / 2 powr ulp_exp x \<le> of_int (2 ^ 53)"
    using ulp_exp_bounds(2) [OF assms] by (simp add: field_simps)
  then have "round_even (x / 2 powr ulp_exp x) \<le> round_even (of_int (2 ^ 53))"
    by (rule round_even_mono)
  then show "round_even (x / 2 powr ulp_exp x) \<le> 2 ^ 53" by (simp only: round_even_of_int)
qed

lemma fl_pos_pos: "0 < x \<Longrightarrow> 0 < fl_pos x"
  using scaled_bounds(1) [of x] by (simp add: fl_pos_def)

lemma fl_pos_mono:
  assumes "0 < x" and "x \<le> y"
  shows "fl_pos x \<le> fl_pos y"
proof (cases "ulp_exp x = ulp_exp y")
  case True
  have "round_even (x / 2 powr ulp_exp y) \<le> round_even (y / 2 powr ulp_exp y)"
    using assms by (intro round_even_mono divide_right_mono) auto
  then show ?thesis by (simp add: fl_pos_def True)
next
  case False
  have "log 2 x \<le> log 2 y" using assms by simp
  then have "ulp_exp x \<le> ulp_exp y" by (simp add: ulp_exp_def floor_mono)
  with False have step: "of_int (ulp_exp x) + 1 \<le> (of_int (ulp_exp y) :: real)" by linarith
  have "fl_pos x \<le> of_int (2 ^ 53) * 2 powr ulp_exp x"
    unfolding fl_pos_def using scaled_bounds(2) [OF assms(1)]
    by (intro mult_right_mono) (simp_all only: of_int_le_iff powr_ge_zero)
  also have "\<dots> = 2 ^ 53 * 2 powr ulp_exp x" by simp
  also have "\<dots> = 2 ^ 52 * 2 powr (ulp_exp x + 1)" by (simp add: powr_add)
  also have "\<dots> \<le> 2 ^ 52 * 2 powr ulp_exp y" using step by simp
  also have "\<dots> = of_int (2 ^ 52) * 2 powr ulp_exp y" by simp
  also have "\<dots> \<le> fl_pos y"
    unfolding fl_pos_def using scaled_bounds(1) [of y] assms
    by (intro mult_right_mono) (simp_all only: of_int_le_iff powr_ge_zero less_le_trans)
  finally show ?thesis .
qed

lemma fl_zero [simp]: "fl 0 = 0"
  by (simp add: fl_def)

lemma fl_minus: "fl (- x) = - fl x"
  by (simp add: fl_def)

lemma fl_pos_iff [simp]: "0 < fl x \<longleftrightarrow> 0 < x"
  using fl_pos_pos [of x] fl_pos_pos [of "- x"] by (auto simp: fl_def)

lemma fl_nonneg_iff [simp]: "0 \<le> fl x \<longleftrightarrow> 0 \<le> x"
  using fl_pos_pos [of x] fl_pos_pos [of "- x"] by (auto simp: fl_def less_imp_le)

lemma fl_mono: "x \<le> y \<Longrightarrow> fl x \<le> fl y"
proof (cases "0 < x \<or> y < 0")
  case True
  assume "x \<le> y"
  with True show ?thesis
    using fl_pos_mono [of x y] fl_pos_mono [of "- y" "- x"] by (auto simp: fl_def)
next
  case False
  assume "x \<le> y"
  with False have "fl x \<le> 0" and "0 \<le> fl y"
    using fl_pos_iff [of x] fl_nonneg_iff [of y] by linarith+
  then show ?thesis by (rule order_trans)
qed

text \<open>Every integer multiple of a power of two with at most 53 significant bits is kept.\<close>

lemma fl_pos_exact:
  assumes "0 < m" and "m \<le> 2 ^ 53"
  shows "fl_pos (of_int m * 2 powr of_int e) = of_int m * 2 powr of_int e"
proof -
  let ?x = "of_int m * 2 powr of_int e :: real"
  have pos: "0 < ?x" using assms by simp
  show ?thesis
  proof (cases "ulp_exp ?x \<le> e")
    case True
    have "?x / 2 powr ulp_exp ?x = of_int m * 2 powr of_int (e - ulp_exp ?x)"
      by (simp add: powr_diff)
    also have "\<dots> = of_int (m * 2 ^ nat (e - ulp_exp ?x))"
      using True by (simp add: powr_realpow [symmetric])
    finally have "round_even (?x / 2 powr ulp_exp ?x) = m * 2 ^ nat (e - ulp_exp ?x)"
      by (simp only: round_even_of_int)
    then have "fl_pos ?x = of_int m * (2 ^ nat (e - ulp_exp ?x) * 2 powr ulp_exp ?x)"
      by (simp add: fl_pos_def mult.assoc)
    also have "2 ^ nat (e - ulp_exp ?x) * 2 powr ulp_exp ?x = (2 powr of_int e :: real)"
      using True by (simp add: powr_realpow [symmetric] flip: powr_add)
    finally show ?thesis .
  next
    case False
    then have step: "of_int e + 1 \<le> (of_int (ulp_exp ?x) :: real)" by linarith
    have "?x \<le> of_int (2 ^ 53) * 2 powr of_int e"
      using assms(2) by (intro mult_right_mono) (simp_all only: of_int_le_iff powr_ge_zero)
    also have "\<dots> = 2 ^ 53 * 2 powr of_int e" by simp
    also have "\<dots> = 2 ^ 52 * 2 powr (of_int e + 1)" by (simp add: powr_add)
    also have "\<dots> \<le> 2 ^ 52 * 2 powr ulp_exp ?x" using step by simp
    finally have eq: "?x = 2 ^ 52 * 2 powr ulp_exp ?x" using ulp_exp_bounds(1) [OF pos] by linarith
    then have "?x / 2 powr ulp_exp ?x = of_int (2 ^ 52)" by (simp add: field_simps)
    then have "round_even (?x / 2 powr ulp_exp ?x) = 2 ^ 52" by (simp only: round_even_of_int)
    then show ?thesis using eq by (simp add: fl_pos_def)
  qed
qed

lemma fl_exact: "\<bar>m\<bar> \<le> 2 ^ 53 \<Longrightarrow> fl (of_int m * 2 powr of_int e) = of_int m * 2 powr of_int e"
  using fl_pos_exact [of m e] fl_pos_exact [of "- m" e]
  by (cases m "0 :: int" rule: linorder_cases) (auto simp: fl_def zero_less_mult_iff mult_less_0_iff)

lemma fl_of_int [simp]: "\<bar>n\<bar> \<le> 2 ^ 53 \<Longrightarrow> fl (of_int n) = of_int n"
  using fl_exact [of n 0] by simp

lemma fl_numeral [simp]: "(numeral n :: int) \<le> 2 ^ 53 \<Longrightarrow> fl (numeral n) = numeral n"
  using fl_of_int [of "numeral n"] by simp

lemma fl_one [simp]: "fl 1 = 1"
  using fl_of_int [of 1] by simp

lemma fl_of_nat [simp]: "n \<le> 2 ^ 53 \<Longrightarrow> fl (of_nat n) = of_nat n"
proof -
  assume "n \<le> 2 ^ 53"
  then have "int n \<le> int (2 ^ 53)" by (simp only: of_nat_le_iff)
  then show ?thesis using fl_of_int [of "int n"] by simp
qed

lemma fl_dyadic: "\<bar>m\<bar> \<le> 2 ^ 53 \<Longrightarrow> fl (of_int m / 2 ^ k) = of_int m / 2 ^ k"
proof -
  assume m: "\<bar>m\<bar> \<le> 2 ^ 53"
  have "(2::real) powr of_int (- int k) = inverse (2 ^ k)"
    by (simp only: of_int_minus of_int_of_nat_eq powr_minus powr_realpow zero_less_numeral)
  then have "(of_int m :: real) / 2 ^ k = of_int m * 2 powr of_int (- int k)"
    by (metis divide_inverse)
  then show ?thesis using fl_exact [OF m, of "- int k"] by (rule ssubst)
qed

section \<open>What the code relies on\<close>

locale rounding =
  fixes rnd :: "real \<Rightarrow> real"
  assumes rnd_mono: "x \<le> y \<Longrightarrow> rnd x \<le> rnd y"
    and rnd_dyadic: "\<bar>m\<bar> \<le> 2 ^ 53 \<Longrightarrow> rnd (of_int m / 2 ^ k) = of_int m / 2 ^ k"
begin

lemma rnd_int: "\<bar>n\<bar> \<le> 2 ^ 53 \<Longrightarrow> rnd (of_int n) = of_int n"
  using rnd_dyadic [of n 0] by simp

lemma rnd_le: "rnd b = b \<Longrightarrow> x \<le> b \<Longrightarrow> rnd x \<le> b"
  using rnd_mono [of x b] by simp

lemma rnd_ge: "rnd a = a \<Longrightarrow> a \<le> x \<Longrightarrow> a \<le> rnd x"
  using rnd_mono [of a x] by simp

text \<open>
  An exponentially weighted average of two numbers in an interval stays in the interval, although
  both products and the sum are rounded, when the interval's ends and their weighted parts are
  representable.
\<close>

lemma ewma_between:
  assumes w: "0 \<le> w" "w \<le> 1" "v = 1 - w"
    and lo: "rnd lo = lo" "rnd (v * lo) = v * lo" "rnd (w * lo) = w * lo"
    and hi: "rnd hi = hi" "rnd (v * hi) = v * hi" "rnd (w * hi) = w * hi"
    and old: "lo \<le> old" "old \<le> hi" and new: "lo \<le> new" "new \<le> hi"
  shows "lo \<le> rnd (rnd (v * old) + rnd (w * new))" and "rnd (rnd (v * old) + rnd (w * new)) \<le> hi"
proof -
  have v: "0 \<le> v" using w by simp
  have "v * lo \<le> rnd (v * old)" and "w * lo \<le> rnd (w * new)"
    using lo old new w v by (auto intro!: rnd_ge mult_left_mono)
  moreover have "v * lo + w * lo = lo" using w(3) by (simp flip: distrib_right)
  ultimately have "lo \<le> rnd (v * old) + rnd (w * new)" by linarith
  then show "lo \<le> rnd (rnd (v * old) + rnd (w * new))" by (rule rnd_ge [OF lo(1)])
  have "rnd (v * old) \<le> v * hi" and "rnd (w * new) \<le> w * hi"
    using hi old new w v by (auto intro!: rnd_le mult_left_mono)
  moreover have "v * hi + w * hi = hi" using w(3) by (simp flip: distrib_right)
  ultimately have "rnd (v * old) + rnd (w * new) \<le> hi" by linarith
  then show "rnd (rnd (v * old) + rnd (w * new)) \<le> hi" by (rule rnd_le [OF hi(1)])
qed

text \<open>Scaling a number of an interval, in two rounded steps, stays within the scaled interval.\<close>

lemma scale_between:
  assumes "0 \<le> x" "x \<le> w" "0 < w" "0 \<le> r" "rnd r = r"
  shows "0 \<le> rnd (rnd (x / w) * r)" and "rnd (rnd (x / w) * r) \<le> r"
proof -
  have one: "rnd 1 = 1" and zero: "rnd 0 = 0" using rnd_int [of 1] rnd_int [of 0] by simp_all
  have "0 \<le> rnd (x / w)" and "rnd (x / w) \<le> 1"
    using assms by (auto intro!: rnd_ge [OF zero] rnd_le [OF one])
  then have "0 \<le> rnd (x / w) * r" and "rnd (x / w) * r \<le> r"
    using assms by (auto intro: mult_left_le_one_le)
  then show "0 \<le> rnd (rnd (x / w) * r)" and "rnd (rnd (x / w) * r) \<le> r"
    using assms by (auto intro: rnd_ge [OF zero] rnd_le)
qed

end

interpretation fl: rounding fl
  by unfold_locales (auto intro: fl_mono fl_dyadic)

section \<open>Conversions to integers\<close>

text \<open>\<open>std::lround\<close> and \<open>qRound\<close>: halves round away from zero.\<close>

definition lround :: "real \<Rightarrow> int" where
  "lround x = (if 0 \<le> x then \<lfloor>x + 1 / 2\<rfloor> else - \<lfloor>- x + 1 / 2\<rfloor>)"

lemma lround_minus: "lround (- x) = - lround x"
  by (auto simp: lround_def)

lemma lround_of_int [simp]: "lround (of_int n) = n"
  by (simp add: lround_def floor_eq_iff)

lemma lround_mono: "x \<le> y \<Longrightarrow> lround x \<le> lround y"
  unfolding lround_def by (auto intro!: floor_mono) linarith

text \<open>The cast from \<open>double\<close> to an integer type truncates.\<close>

definition trunc :: "real \<Rightarrow> int" where
  "trunc x = (if 0 \<le> x then \<lfloor>x\<rfloor> else - \<lfloor>- x\<rfloor>)"

lemma trunc_of_int [simp]: "trunc (of_int n) = n"
  by (simp add: trunc_def)

lemma trunc_bounds: "0 \<le> x \<Longrightarrow> x \<le> of_int n \<Longrightarrow> 0 \<le> trunc x \<and> trunc x \<le> n"
  by (auto simp: trunc_def floor_le_iff)

end
