(* ===== verification/NetworkDetection.thy ===== *)
theory NetworkDetection
  imports Doubles Connection_Types
begin

text \<open>
  \<open>src/NetworkDetection.cpp\<close>: the RTT and bandwidth measurements of a connection. The state is
  the class's \<open>Private\<close>; what it asks FreeRDP to send and the signals it emits are appended to
  \<open>nd_log\<close>. Every reading of the system clock is an argument. An operation returns
  \<open>None\<close> when the loop of \<open>nextSequenceNumber\<close> does not end; the invariant shows that
  it always ends.
\<close>

section \<open>State\<close>

datatype nd_phase = ND_None | PendingStop | QueuedStop | PendingResults

record rtt_measurement =
  measurementTime :: ticks
  roundTripTime :: ticks

datatype nd_out =
    BandwidthMeasureStart u16
  | BandwidthMeasureStop u16 u16
  | RTTMeasureRequest u16
  | NetworkCharacteristicsResult u16 int int u32
  | RttChanged
  | BandwidthChanged

record network_detection =
  phase :: nd_phase
  sequenceNumber :: u16
  smoothedBandwidthBps :: real
  hasSmoothedBandwidth :: bool
  lastRttUpdate :: ticks
  rttRequests :: "u16 \<rightharpoonup> ticks"
  rttMeasurements :: "rtt_measurement list"
  minimumRttTicks :: ticks
  averageRttTicks :: ticks
  averageBandwidthBps :: u32
  lastNetworkResult :: ticks
  bandwidthMeasureStartTime :: ticks
  lastBandwidthMeasureStart :: ticks
  nd_log :: "nd_out list"

definition nd_init :: network_detection where
  "nd_init = \<lparr>phase = ND_None, sequenceNumber = 0, smoothedBandwidthBps = 0,
     hasSmoothedBandwidth = False, lastRttUpdate = 0, rttRequests = Map.empty,
     rttMeasurements = [], minimumRttTicks = 0, averageRttTicks = 0, averageBandwidthBps = 0,
     lastNetworkResult = 0, bandwidthMeasureStartTime = 0, lastBandwidthMeasureStart = 0,
     nd_log = []\<rparr>"

definition rttUpdateInterval :: ticks where "rttUpdateInterval = ms 70"
definition rttAverageInterval :: ticks where "rttAverageInterval = ms 500"
definition networkResultInterval :: ticks where "networkResultInterval = sec 1"
definition rttRequestMaxAge :: ticks where "rttRequestMaxAge = sec 30"
definition bandwidthMeasureDuration :: ticks where "bandwidthMeasureDuration = ms 500"
definition bandwidthMeasureInterval :: ticks where "bandwidthMeasureInterval = sec 2"
definition bandwidthSmoothingWeight :: real where "bandwidthSmoothingWeight = 1 / 2"

named_theorems nd_defs

lemmas nd_interval_defs [nd_defs] =
  rttUpdateInterval_def rttAverageInterval_def networkResultInterval_def rttRequestMaxAge_def
  bandwidthMeasureDuration_def bandwidthMeasureInterval_def

definition nd_emit :: "nd_out \<Rightarrow> network_detection \<Rightarrow> network_detection" where
  "nd_emit x s = s\<lparr>nd_log := nd_log s @ [x]\<rparr>"

section \<open>Operations\<close>

definition minimumRTT :: "network_detection \<Rightarrow> ticks" where
  "minimumRTT s = minimumRttTicks s"

definition averageRTT :: "network_detection \<Rightarrow> ticks" where
  "averageRTT s = averageRttTicks s"

text \<open>\<open>uint32_t * int / int\<close>: the product wraps.\<close>

definition bandwidth :: "network_detection \<Rightarrow> u32" where
  "bandwidth s = (averageBandwidthBps s * 8) div 1000"

text \<open>\<open>sequence\<close> is an \<open>uint16_t\<close>, so \<open>++\<close> wraps from 65535 to 0.\<close>

partial_function (option) next_sequence_loop :: "(u16 \<rightharpoonup> ticks) \<Rightarrow> u16 \<Rightarrow> u16 option" where
  "next_sequence_loop requests sequence =
     (if sequence = 0 \<or> requests sequence \<noteq> None
      then next_sequence_loop requests (sequence + 1)
      else Some sequence)"

definition nextSequenceNumber :: "network_detection \<Rightarrow> (u16 \<times> network_detection) option" where
  "nextSequenceNumber s =
     (case next_sequence_loop (rttRequests s) (sequenceNumber s) of
        None \<Rightarrow> None
      | Some sequence \<Rightarrow> Some (sequence, s\<lparr>sequenceNumber := sequence + 1\<rparr>))"

definition startBandwidthMeasure :: "ticks \<Rightarrow> network_detection \<Rightarrow> network_detection" where
  "startBandwidthMeasure now s =
     (if phase s \<noteq> ND_None then s
      else nd_emit (BandwidthMeasureStart 0)
             (s\<lparr>phase := PendingStop, bandwidthMeasureStartTime := now\<rparr>))"

definition stopBandwidthMeasure :: "network_detection \<Rightarrow> network_detection" where
  "stopBandwidthMeasure s =
     (if phase s \<noteq> PendingStop then s
      else nd_emit (BandwidthMeasureStop 0 0) (s\<lparr>phase := PendingResults\<rparr>))"

definition remove_old_requests :: "ticks \<Rightarrow> (u16 \<rightharpoonup> ticks) \<Rightarrow> (u16 \<rightharpoonup> ticks)" where
  "remove_old_requests now requests =
     (\<lambda>k. case requests k of None \<Rightarrow> None
           | Some t \<Rightarrow> if now - t > rttRequestMaxAge then None else Some t)"

definition update_bandwidth_measure ::
  "ticks \<Rightarrow> ticks \<Rightarrow> network_detection \<Rightarrow> network_detection" where
  "update_bandwidth_measure now now_start s =
     (if phase s = PendingStop \<and> now - bandwidthMeasureStartTime s \<ge> bandwidthMeasureDuration
      then stopBandwidthMeasure s
      else if phase s = ND_None \<and> now - lastBandwidthMeasureStart s \<ge> bandwidthMeasureInterval
      then startBandwidthMeasure now_start (s\<lparr>lastBandwidthMeasureStart := now\<rparr>)
      else s)"

text \<open>\<open>now_start\<close> is the second clock reading, made inside \<open>startBandwidthMeasure\<close>.\<close>

definition nd_update ::
  "conn_state \<Rightarrow> ticks \<Rightarrow> ticks \<Rightarrow> network_detection \<Rightarrow> network_detection option" where
  "nd_update session_state now now_start s =
     (if session_state \<noteq> Streaming then Some s
      else
        let s1 = update_bandwidth_measure now now_start s
        in if now - lastRttUpdate s1 < rttUpdateInterval then Some s1
           else
             let s2 = s1\<lparr>lastRttUpdate := now,
                         rttRequests := remove_old_requests now (rttRequests s1)\<rparr>
             in case nextSequenceNumber s2 of
                  None \<Rightarrow> None
                | Some (sequence, s3) \<Rightarrow>
                    Some (nd_emit (RTTMeasureRequest sequence)
                      (s3\<lparr>rttRequests := (rttRequests s3)(sequence \<mapsto> now)\<rparr>)))"

definition duration_max :: ticks where
  "duration_max = 2 ^ 63 - 1"

text \<open>
  The loop that folds minimum and sum over the measurements, and the average. The sum is divided by
  \<open>size()\<close>, an unsigned 64-bit number, so the division is an unsigned one.
\<close>

definition rtt_min_sum :: "rtt_measurement list \<Rightarrow> ticks \<times> ticks" where
  "rtt_min_sum rtts = fold (\<lambda>m (mn, rtt_sum). (min mn (roundTripTime m), rtt_sum + roundTripTime m)) rtts
     (duration_max, 0)"

definition rtt_average :: "ticks \<Rightarrow> nat \<Rightarrow> ticks" where
  "rtt_average rtt_sum n = (rtt_sum mod 2 ^ 64) div int n"

definition updateAverageRtt :: "ticks \<Rightarrow> network_detection \<Rightarrow> network_detection option" where
  "updateAverageRtt now s =
     (let recent = filter (\<lambda>m. \<not> (now - measurementTime m > rttAverageInterval)) (rttMeasurements s);
          s1 = s\<lparr>rttMeasurements := recent\<rparr>
      in if recent = [] then Some s1
         else
           let (minimum, rtt_sum) = rtt_min_sum recent;
               average = rtt_average rtt_sum (length recent);
               s2 = nd_emit RttChanged
                      (s1\<lparr>minimumRttTicks := minimum, averageRttTicks := to_int64 average\<rparr>);
               bandwidthBps = averageBandwidthBps s2
           in if bandwidthBps = 0 then Some s2
              else if now - lastNetworkResult s2 < networkResultInterval then Some s2
              else case nextSequenceNumber (s2\<lparr>lastNetworkResult := now\<rparr>) of
                     None \<Rightarrow> None
                   | Some (sequence, s3) \<Rightarrow>
                       Some (nd_emit (NetworkCharacteristicsResult sequence
                               (minimum div 1000000) (average div 1000000) bandwidthBps) s3))"

text \<open>\<open>now\<close> stamps the measurement, \<open>now_avg\<close> is read again in \<open>updateAverageRtt\<close>.\<close>

definition onRttMeasureResponse ::
  "u16 \<Rightarrow> ticks \<Rightarrow> ticks \<Rightarrow> network_detection \<Rightarrow> network_detection option" where
  "onRttMeasureResponse sequence now now_avg s =
     (case rttRequests s sequence of
        None \<Rightarrow> Some s
      | Some sent \<Rightarrow>
          let s1 = s\<lparr>rttRequests := (rttRequests s)(sequence := None)\<rparr>;
              rtt = now - sent
          in if rtt \<le> 0 then Some s1
             else updateAverageRtt now_avg
                    (s1\<lparr>rttMeasurements := rttMeasurements s1 @
                        [\<lparr>measurementTime = now, roundTripTime = rtt\<rparr>]\<rparr>))"

definition smooth_bandwidth :: "u32 \<Rightarrow> network_detection \<Rightarrow> real" where
  "smooth_bandwidth bytesPerSecond s =
     (if \<not> hasSmoothedBandwidth s then of_int (uint bytesPerSecond)
      else fl (fl ((1 - bandwidthSmoothingWeight) * smoothedBandwidthBps s)
               + fl (bandwidthSmoothingWeight * of_int (uint bytesPerSecond))))"

definition onBandwidthMeasureResults ::
  "u32 \<Rightarrow> u32 \<Rightarrow> ticks \<Rightarrow> network_detection \<Rightarrow> network_detection option" where
  "onBandwidthMeasureResults timeDelta byteCount now s =
     (if phase s \<noteq> PendingResults then Some s
      else
        let s1 = s\<lparr>phase := ND_None\<rparr>
        in if timeDelta = 0 \<or> byteCount = 0 then Some s1
           else
             let bytesPerSecond = ucast ((ucast byteCount * 1000 :: u64) div ucast timeDelta) :: u32;
                 smoothed = smooth_bandwidth bytesPerSecond s1;
                 s2 = s1\<lparr>hasSmoothedBandwidth := True, smoothedBandwidthBps := smoothed,
                         averageBandwidthBps := word_of_int (trunc smoothed)\<rparr>
             in updateAverageRtt now (nd_emit BandwidthChanged s2))"

section \<open>The component as a machine\<close>

datatype nd_event =
    NdUpdate conn_state ticks ticks
  | NdRttResponse u16 ticks ticks
  | NdBandwidthResults u32 u32 ticks

fun nd_step :: "nd_event \<Rightarrow> network_detection \<Rightarrow> network_detection option" where
  "nd_step (NdUpdate cs now now_start) s = nd_update cs now now_start s"
| "nd_step (NdRttResponse sequence now now_avg) s = onRttMeasureResponse sequence now now_avg s"
| "nd_step (NdBandwidthResults delta bytes now) s = onBandwidthMeasureResults delta bytes now s"

section \<open>Sequence numbers\<close>

text \<open>
  The loop ends when some non-zero sequence number is free: the distance to it, modulo 65536,
  decreases.
\<close>

lemma next_sequence_loop_returns:
  assumes "free \<noteq> 0" and "requests free = None"
  shows "\<exists>seq. next_sequence_loop requests sequence = Some seq"
proof (induction "unat (free - sequence)" arbitrary: sequence rule: less_induct)
  case less
  show ?case
  proof (cases "sequence = 0 \<or> requests sequence \<noteq> None")
    case True
    with assms have "free - sequence \<noteq> 0" by auto
    then have "unat (free - sequence - 1) < unat (free - sequence)"
      by (simp add: measure_unat)
    then have "\<exists>seq. next_sequence_loop requests (sequence + 1) = Some seq"
      by (intro less) (simp add: diff_diff_add)
    with True show ?thesis by (subst next_sequence_loop.simps) simp
  next
    case False
    then show ?thesis by (subst next_sequence_loop.simps) simp
  qed
qed

lemma next_sequence_loop_fresh:
  assumes "next_sequence_loop requests sequence = Some seq"
  shows "seq \<noteq> 0 \<and> requests seq = None"
proof (rule next_sequence_loop.raw_induct
    [where P = "\<lambda>requests sequence seq. seq \<noteq> 0 \<and> requests seq = None", OF _ assms])
  fix f and requests :: "u16 \<rightharpoonup> ticks" and sequence seq
  assume "\<And>requests sequence seq. f requests sequence = Some seq \<Longrightarrow> seq \<noteq> 0 \<and> requests seq = None"
    and "(if sequence = 0 \<or> requests sequence \<noteq> None then f requests (sequence + 1)
          else Some sequence) = Some seq"
  then show "seq \<noteq> 0 \<and> requests seq = None" by (auto split: if_splits)
qed

lemma free_sequence_exists:
  assumes "card (dom (requests :: u16 \<rightharpoonup> ticks)) < 65535"
  shows "\<exists>free. free \<noteq> 0 \<and> requests free = None"
proof (rule ccontr)
  assume "\<nexists>free. free \<noteq> 0 \<and> requests free = None"
  then have "UNIV - {0} \<subseteq> dom requests" by auto
  then have "card (UNIV - {0 :: u16}) \<le> card (dom requests)" by (intro card_mono) auto
  moreover have "card (UNIV - {0 :: u16}) = 65535" by (simp add: card_word)
  ultimately show False using assms by simp
qed

lemma nextSequenceNumber_cases:
  assumes "card (dom (rttRequests s)) < 65535"
  obtains seq where "nextSequenceNumber s = Some (seq, s\<lparr>sequenceNumber := seq + 1\<rparr>)"
    and "seq \<noteq> 0" and "rttRequests s seq = None"
proof -
  obtain free where "free \<noteq> 0" "rttRequests s free = None"
    using free_sequence_exists [OF assms] by blast
  then obtain seq where "next_sequence_loop (rttRequests s) (sequenceNumber s) = Some seq"
    using next_sequence_loop_returns by blast
  then show ?thesis
    using that next_sequence_loop_fresh by (simp add: nextSequenceNumber_def)
qed

section \<open>The table of outstanding RTT requests\<close>

text \<open>
  Requests are at least one update interval apart and none is older, relative to the last update,
  than the maximal age; hence there are never more than 429 of them. Nothing is assumed of the
  clock, which may jump in both directions.
\<close>

definition requests_inv :: "network_detection \<Rightarrow> bool" where
  "requests_inv s \<longleftrightarrow>
     rttRequests s 0 = None \<and>
     (\<forall>k t. rttRequests s k = Some t \<longrightarrow> t \<le> lastRttUpdate s \<and> lastRttUpdate s - t \<le> rttRequestMaxAge) \<and>
     (\<forall>k l t u. rttRequests s k = Some t \<longrightarrow> rttRequests s l = Some u \<longrightarrow> k \<noteq> l \<longrightarrow>
        rttUpdateInterval \<le> \<bar>t - u\<bar>)"

lemma requests_inv_card:
  assumes "requests_inv s"
  shows "card (dom (rttRequests s)) \<le> 429"
proof -
  let ?slot = "\<lambda>k. (lastRttUpdate s - the (rttRequests s k)) div rttUpdateInterval"
  have "inj_on ?slot (dom (rttRequests s))"
  proof (rule inj_onI, rule ccontr)
    fix k l
    assume "k \<in> dom (rttRequests s)" "l \<in> dom (rttRequests s)" "k \<noteq> l" and slot: "?slot k = ?slot l"
    then obtain t u where tu: "rttRequests s k = Some t" "rttRequests s l = Some u" by auto
    with assms \<open>k \<noteq> l\<close> have "ms 70 \<le> \<bar>t - u\<bar>"
      by (auto simp: requests_inv_def rttUpdateInterval_def)
    with slot tu show False by (simp add: rttUpdateInterval_def)
  qed
  moreover have "?slot ` dom (rttRequests s) \<subseteq> {0..428}"
    using assms by (fastforce simp: requests_inv_def rttUpdateInterval_def rttRequestMaxAge_def)
  ultimately have "card (dom (rttRequests s)) \<le> card {0..428 :: int}"
    by (rule card_inj_on_le) simp
  then show ?thesis by simp
qed

lemma requests_inv_subset:
  assumes "requests_inv s" and "rttRequests s' \<subseteq>\<^sub>m rttRequests s" and "lastRttUpdate s' = lastRttUpdate s"
  shows "requests_inv s'"
proof -
  have sub: "rttRequests s k = Some t" if "rttRequests s' k = Some t" for k t
    using assms(2) that by (auto simp: map_le_def dom_def)
  moreover have "rttRequests s' 0 = None"
    using assms(1) sub by (cases "rttRequests s' 0") (auto simp: requests_inv_def)
  ultimately show ?thesis
    using assms(1,3) unfolding requests_inv_def by (metis (no_types, lifting))
qed

lemma requests_inv_cong:
  "requests_inv s \<Longrightarrow> rttRequests s' = rttRequests s \<Longrightarrow> lastRttUpdate s' = lastRttUpdate s \<Longrightarrow>
   requests_inv s'"
  by (simp add: requests_inv_def)

lemma requests_inv_insert:
  assumes inv: "requests_inv s" and now: "lastRttUpdate s + rttUpdateInterval \<le> now"
    and seq: "seq \<noteq> 0"
    and s': "lastRttUpdate s' = now" "rttRequests s' = (remove_old_requests now (rttRequests s))(seq \<mapsto> now)"
  shows "requests_inv s'"
proof -
  have old: "rttRequests s k = Some t \<and> now - t \<le> rttRequestMaxAge"
    if "remove_old_requests now (rttRequests s) k = Some t" for k t
    using that by (auto simp: remove_old_requests_def split: option.splits if_splits)
  have apart: "t + rttUpdateInterval \<le> now" if "rttRequests s k = Some t" for k t
    using inv now that by (fastforce simp: requests_inv_def)
  have bounds: "t \<le> now \<and> now - t \<le> rttRequestMaxAge" if "rttRequests s' k = Some t" for k t
    using that old [of k t] apart [of k t]
    by (auto simp: s' rttRequestMaxAge_def rttUpdateInterval_def split: if_splits)
  have "rttUpdateInterval \<le> \<bar>t - u\<bar>"
    if "rttRequests s' k = Some t" "rttRequests s' l = Some u" "k \<noteq> l" for k l t u
  proof (cases "k = seq \<or> l = seq")
    case True
    then show ?thesis
      using that old [of k t] old [of l u] apart [of k t] apart [of l u]
      by (auto simp: s' rttUpdateInterval_def split: if_splits)
  next
    case False
    then show ?thesis
      using that old [of k t] old [of l u] inv by (auto simp: s' requests_inv_def)
  qed
  moreover have "rttRequests s' 0 = None"
    using inv seq by (simp add: s' requests_inv_def remove_old_requests_def)
  ultimately show ?thesis
    using bounds unfolding requests_inv_def s'(1) by blast
qed

section \<open>The invariant\<close>

fun is_bandwidth_call :: "nd_out \<Rightarrow> bool" where
  "is_bandwidth_call (BandwidthMeasureStart _) = True"
| "is_bandwidth_call (BandwidthMeasureStop _ _) = True"
| "is_bandwidth_call _ = False"

definition bandwidth_protocol :: "network_detection \<Rightarrow> bool" where
  "bandwidth_protocol s \<longleftrightarrow>
     phase s \<noteq> QueuedStop \<and>
     (\<exists>n. filter is_bandwidth_call (nd_log s) =
            concat (replicate n [BandwidthMeasureStart 0, BandwidthMeasureStop 0 0]) @
            (if phase s = PendingStop then [BandwidthMeasureStart 0] else []))"

definition measurements_inv :: "network_detection \<Rightarrow> bool" where
  "measurements_inv s \<longleftrightarrow> list_all (\<lambda>m. 0 < roundTripTime m) (rttMeasurements s)"

definition bandwidth_inv :: "network_detection \<Rightarrow> bool" where
  "bandwidth_inv s \<longleftrightarrow>
     0 \<le> smoothedBandwidthBps s \<and> smoothedBandwidthBps s \<le> 4294967295 \<and>
     uint (averageBandwidthBps s) = trunc (smoothedBandwidthBps s)"

definition nd_inv :: "network_detection \<Rightarrow> bool" where
  "nd_inv s \<longleftrightarrow> requests_inv s \<and> bandwidth_protocol s \<and> measurements_inv s \<and> bandwidth_inv s"

lemma nd_invD:
  "nd_inv s \<Longrightarrow> requests_inv s" "nd_inv s \<Longrightarrow> bandwidth_protocol s"
  "nd_inv s \<Longrightarrow> measurements_inv s" "nd_inv s \<Longrightarrow> bandwidth_inv s"
  by (simp_all add: nd_inv_def)

lemma nd_inv_frame:
  assumes "nd_inv s" and "requests_inv s'" and "phase s' = phase s"
    and "filter is_bandwidth_call (nd_log s') = filter is_bandwidth_call (nd_log s)"
    and "set (rttMeasurements s') \<subseteq> set (rttMeasurements s)"
    and "smoothedBandwidthBps s' = smoothedBandwidthBps s"
    and "averageBandwidthBps s' = averageBandwidthBps s"
  shows "nd_inv s'"
  using assms
  by (auto simp: nd_inv_def bandwidth_protocol_def measurements_inv_def bandwidth_inv_def list_all_iff)

text \<open>What \<open>updateAverageRtt\<close> leaves alone.\<close>

definition rtt_frame :: "network_detection \<Rightarrow> network_detection \<Rightarrow> bool" where
  "rtt_frame s s' \<longleftrightarrow>
     phase s' = phase s \<and> rttRequests s' = rttRequests s \<and> lastRttUpdate s' = lastRttUpdate s \<and>
     smoothedBandwidthBps s' = smoothedBandwidthBps s \<and> averageBandwidthBps s' = averageBandwidthBps s \<and>
     set (rttMeasurements s') \<subseteq> set (rttMeasurements s) \<and>
     filter is_bandwidth_call (nd_log s') = filter is_bandwidth_call (nd_log s)"

lemma rtt_frame_inv: "rtt_frame s s' \<Longrightarrow> nd_inv s \<Longrightarrow> nd_inv s'"
  using nd_inv_frame [of s s'] requests_inv_cong [of s s'] nd_invD(1) [of s] by (simp add: rtt_frame_def)

lemma updateAverageRtt_returns:
  assumes "requests_inv s"
  obtains s' where "updateAverageRtt now s = Some s'" and "rtt_frame s s'"
proof -
  define recent where "recent = filter (\<lambda>m. \<not> (now - measurementTime m > rttAverageInterval)) (rttMeasurements s)"
  obtain mn sm where ms: "rtt_min_sum recent = (mn, sm)" by (cases "rtt_min_sum recent")
  define s2 where "s2 = nd_emit RttChanged
    (s\<lparr>rttMeasurements := recent, minimumRttTicks := mn, averageRttTicks := to_int64 (rtt_average sm (length recent))\<rparr>)"
  have "card (dom (rttRequests (s2\<lparr>lastNetworkResult := now\<rparr>))) < 65535"
    using requests_inv_card [OF assms] by (simp add: s2_def nd_emit_def)
  then obtain seq where seq: "nextSequenceNumber (s2\<lparr>lastNetworkResult := now\<rparr>) =
      Some (seq, s2\<lparr>lastNetworkResult := now, sequenceNumber := seq + 1\<rparr>)"
    by (rule nextSequenceNumber_cases) simp
  show ?thesis
  proof (cases "recent = []")
    case True
    then show ?thesis
      by (intro that) (auto simp: updateAverageRtt_def Let_def rtt_frame_def simp flip: recent_def)
  next
    case False
    have eq: "updateAverageRtt now s = Some
      (if averageBandwidthBps s2 = 0 \<or> now - lastNetworkResult s2 < networkResultInterval then s2
       else nd_emit (NetworkCharacteristicsResult seq (mn div 1000000)
              (rtt_average sm (length recent) div 1000000) (averageBandwidthBps s2))
              (s2\<lparr>lastNetworkResult := now, sequenceNumber := seq + 1\<rparr>))"
      using False ms seq
      by (simp add: updateAverageRtt_def Let_def nd_emit_def s2_def flip: recent_def)
    have "rtt_frame s s2" by (auto simp: s2_def rtt_frame_def nd_emit_def recent_def)
    then show ?thesis
      by (intro that [OF eq]) (auto simp: rtt_frame_def nd_emit_def)
  qed
qed

lemma updateAverageRtt_inv: "nd_inv s \<Longrightarrow> returns_with nd_inv (updateAverageRtt now s)"
  by (rule updateAverageRtt_returns [OF nd_invD(1), of s now]) (auto intro: rtt_frame_inv)

lemma update_bandwidth_measure_frame:
  "rttRequests (update_bandwidth_measure now now' s) = rttRequests s"
  "lastRttUpdate (update_bandwidth_measure now now' s) = lastRttUpdate s"
  by (auto simp: update_bandwidth_measure_def startBandwidthMeasure_def stopBandwidthMeasure_def nd_emit_def)

lemma replicate_append_pair: "\<exists>m. concat (replicate n [a, b]) @ [a, b] = concat (replicate m [a, b])"
proof
  show "concat (replicate n [a, b]) @ [a, b] = concat (replicate (Suc n) [a, b])"
    by (induction n) auto
qed

lemma update_bandwidth_measure_inv:
  assumes "nd_inv s"
  shows "nd_inv (update_bandwidth_measure now now' s)"
proof -
  have "bandwidth_protocol (update_bandwidth_measure now now' s)"
    using nd_invD(2) [OF assms]
    by (auto simp: bandwidth_protocol_def update_bandwidth_measure_def startBandwidthMeasure_def
        stopBandwidthMeasure_def nd_emit_def replicate_append_pair)
  then show ?thesis
    using assms update_bandwidth_measure_frame [of now now' s]
    by (auto simp: nd_inv_def requests_inv_def measurements_inv_def bandwidth_inv_def
        update_bandwidth_measure_def startBandwidthMeasure_def stopBandwidthMeasure_def nd_emit_def)
qed

lemma nd_update_inv:
  assumes "nd_inv s"
  shows "returns_with nd_inv (nd_update cs now now' s)"
proof (cases "cs \<noteq> Streaming \<or>
    now - lastRttUpdate (update_bandwidth_measure now now' s) < rttUpdateInterval")
  case True
  then show ?thesis
    using assms update_bandwidth_measure_inv [OF assms] by (auto simp: nd_update_def Let_def)
next
  case False
  define s1 where "s1 = update_bandwidth_measure now now' s"
  define s2 where "s2 = s1\<lparr>lastRttUpdate := now, rttRequests := remove_old_requests now (rttRequests s1)\<rparr>"
  have s1: "nd_inv s1" unfolding s1_def by (rule update_bandwidth_measure_inv [OF assms])
  have "dom (rttRequests s2) \<subseteq> dom (rttRequests s1)"
    by (auto simp: s2_def remove_old_requests_def split: option.splits)
  then have "card (dom (rttRequests s2)) \<le> 429"
    using requests_inv_card [OF nd_invD(1) [OF s1]] by (meson card_mono finite le_trans)
  then have few: "card (dom (rttRequests s2)) < 65535" by simp
  obtain seq where seq: "nextSequenceNumber s2 = Some (seq, s2\<lparr>sequenceNumber := seq + 1\<rparr>)" "seq \<noteq> 0"
    by (rule nextSequenceNumber_cases [OF few])
  define s3 where "s3 = nd_emit (RTTMeasureRequest seq)
    (s2\<lparr>sequenceNumber := seq + 1, rttRequests := (rttRequests s2)(seq \<mapsto> now)\<rparr>)"
  have due: "lastRttUpdate s1 + rttUpdateInterval \<le> now" using False by (simp add: s1_def)
  have "requests_inv s3"
    by (rule requests_inv_insert [OF nd_invD(1) [OF s1] due seq(2)])
      (simp_all add: s2_def s3_def nd_emit_def)
  then have "nd_inv s3"
    by (rule nd_inv_frame [OF s1]) (simp_all add: s2_def s3_def nd_emit_def)
  then show ?thesis
    using False seq(1) by (simp add: nd_update_def Let_def s3_def flip: s1_def s2_def)
qed

lemma onRttMeasureResponse_inv:
  assumes "nd_inv s"
  shows "returns_with nd_inv (onRttMeasureResponse seq now now' s)"
proof (cases "rttRequests s seq")
  case None
  then show ?thesis using assms by (simp add: onRttMeasureResponse_def)
next
  case (Some sent)
  define s1 where "s1 = s\<lparr>rttRequests := (rttRequests s)(seq := None)\<rparr>"
  have "requests_inv s1"
    by (rule requests_inv_subset [OF nd_invD(1) [OF assms]]) (auto simp: s1_def map_le_def)
  then have s1: "nd_inv s1"
    by (rule nd_inv_frame [OF assms]) (simp_all add: s1_def)
  then have "nd_inv (s1\<lparr>rttMeasurements := rttMeasurements s1 @ [m]\<rparr>)" if "0 < roundTripTime m" for m
    using that by (auto simp: nd_inv_def requests_inv_def bandwidth_protocol_def measurements_inv_def
        bandwidth_inv_def)
  then show ?thesis
    using Some s1 by (auto simp: onRttMeasureResponse_def Let_def s1_def intro!: updateAverageRtt_inv)
qed

lemma smooth_bandwidth_bounds:
  assumes "0 \<le> smoothedBandwidthBps s" and "smoothedBandwidthBps s \<le> 4294967295"
  shows "0 \<le> smooth_bandwidth bps s" and "smooth_bandwidth bps s \<le> 4294967295"
proof -
  have half: "fl (1 / 2 * 4294967295) = 1 / 2 * 4294967295"
    using fl_dyadic [of 4294967295 1] by simp
  have "uint bps \<le> 4294967295" using uint_lt2p [of bps] by simp
  then have "of_int (uint bps) \<le> (of_int 4294967295 :: real)" by (simp only: of_int_le_iff)
  then have new: "0 \<le> (of_int (uint bps) :: real)" "of_int (uint bps) \<le> (4294967295 :: real)"
    by (simp_all only: of_int_0_le_iff uint_ge_0 of_int_numeral)
  show "0 \<le> smooth_bandwidth bps s" and "smooth_bandwidth bps s \<le> 4294967295"
    using fl.ewma_between [of "1/2" "1/2" 0 4294967295 "smoothedBandwidthBps s" "of_int (uint bps)"]
      half assms new
    by (auto simp: smooth_bandwidth_def bandwidthSmoothingWeight_def)
qed

lemma onBandwidthMeasureResults_inv:
  assumes "nd_inv s"
  shows "returns_with nd_inv (onBandwidthMeasureResults delta bytes now s)"
proof (cases "phase s = PendingResults")
  case False
  then show ?thesis using assms by (simp add: onBandwidthMeasureResults_def)
next
  case True
  have bounds: "0 \<le> smooth_bandwidth b (s\<lparr>phase := ND_None\<rparr>) \<and> smooth_bandwidth b (s\<lparr>phase := ND_None\<rparr>) \<le> of_int 4294967295" for b
    using smooth_bandwidth_bounds [of "s\<lparr>phase := ND_None\<rparr>" b] nd_invD(4) [OF assms]
    by (simp add: bandwidth_inv_def)
  have trunc_ok: "uint (word_of_int (trunc (smooth_bandwidth b (s\<lparr>phase := ND_None\<rparr>))) :: u32) =
      trunc (smooth_bandwidth b (s\<lparr>phase := ND_None\<rparr>))" for b
    using trunc_bounds [of "smooth_bandwidth b (s\<lparr>phase := ND_None\<rparr>)" 4294967295] bounds [of b]
    by (simp add: uint_word_of_int_eq take_bit_int_eq_self)
  have "nd_inv (s\<lparr>phase := ND_None\<rparr>)"
    using True assms by (auto simp: nd_inv_def requests_inv_def bandwidth_protocol_def measurements_inv_def
        bandwidth_inv_def)
  moreover have "nd_inv (nd_emit BandwidthChanged (s\<lparr>phase := ND_None, hasSmoothedBandwidth := True,
      smoothedBandwidthBps := smooth_bandwidth b (s\<lparr>phase := ND_None\<rparr>),
      averageBandwidthBps := word_of_int (trunc (smooth_bandwidth b (s\<lparr>phase := ND_None\<rparr>)))\<rparr>))" for b
    using True assms bounds [of b] trunc_ok [of b]
    by (auto simp: nd_inv_def requests_inv_def bandwidth_protocol_def measurements_inv_def bandwidth_inv_def
        nd_emit_def)
  ultimately show ?thesis
    using True by (auto simp: onBandwidthMeasureResults_def Let_def intro!: updateAverageRtt_inv)
qed

lemma nd_init_inv: "nd_inv nd_init"
  by (auto simp: nd_inv_def nd_init_def requests_inv_def bandwidth_protocol_def measurements_inv_def
      bandwidth_inv_def trunc_def intro: exI [of _ 0])

interpretation nd: machine "lift_step nd_step" "Some nd_init" "\<lambda>_. True" "returns_with nd_inv"
proof unfold_locales
  show "returns_with nd_inv (Some nd_init)" by (simp add: nd_init_inv)
next
  fix o' e assume "returns_with nd_inv o'"
  then obtain s where "o' = Some s" "nd_inv s" by (auto simp: returns_with_iff)
  then show "returns_with nd_inv (lift_step nd_step e o')"
    by (cases e) (auto intro: nd_update_inv onRttMeasureResponse_inv onBandwidthMeasureResults_inv)
qed

section \<open>Statistics\<close>

lemma rtt_min_sum_fold:
  "fold (\<lambda>m (mn, rtt_sum). (min mn (roundTripTime m), rtt_sum + roundTripTime m)) rtts (mn, rtt_sum) =
   (fold min (map roundTripTime rtts) mn, rtt_sum + sum_list (map roundTripTime rtts))"
  by (induction rtts arbitrary: mn rtt_sum) (auto simp: min.commute)

lemma fold_min_Min: "fold min xs a = Min (insert a (set xs))" for a :: "'a::linorder"
proof -
  have "fold min xs a = fold min (a # xs) a" by simp
  also have "\<dots> = Min (set (a # xs))" using Min.set_eq_fold [of a xs] by simp
  finally show ?thesis by simp
qed

lemma average_between:
  assumes "xs \<noteq> []" and "\<forall>x \<in> set xs. a \<le> x \<and> x \<le> (b :: int)"
  shows "a \<le> sum_list xs div int (length xs)" and "sum_list xs div int (length xs) \<le> b"
proof -
  have len: "0 < int (length xs)" using assms(1) by simp
  have "a * int (length xs) \<le> sum_list xs \<and> sum_list xs \<le> b * int (length xs)"
    using assms(2) by (induction xs) (auto simp: algebra_simps)
  then have lo: "a * int (length xs) \<le> sum_list xs" and hi: "sum_list xs \<le> b * int (length xs)"
    by simp_all
  show "a \<le> sum_list xs div int (length xs)"
    using zdiv_mono1 [OF lo len] len by simp
  show "sum_list xs div int (length xs) \<le> b"
    using zdiv_mono1 [OF hi len] len by simp
qed

definition recent_rtts :: "ticks \<Rightarrow> network_detection \<Rightarrow> ticks list" where
  "recent_rtts now s = map roundTripTime
     (filter (\<lambda>m. now - measurementTime m \<le> rttAverageInterval) (rttMeasurements s))"

lemma updateAverageRtt_published:
  assumes "updateAverageRtt now s = Some s'" and "recent_rtts now s \<noteq> []"
  shows "minimumRttTicks s' = fold min (recent_rtts now s) duration_max"
    and "averageRttTicks s' =
         to_int64 (rtt_average (sum_list (recent_rtts now s)) (length (recent_rtts now s)))"
  using assms
  by (auto simp: updateAverageRtt_def Let_def recent_rtts_def rtt_min_sum_def rtt_min_sum_fold
      nextSequenceNumber_def nd_emit_def not_less split: if_splits option.splits)

section \<open>Properties\<close>


text \<open>
C19. The bandwidth measurement protocol towards the client: in every run the start and stop requests
sent strictly alternate, beginning with a start, a measurement is open exactly in the phase
\<open>PendingStop\<close>, and the phase \<open>QueuedStop\<close> of the enumeration is never entered.
\<close>

theorem bandwidth_measurements_alternate:
  "\<exists>s n. fold (lift_step nd_step) es (Some nd_init) = Some s \<and> phase s \<noteq> QueuedStop \<and>
         filter is_bandwidth_call (nd_log s) =
           concat (replicate n [BandwidthMeasureStart 0, BandwidthMeasureStop 0 0]) @
           (if phase s = PendingStop then [BandwidthMeasureStart 0] else [])"
proof -
  obtain s where "fold (lift_step nd_step) es (Some nd_init) = Some s" "nd_inv s"
    using nd.inv_reach [of es] by (auto simp: returns_with_iff list_all_iff)
  then show ?thesis using nd_invD(2) [of s] unfolding bandwidth_protocol_def by blast
qed

text \<open>
One \<open>update\<close> while streaming moves the measurement phase exactly as follows: an open
measurement is stopped once it has run for 500 ms, a new one is started two seconds after the last
start when none is open, and a measurement whose results are outstanding stays outstanding (no new
one is started until the client answers).
\<close>

theorem nd_update_phase:
  "nd_update Streaming now now_start s = Some s' \<Longrightarrow>
   phase s' =
     (if phase s = PendingStop \<and> now - bandwidthMeasureStartTime s \<ge> ms 500 then PendingResults
      else if phase s = ND_None \<and> now - lastBandwidthMeasureStart s \<ge> sec 2 then PendingStop
      else phase s)"
  by (auto simp: nd_update_def Let_def update_bandwidth_measure_def startBandwidthMeasure_def
      stopBandwidthMeasure_def nextSequenceNumber_def nd_emit_def nd_defs
      split: option.splits if_splits)

theorem nd_update_phase_witness:
  "phase (the (nd_update Streaming (sec 3) (sec 3) nd_init)) = PendingStop"
proof -
  have "nd_update Streaming (sec 3) (sec 3) nd_init = Some (the (nd_update Streaming (sec 3) (sec 3) nd_init))"
    by (simp add: nd_update_def Let_def update_bandwidth_measure_def startBandwidthMeasure_def
        nextSequenceNumber_def next_sequence_loop.simps nd_emit_def nd_defs nd_init_def
        remove_old_requests_def)
  from nd_update_phase [OF this] show ?thesis by (simp add: nd_init_def)
qed

text \<open>
The published statistics are those of the measurements of the last 500 ms: when they are
positive and their sum fits the 64-bit counter, the minimum is their minimum, the average is the
truncated mean, and minimum \<open>\<le>\<close> average \<open>\<le>\<close> maximum.
\<close>

theorem published_rtt_statistics:
  assumes "updateAverageRtt now s = Some s'" and "recent_rtts now s \<noteq> []"
    and "\<forall>r \<in> set (recent_rtts now s). 0 < r" and "sum_list (recent_rtts now s) < 2 ^ 63"
  shows "minimumRTT s' = Min (set (recent_rtts now s)) \<and>
         averageRTT s' = sum_list (recent_rtts now s) div int (length (recent_rtts now s)) \<and>
         minimumRTT s' \<le> averageRTT s' \<and> averageRTT s' \<le> Max (set (recent_rtts now s))"
proof -
  let ?xs = "recent_rtts now s"
  have sum: "0 \<le> sum_list ?xs" using assms(3) by (intro sum_list_nonneg) auto
  have "x \<le> duration_max" if "x \<in> set ?xs" for x
    using member_le_sum_list [OF that] assms(3,4) by (force simp: duration_max_def)
  moreover have ne: "set ?xs \<noteq> {}" using assms(2) by simp
  ultimately have mn: "minimumRTT s' = Min (set ?xs)"
    using updateAverageRtt_published(1) [OF assms(1,2)] Min_in [OF finite_set ne]
    by (simp add: minimumRTT_def fold_min_Min)
  have "\<forall>x \<in> set ?xs. Min (set ?xs) \<le> x \<and> x \<le> Max (set ?xs)" by simp
  note between = average_between [OF assms(2) this]
  have "sum_list ?xs div int (length ?xs) \<le> sum_list ?xs"
    using sum assms(2) zdiv_mono2 [of "sum_list ?xs" 1 "int (length ?xs)"]
    by (simp add: Suc_le_eq)
  moreover have "0 \<le> sum_list ?xs div int (length ?xs)"
    using sum assms(2) by (simp add: pos_imp_zdiv_nonneg_iff)
  ultimately have "to_int64 (sum_list ?xs div int (length ?xs)) = sum_list ?xs div int (length ?xs)"
    using assms(4) by (intro to_int64_small) linarith+
  with sum assms(4) have avg: "averageRTT s' = sum_list ?xs div int (length ?xs)"
    using updateAverageRtt_published(2) [OF assms(1,2)] by (simp add: averageRTT_def rtt_average_def)
  show ?thesis using between mn avg by simp
qed

definition nd_sample :: network_detection where
  "nd_sample = nd_init\<lparr>rttMeasurements :=
     [\<lparr>measurementTime = sec 10, roundTripTime = ms 30\<rparr>, \<lparr>measurementTime = sec 10, roundTripTime = ms 50\<rparr>]\<rparr>"

theorem published_rtt_statistics_witness:
  "averageRTT (the (updateAverageRtt (sec 10) nd_sample)) = ms 40"
proof -
  have upd: "updateAverageRtt (sec 10) nd_sample = Some (the (updateAverageRtt (sec 10) nd_sample))"
    by (simp add: updateAverageRtt_def Let_def nd_sample_def nd_init_def rttAverageInterval_def
        rtt_min_sum_def nd_emit_def)
  have rtts: "recent_rtts (sec 10) nd_sample = [ms 30, ms 50]"
    by (simp add: recent_rtts_def nd_sample_def rttAverageInterval_def)
  show ?thesis
    using published_rtt_statistics [OF upd, unfolded rtts] by simp
qed

text \<open>
  What \<open>bandwidth()\<close> reports in kbit/s: the product with 8 is taken modulo 2^32, so the
  value is exact below 2^29 bytes/s and wraps from there on; at exactly 2^29 bytes/s (4.3 Gbit/s) it
  reports 0, which the adaptive quality reads as "no measurement".
\<close>

lemma uint_bandwidth: "uint (bandwidth s) = uint (averageBandwidthBps s) * 8 mod 2 ^ 32 div 1000"
  by (simp add: bandwidth_def uint_div uint_word_ariths)

lemma bandwidth_wraps_to_zero: "averageBandwidthBps s = 2 ^ 29 \<Longrightarrow> bandwidth s = 0"
  by (simp add: bandwidth_def)

text \<open>
The bandwidth estimate never overflows its 32-bit counter: in every reachable state the smoothed
rate, with its two rounded products and rounded sum, lies between 0 and 2^32 - 1, so that the cast
to \<open>uint32_t\<close> is defined and yields its integer part. What \<open>bandwidth()\<close> makes of it in
kbit/s is not free of overflow: the product with 8 is taken modulo 2^32.
\<close>

theorem smoothed_bandwidth_in_range:
  "\<exists>s. fold (lift_step nd_step) es (Some nd_init) = Some s \<and>
       0 \<le> smoothedBandwidthBps s \<and> smoothedBandwidthBps s \<le> 2 ^ 32 - 1 \<and>
       uint (averageBandwidthBps s) = trunc (smoothedBandwidthBps s) \<and>
       uint (bandwidth s) = trunc (smoothedBandwidthBps s) * 8 mod 2 ^ 32 div 1000"
  using nd.inv_reach [of es]
  by (auto simp: returns_with_iff list_all_iff nd_inv_def bandwidth_inv_def uint_bandwidth)

end
