(* ===== verification/InputHandler.thy ===== *)
theory InputHandler
  imports Prelude Doubles
begin

unbundle bit_operations_syntax

text \<open>
  \<open>src/InputHandler.cpp\<close>: the fast-path input PDUs of the client become Qt input events. The
  FreeRDP callbacks block until the handler has run on its own thread, so each PDU is one atomic
  step. The key tables of WinPR and the keysym table of xkbcommon are arguments. Emitted events are
  appended to \<open>in_log\<close>.
\<close>

section \<open>Constants of the input PDUs\<close>

definition PTR_FLAGS_HWHEEL :: u16 where "PTR_FLAGS_HWHEEL = 0x0400"
definition PTR_FLAGS_WHEEL :: u16 where "PTR_FLAGS_WHEEL = 0x0200"
definition PTR_FLAGS_WHEEL_NEGATIVE :: u16 where "PTR_FLAGS_WHEEL_NEGATIVE = 0x0100"
definition WheelRotationMask :: u16 where "WheelRotationMask = 0x01FF"
definition PTR_FLAGS_MOVE :: u16 where "PTR_FLAGS_MOVE = 0x0800"
definition PTR_FLAGS_DOWN :: u16 where "PTR_FLAGS_DOWN = 0x8000"
definition PTR_FLAGS_BUTTON1 :: u16 where "PTR_FLAGS_BUTTON1 = 0x1000"
definition PTR_FLAGS_BUTTON2 :: u16 where "PTR_FLAGS_BUTTON2 = 0x2000"
definition PTR_FLAGS_BUTTON3 :: u16 where "PTR_FLAGS_BUTTON3 = 0x4000"
definition PTR_XFLAGS_DOWN :: u16 where "PTR_XFLAGS_DOWN = 0x8000"
definition PTR_XFLAGS_BUTTON1 :: u16 where "PTR_XFLAGS_BUTTON1 = 0x0001"
definition PTR_XFLAGS_BUTTON2 :: u16 where "PTR_XFLAGS_BUTTON2 = 0x0002"
definition KBD_FLAGS_EXTENDED :: u16 where "KBD_FLAGS_EXTENDED = 0x0100"
definition KBD_FLAGS_RELEASE :: u16 where "KBD_FLAGS_RELEASE = 0x8000"
definition KBDEXT :: u32 where "KBDEXT = 0x0100"

lemmas input_flags = PTR_FLAGS_HWHEEL_def PTR_FLAGS_WHEEL_def PTR_FLAGS_WHEEL_NEGATIVE_def
  WheelRotationMask_def PTR_FLAGS_MOVE_def PTR_FLAGS_DOWN_def PTR_FLAGS_BUTTON1_def
  PTR_FLAGS_BUTTON2_def PTR_FLAGS_BUTTON3_def PTR_XFLAGS_DOWN_def PTR_XFLAGS_BUTTON1_def
  PTR_XFLAGS_BUTTON2_def KBD_FLAGS_EXTENDED_def KBD_FLAGS_RELEASE_def KBDEXT_def

definition has_flag :: "u16 \<Rightarrow> u16 \<Rightarrow> bool" where
  "has_flag flags f \<longleftrightarrow> flags AND f \<noteq> 0"

section \<open>State and events\<close>

datatype mouse_button = NoButton | LeftButton | RightButton | MiddleButton | BackButton | ForwardButton

datatype key_type = KeyPress | KeyRelease

datatype mouse_type = MouseButtonPress | MouseMove | MouseButtonRelease

text \<open>The Qt event, with the fields the handler fills in.\<close>

datatype input_event =
    QKeyEvent (key_kind: key_type) (nativeScanCode: u32) (nativeVirtualKey: u32)
  | QMouseEvent mouse_type qpoint mouse_button
  | QWheelEvent (wheel_position: qpoint) (pixelDelta: qpoint) (angleDelta: qpoint)

record input_handler =
  lastMousePosition :: qpoint
  pressedKeys :: "u32 list"
  in_log :: "input_event list"

definition input_init :: input_handler where
  "input_init = \<lparr>lastMousePosition = (0, 0), pressedKeys = [], in_log = []\<rparr>"

definition in_emit :: "input_event list \<Rightarrow> input_handler \<Rightarrow> input_handler" where
  "in_emit xs s = s\<lparr>in_log := in_log s @ xs\<rparr>"

section \<open>Operations\<close>

text \<open>\<open>pressedKeys\<close> is walked in the order of the \<open>QSet\<close>, any order.\<close>

definition synchronizeEvent :: "(u32 list \<Rightarrow> u32 list) \<Rightarrow> u32 \<Rightarrow> input_handler \<Rightarrow> bool \<times> input_handler" where
  "synchronizeEvent order flags s =
     (let stuck = pressedKeys s;
          s1 = s\<lparr>pressedKeys := []\<rparr>
      in (True, in_emit (map (\<lambda>keycode. QKeyEvent KeyRelease keycode 0) (order stuck)) s1))"

definition mouse_button_of :: "u16 \<Rightarrow> mouse_button" where
  "mouse_button_of flags =
     (if has_flag flags PTR_FLAGS_BUTTON1 then LeftButton
      else if has_flag flags PTR_FLAGS_BUTTON2 then RightButton
      else if has_flag flags PTR_FLAGS_BUTTON3 then MiddleButton
      else NoButton)"

definition wheel_axis :: "u16 \<Rightarrow> int" where
  "wheel_axis flags =
     (let axis = uint flags AND uint WheelRotationMask;
          axis1 = (if axis AND uint PTR_FLAGS_WHEEL_NEGATIVE \<noteq> 0
                   then (NOT axis AND uint WheelRotationMask) + 1 else axis)
      in axis1 * (if has_flag flags PTR_FLAGS_WHEEL_NEGATIVE then 1 else -1))"

definition wheel_events :: "qpoint \<Rightarrow> u16 \<Rightarrow> input_event list" where
  "wheel_events position flags =
     (let axis = wheel_axis flags;
          degrees = fl (real_of_int axis / 8)
      in (if has_flag flags PTR_FLAGS_WHEEL
          then [QWheelEvent position (0, lround degrees) (0, axis)] else []) @
         (if has_flag flags PTR_FLAGS_HWHEEL
          then [QWheelEvent position (lround (- degrees), 0) (- axis, 0)] else []))"

definition mouseEvent :: "u16 \<Rightarrow> u16 \<Rightarrow> u16 \<Rightarrow> input_handler \<Rightarrow> bool \<times> input_handler" where
  "mouseEvent x y flags s =
     (let position = (uint x, uint y);
          s1 = (if has_flag flags PTR_FLAGS_MOVE then s\<lparr>lastMousePosition := position\<rparr> else s);
          button = mouse_button_of flags
      in if has_flag flags PTR_FLAGS_WHEEL \<or> has_flag flags PTR_FLAGS_HWHEEL
         then
           let position1 = (if position = (0, 0) \<and> lastMousePosition s1 \<noteq> (0, 0)
                            then lastMousePosition s1 else position)
           in (True, in_emit (wheel_events position1 flags) s1)
         else
           let event = (if has_flag flags PTR_FLAGS_DOWN then QMouseEvent MouseButtonPress position button
                        else if has_flag flags PTR_FLAGS_MOVE then QMouseEvent MouseMove position button
                        else QMouseEvent MouseButtonRelease position button)
           in (True, in_emit [event] s1))"

definition extendedMouseEvent :: "u16 \<Rightarrow> u16 \<Rightarrow> u16 \<Rightarrow> input_handler \<Rightarrow> bool \<times> input_handler" where
  "extendedMouseEvent x y flags s =
     (if has_flag flags PTR_FLAGS_MOVE then mouseEvent x y PTR_FLAGS_MOVE s
      else if \<not> has_flag flags PTR_XFLAGS_BUTTON1 \<and> \<not> has_flag flags PTR_XFLAGS_BUTTON2 then (False, s)
      else
        let button = (if has_flag flags PTR_XFLAGS_BUTTON1 then BackButton else ForwardButton);
            event = (if has_flag flags PTR_XFLAGS_DOWN
                     then QMouseEvent MouseButtonPress (uint x, uint y) button
                     else QMouseEvent MouseButtonRelease (uint x, uint y) button)
        in (True, in_emit [event] s))"

text \<open>
  \<open>GetVirtualKeyCodeFromVirtualScanCode(_, 4)\<close> and \<open>GetKeycodeFromVirtualKeyCode(_, EVDEV)\<close>
  of WinPR are \<open>vk_of_scan\<close> and \<open>keycode_of_vk\<close>.
\<close>

definition evdev_keycode :: "(u32 \<Rightarrow> u32) \<Rightarrow> (u32 \<Rightarrow> u32) \<Rightarrow> u16 \<Rightarrow> u16 \<Rightarrow> u32" where
  "evdev_keycode vk_of_scan keycode_of_vk code flags =
     (let vk = vk_of_scan (if has_flag flags KBD_FLAGS_EXTENDED then ucast code OR KBDEXT else ucast code);
          vk1 = (if has_flag flags KBD_FLAGS_EXTENDED then vk OR KBDEXT else vk)
      in keycode_of_vk vk1)"

definition key_type_of :: "u16 \<Rightarrow> key_type" where
  "key_type_of flags = (if has_flag flags KBD_FLAGS_RELEASE then KeyRelease else KeyPress)"

definition keyboardEvent ::
  "(u32 \<Rightarrow> u32) \<Rightarrow> (u32 \<Rightarrow> u32) \<Rightarrow> u16 \<Rightarrow> u16 \<Rightarrow> input_handler \<Rightarrow> bool \<times> input_handler" where
  "keyboardEvent vk_of_scan keycode_of_vk code flags s =
     (let keycode = evdev_keycode vk_of_scan keycode_of_vk code flags;
          type = key_type_of flags;
          s1 = (if type = KeyRelease then s\<lparr>pressedKeys := removeAll keycode (pressedKeys s)\<rparr>
                else s\<lparr>pressedKeys := List.insert keycode (pressedKeys s)\<rparr>)
      in (True, in_emit [QKeyEvent type keycode 0] s1))"

text \<open>
  \<open>QString(QChar).toUcs4().first()\<close>: a lone surrogate becomes U+FFFD. \<open>xkb_utf32_to_keysym\<close>
  is \<open>keysym_of\<close>.
\<close>

definition ucs4_first :: "u16 \<Rightarrow> u32" where
  "ucs4_first code = (if 0xD800 \<le> code \<and> code \<le> 0xDFFF then 0xFFFD else ucast code)"

definition unicodeKeyboardEvent :: "(u32 \<Rightarrow> u32) \<Rightarrow> u16 \<Rightarrow> u16 \<Rightarrow> input_handler \<Rightarrow> bool \<times> input_handler" where
  "unicodeKeyboardEvent keysym_of code flags s =
     (let keysym = keysym_of (ucs4_first code)
      in if keysym = 0 then (True, s)
         else (True, in_emit [QKeyEvent (key_type_of flags) 0 keysym] s))"

text \<open>The callbacks FreeRDP calls, with the argument order they hand on.\<close>

datatype input_pdu =
    Synchronize u32
  | Mouse (pdu_flags: u16) u16 u16
  | ExtendedMouse (pdu_flags: u16) u16 u16
  | Keyboard (pdu_flags: u16) u8
  | UnicodeKeyboard (pdu_flags: u16) u16

record input_tables =
  vk_of_scan :: "u32 \<Rightarrow> u32"
  keycode_of_vk :: "u32 \<Rightarrow> u32"
  keysym_of :: "u32 \<Rightarrow> u32"
  set_order :: "u32 list \<Rightarrow> u32 list"

fun input_pdu_step :: "input_tables \<Rightarrow> input_pdu \<Rightarrow> input_handler \<Rightarrow> bool \<times> input_handler" where
  "input_pdu_step t (Synchronize flags) s = synchronizeEvent (set_order t) flags s"
| "input_pdu_step t (Mouse flags x y) s = mouseEvent x y flags s"
| "input_pdu_step t (ExtendedMouse flags x y) s = extendedMouseEvent x y flags s"
| "input_pdu_step t (Keyboard flags code) s =
     keyboardEvent (vk_of_scan t) (keycode_of_vk t) (ucast code) flags s"
| "input_pdu_step t (UnicodeKeyboard flags code) s = unicodeKeyboardEvent (keysym_of t) code flags s"

section \<open>Keys: the handler's set and what the session holds down\<close>

text \<open>The keys a session that executes the key events by scan code has down.\<close>

definition key_effect :: "input_event \<Rightarrow> u32 set \<Rightarrow> u32 set" where
  "key_effect e held = (case e of
       QKeyEvent KeyPress sc vk \<Rightarrow> if vk = 0 then insert sc held else held
     | QKeyEvent KeyRelease sc vk \<Rightarrow> if vk = 0 then held - {sc} else held
     | _ \<Rightarrow> held)"

definition held_keys :: "input_event list \<Rightarrow> u32 set" where
  "held_keys es = fold key_effect es {}"

lemma in_emit_fields [simp]:
  "lastMousePosition (in_emit xs s) = lastMousePosition s"
  "pressedKeys (in_emit xs s) = pressedKeys s"
  "in_log (in_emit xs s) = in_log s @ xs"
  by (simp_all add: in_emit_def)

lemma fold_key_effect_id:
  "list_all (\<lambda>e. \<forall>held. key_effect e held = held) xs \<Longrightarrow> fold key_effect xs held = held"
  by (induction xs arbitrary: held) auto

lemma fold_release:
  "fold key_effect (map (\<lambda>k. QKeyEvent KeyRelease k 0) ks) held = held - set ks"
  by (induction ks arbitrary: held) (auto simp: key_effect_def)

definition keys_tracked :: "input_handler \<Rightarrow> bool" where
  "keys_tracked s \<longleftrightarrow> distinct (pressedKeys s) \<and> set (pressedKeys s) = held_keys (in_log s)"

lemma keys_tracked_frame:
  assumes "keys_tracked s" and "pressedKeys s' = pressedKeys s" and "in_log s' = in_log s @ xs"
    and "list_all (\<lambda>e. \<forall>held. key_effect e held = held) xs"
  shows "keys_tracked s'"
  using assms by (simp add: keys_tracked_def held_keys_def fold_key_effect_id)

lemma mouseEvent_frame:
  "\<exists>xs. pressedKeys (snd (mouseEvent x y flags s)) = pressedKeys s \<and>
     in_log (snd (mouseEvent x y flags s)) = in_log s @ xs \<and>
     list_all (\<lambda>e. \<forall>held. key_effect e held = held) xs"
  by (auto simp: mouseEvent_def Let_def wheel_events_def key_effect_def)

lemma synchronize_log:
  "in_log (snd (synchronizeEvent order flags s)) =
     in_log s @ map (\<lambda>k. QKeyEvent KeyRelease k 0) (order (pressedKeys s))"
  "pressedKeys (snd (synchronizeEvent order flags s)) = []"
  by (simp_all add: synchronizeEvent_def Let_def)

lemma input_pdu_step_tracked:
  assumes t: "iteration_order (set_order t)" and s: "keys_tracked s"
  shows "keys_tracked (snd (input_pdu_step t p s))"
proof (cases p)
  case (Synchronize flags)
  then show ?thesis
    using s t
    by (simp add: keys_tracked_def synchronize_log held_keys_def fold_release iteration_order_set)
next
  case (Mouse flags x y)
  then show ?thesis using mouseEvent_frame [of x y flags s] keys_tracked_frame [OF s] by auto
next
  case (ExtendedMouse flags x y)
  then show ?thesis
    using mouseEvent_frame [of x y PTR_FLAGS_MOVE s] keys_tracked_frame [OF s] s
    by (auto simp: extendedMouseEvent_def Let_def key_effect_def)
next
  case (Keyboard flags code)
  then show ?thesis
    using s by (simp add: keyboardEvent_def Let_def keys_tracked_def held_keys_def key_effect_def
        distinct_removeAll split: key_type.split)
next
  case (UnicodeKeyboard flags code)
  then show ?thesis
    using s by (auto simp: unicodeKeyboardEvent_def Let_def keys_tracked_def held_keys_def
        key_effect_def split: key_type.split)
qed

fun input_step :: "input_tables \<times> input_pdu \<Rightarrow> input_handler \<Rightarrow> input_handler" where
  "input_step (t, p) s = snd (input_pdu_step t p s)"

definition input_run :: "(input_tables \<times> input_pdu) list \<Rightarrow> input_handler" where
  "input_run ps = fold input_step ps input_init"

definition tables_ok :: "input_tables \<times> input_pdu \<Rightarrow> bool" where
  "tables_ok tp \<longleftrightarrow> iteration_order (set_order (fst tp))"

interpretation keys: machine input_step input_init tables_ok keys_tracked
proof unfold_locales
  show "keys_tracked input_init" by (simp add: keys_tracked_def input_init_def held_keys_def)
next
  show "keys_tracked (input_step e s)" if "keys_tracked s" "tables_ok e" for s e
    using that input_pdu_step_tracked by (cases e) (auto simp: tables_ok_def)
qed

text \<open>
C12. After any sequence of input PDUs the handler's \<open>pressedKeys\<close> is exactly the set of keys
the emitted key events leave held down, and a synchronize PDU then releases each of them exactly
once, in the set's order, after which no key is held: no lost key release can leave a key stuck
beyond the next synchronize.
\<close>

theorem synchronize_releases_all_held_keys:
  assumes "list_all tables_ok ps" and "iteration_order (set_order t)"
  shows "\<exists>released.
    in_log (input_run (ps @ [(t, Synchronize flags)])) =
      in_log (input_run ps) @ map (\<lambda>k. QKeyEvent KeyRelease k 0) released \<and>
    distinct released \<and> set released = held_keys (in_log (input_run ps)) \<and>
    set (pressedKeys (input_run ps)) = held_keys (in_log (input_run ps)) \<and>
    held_keys (in_log (input_run (ps @ [(t, Synchronize flags)]))) = {}"
proof -
  let ?s = "input_run ps" and ?r = "set_order t (pressedKeys (input_run ps))"
  have k: "keys_tracked ?s" using keys.inv_reach assms(1) by (simp add: input_run_def)
  have "distinct ?r" "set ?r = set (pressedKeys ?s)"
    using assms(2) k by (simp_all add: iteration_order_set iteration_order_distinct keys_tracked_def)
  moreover have "in_log (input_run (ps @ [(t, Synchronize flags)])) =
      in_log ?s @ map (\<lambda>k. QKeyEvent KeyRelease k 0) ?r"
    by (simp add: input_run_def synchronize_log)
  ultimately show ?thesis
    using k by (intro exI [of _ ?r]) (simp add: keys_tracked_def held_keys_def fold_release)
qed

definition plain_tables :: input_tables where
  "plain_tables = \<lparr>vk_of_scan = (\<lambda>c. c + 1), keycode_of_vk = (\<lambda>v. v + 8),
     keysym_of = (\<lambda>u. u), set_order = rev\<rparr>"

theorem synchronize_releases_all_held_keys_witness:
  "\<exists>released.
    in_log (input_run [(plain_tables, Keyboard 0 30), (plain_tables, Keyboard 0 31),
        (plain_tables, Keyboard 0x8000 30), (plain_tables, Synchronize 0)]) =
      in_log (input_run [(plain_tables, Keyboard 0 30), (plain_tables, Keyboard 0 31),
        (plain_tables, Keyboard 0x8000 30)]) @ map (\<lambda>k. QKeyEvent KeyRelease k 0) released \<and>
    set released = {40}"
  using synchronize_releases_all_held_keys
    [of "[(plain_tables, Keyboard 0 30), (plain_tables, Keyboard 0 31),
          (plain_tables, Keyboard 0x8000 30)]" plain_tables 0]
  by (auto simp: tables_ok_def plain_tables_def iteration_order_id input_run_def keyboardEvent_def Let_def
      key_type_of_def has_flag_def input_flags evdev_keycode_def input_init_def)

section \<open>The wheel\<close>

lemma and_256: "(a :: int) AND 256 = 0 \<longleftrightarrow> \<not> odd (a div 256)"
  using and_exp_eq_0_iff_not_bit [of a 8] by (simp add: bit_iff_odd)

lemma and_511: "(a :: int) AND 511 = a mod 512"
  using take_bit_eq_mask [of 9 a] by (simp add: mask_eq_exp_minus_1 take_bit_eq_mod)

lemma has_flag_bit:
  assumes "f = 2 ^ n" and "n < 16"
  shows "has_flag flags f \<longleftrightarrow> bit flags n"
  unfolding has_flag_def assms(1) by (simp add: and_exp_eq_0_iff_not_bit)

lemma has_negative: "has_flag flags PTR_FLAGS_WHEEL_NEGATIVE \<longleftrightarrow> odd (uint flags div 256)"
  using has_flag_bit [of PTR_FLAGS_WHEEL_NEGATIVE 8 flags] bit_uint_iff [of flags 8]
  by (simp add: PTR_FLAGS_WHEEL_NEGATIVE_def bit_iff_odd)

lemma odd_256: "odd ((q::int) div 256) \<longleftrightarrow> 256 \<le> q mod 512"
  using zmod_zmult2_eq [of 2 q 256] pos_mod_bound [of 256 q] pos_mod_sign [of 256 q]
  by (auto simp: odd_iff_mod_2_eq_one)

lemma complement_9_bits: "0 \<le> a \<Longrightarrow> a < 512 \<Longrightarrow> (- a - 1) mod 512 = 511 - (a::int)"
  using mod_add_self2 [of "- a - 1" 512] by (simp add: mod_pos_pos_trivial)

lemma signed_9_bits:
  "0 \<le> (a::int) \<Longrightarrow> a < 512 \<Longrightarrow> (a + 256) mod 512 - 256 = (if 256 \<le> a then a - 512 else a)"
proof (cases "256 \<le> a")
  case True
  then show "0 \<le> a \<Longrightarrow> a < 512 \<Longrightarrow> ?thesis"
    using mod_add_self2 [of "a - 256" 512] by (simp add: mod_pos_pos_trivial add.commute)
qed (simp add: mod_pos_pos_trivial)

text \<open>The low nine bits of the flags are the rotation in two's complement; Qt's sign is the other.\<close>

lemma wheel_axis_sint: "wheel_axis flags = - sint (ucast flags :: 9 word)"
proof -
  define a where "a = uint flags mod 512"
  have a: "0 \<le> a" "a < 512" by (simp_all add: a_def)
  have neg: "has_flag flags PTR_FLAGS_WHEEL_NEGATIVE \<longleftrightarrow> 256 \<le> a"
    by (simp only: has_negative odd_256 a_def)
  have neg': "a AND 256 \<noteq> 0 \<longleftrightarrow> 256 \<le> a"
    using a by (simp only: and_256 odd_256 not_not mod_pos_pos_trivial)
  have mask: "uint flags AND uint WheelRotationMask = a"
    unfolding WheelRotationMask_def a_def by (simp add: and_511)
  have compl: "NOT a AND uint WheelRotationMask = 511 - a"
    unfolding WheelRotationMask_def using complement_9_bits [OF a]
    by (simp add: and_511 not_eq_complement)
  have axis: "wheel_axis flags = (if 256 \<le> a then 512 - a else - a)"
    unfolding wheel_axis_def Let_def mask neg compl
    using neg' by (simp add: PTR_FLAGS_WHEEL_NEGATIVE_def)
  have "sint (ucast flags :: 9 word) = signed_take_bit 8 (uint flags)"
    by (simp add: signed_ucast_eq)
  also have "\<dots> = (a + 256) mod 512 - 256"
    unfolding a_def by (simp add: signed_take_bit_eq_take_bit_shift take_bit_eq_mod mod_simps)
  finally show ?thesis using axis signed_9_bits [OF a] by simp
qed

lemma wheel_axis_range: "- 255 \<le> wheel_axis flags" "wheel_axis flags \<le> 256"
  using sint_ge [of "ucast flags :: 9 word"] sint_lt [of "ucast flags :: 9 word"]
  by (simp_all add: wheel_axis_sint)

text \<open>An eighth of a small integer is a double, so the division is exact.\<close>

lemma fl_eighth: "fl (real_of_int (wheel_axis flags) / 8) = real_of_int (wheel_axis flags) / 8"
  using fl_dyadic [of "wheel_axis flags" 3] wheel_axis_range [of flags] by simp

lemma wheel_events_eq:
  "wheel_events position flags =
     (let r = - sint (ucast flags :: 9 word); notches = lround (real_of_int r / 8)
      in (if has_flag flags PTR_FLAGS_WHEEL then [QWheelEvent position (0, notches) (0, r)] else []) @
         (if has_flag flags PTR_FLAGS_HWHEEL then [QWheelEvent position (- notches, 0) (- r, 0)] else []))"
  unfolding wheel_events_def Let_def fl_eighth lround_minus unfolding wheel_axis_sint ..

text \<open>Where the client last moved the mouse to, by the PDUs alone.\<close>

fun move_effect :: "input_tables \<times> input_pdu \<Rightarrow> qpoint \<Rightarrow> qpoint" where
  "move_effect (t, Mouse flags x y) p = (if has_flag flags PTR_FLAGS_MOVE then (uint x, uint y) else p)"
| "move_effect (t, ExtendedMouse flags x y) p =
     (if has_flag flags PTR_FLAGS_MOVE then (uint x, uint y) else p)"
| "move_effect (t, _) p = p"

definition last_move :: "(input_tables \<times> input_pdu) list \<Rightarrow> qpoint" where
  "last_move ps = fold move_effect ps (0, 0)"

lemma mouseEvent_position:
  "lastMousePosition (snd (mouseEvent x y flags s)) =
     (if has_flag flags PTR_FLAGS_MOVE then (uint x, uint y) else lastMousePosition s)"
  by (simp add: mouseEvent_def Let_def)

lemma move_is_move: "has_flag PTR_FLAGS_MOVE PTR_FLAGS_MOVE"
  by (simp add: has_flag_def input_flags)

lemma input_step_position: "lastMousePosition (input_step tp s) = move_effect tp (lastMousePosition s)"
proof -
  obtain t p where tp: "tp = (t, p)" by (cases tp)
  show ?thesis unfolding tp
    by (cases p)
       (simp_all add: mouseEvent_position extendedMouseEvent_def synchronizeEvent_def keyboardEvent_def
         unicodeKeyboardEvent_def Let_def move_is_move)
qed

lemma input_run_position: "lastMousePosition (input_run ps) = last_move ps"
proof -
  have "lastMousePosition (fold input_step ps s) = fold move_effect ps (lastMousePosition s)" for s
    by (induction ps arbitrary: s) (simp_all add: input_step_position)
  then show ?thesis by (simp add: input_run_def last_move_def input_init_def)
qed

text \<open>
A wheel PDU turns into at most one vertical and one horizontal wheel event. The angle of the
vertical one is the low nine bits of the flags read as a two's-complement number, negated, and lies
within -255 and 256; the horizontal one is its opposite; the pixel delta is an eighth of it, halves
rounded away from zero. They are placed where the PDU says, or, for a client that says (0, 0), where
it last moved the mouse to.
\<close>

theorem wheel_rotation_is_signed_9_bits:
  assumes "has_flag flags PTR_FLAGS_WHEEL \<or> has_flag flags PTR_FLAGS_HWHEEL"
    and r: "r = - sint (ucast flags :: 9 word)"
    and pos: "pos = (if x = 0 \<and> y = 0 then last_move (ps @ [(t, Mouse flags x y)]) else (uint x, uint y))"
  shows "in_log (input_run (ps @ [(t, Mouse flags x y)])) = in_log (input_run ps) @
      (if has_flag flags PTR_FLAGS_WHEEL
       then [QWheelEvent pos (0, lround (real_of_int r / 8)) (0, r)] else []) @
      (if has_flag flags PTR_FLAGS_HWHEEL
       then [QWheelEvent pos (- lround (real_of_int r / 8), 0) (- r, 0)] else []) \<and>
    - 255 \<le> r \<and> r \<le> 256"
proof -
  have last: "last_move (ps @ [(t, Mouse flags x y)]) =
      (if has_flag flags PTR_FLAGS_MOVE then (uint x, uint y) else lastMousePosition (input_run ps))"
    by (simp add: input_run_position last_move_def)
  have "in_log (input_run (ps @ [(t, Mouse flags x y)])) =
      in_log (input_run ps) @ wheel_events pos flags"
    using assms(1) unfolding pos last
    by (auto simp: input_run_def mouseEvent_def Let_def uint_0_iff)
  then show ?thesis
    using wheel_axis_range [of flags] unfolding wheel_axis_sint r
    by (simp add: wheel_events_eq Let_def)
qed

theorem wheel_rotation_is_signed_9_bits_witness:
  "in_log (input_run [(plain_tables, Mouse 0x0800 40 50), (plain_tables, Mouse 0x0388 0 0)]) =
     [QMouseEvent MouseMove (40, 50) NoButton, QWheelEvent (40, 50) (0, 15) (0, 120)]"
  using wheel_rotation_is_signed_9_bits
    [of "0x0388" _ _ 0 0 "[(plain_tables, Mouse 0x0800 40 50)]" plain_tables]
  by (simp add: has_flag_def input_flags last_move_def input_run_def mouseEvent_def Let_def
      mouse_button_of_def input_init_def lround_def)

text \<open>
The handler rejects a PDU exactly when it is an extended mouse PDU that neither moves nor names
one of the two extra buttons; it then changes nothing. Every other mouse or keyboard PDU is handled,
and emits exactly one event unless it is a wheel PDU, a synchronize or a Unicode key without a
keysym.
\<close>

theorem rejected_or_one_event:
  "(\<not> fst (input_pdu_step t p s) \<longleftrightarrow>
      (\<exists>flags x y. p = ExtendedMouse flags x y \<and> \<not> has_flag flags PTR_FLAGS_MOVE \<and>
        \<not> has_flag flags PTR_XFLAGS_BUTTON1 \<and> \<not> has_flag flags PTR_XFLAGS_BUTTON2)) \<and>
   length (in_log (snd (input_pdu_step t p s))) = length (in_log s) +
     (case p of
        Synchronize flags \<Rightarrow> length (set_order t (pressedKeys s))
      | Mouse flags x y \<Rightarrow>
          if has_flag flags PTR_FLAGS_WHEEL \<and> has_flag flags PTR_FLAGS_HWHEEL then 2 else 1
      | ExtendedMouse flags x y \<Rightarrow> if fst (input_pdu_step t p s) then 1 else 0
      | Keyboard flags code \<Rightarrow> 1
      | UnicodeKeyboard flags code \<Rightarrow> if keysym_of t (ucs4_first code) = 0 then 0 else 1) \<and>
   (\<not> fst (input_pdu_step t p s) \<longrightarrow> snd (input_pdu_step t p s) = s)"
proof -
  have "\<not> has_flag PTR_FLAGS_MOVE PTR_FLAGS_WHEEL" "\<not> has_flag PTR_FLAGS_MOVE PTR_FLAGS_HWHEEL"
    by (simp_all add: has_flag_def input_flags)
  then show ?thesis
    by (cases p)
       (simp_all add: synchronizeEvent_def mouseEvent_def extendedMouseEvent_def keyboardEvent_def
         unicodeKeyboardEvent_def wheel_events_def Let_def)
qed

theorem rejected_or_one_event_witness:
  "snd (input_pdu_step plain_tables (ExtendedMouse 0x8000 1 1) input_init) = input_init"
  using rejected_or_one_event [of plain_tables "ExtendedMouse 0x8000 1 1" input_init]
  by (auto simp: has_flag_def input_flags)

end
