(* ===== verification/Clipboard.thy ===== *)
theory Clipboard
  imports Connection_Types
begin

unbundle bit_operations_syntax

text \<open>
  \<open>src/Clipboard.cpp\<close>: text copied on either side. Calls into the clipboard channel and the
  \<open>clientDataChanged\<close> signal are appended to \<open>clip_log\<close>; \<open>sendServerData\<close> invocations that
  wait in the event loop are counted in \<open>queued_sends\<close> and run by the event \<open>RunQueued\<close>.
  A \<open>QMimeData\<close> is its \<open>text()\<close>, a list of UTF-16 code units. FreeRDP's answers (did
  \<open>cliprdr_server_context_new\<close> give a context, what did \<open>Start\<close> and \<open>Stop\<close> return)
  are arguments of the call.
\<close>

section \<open>State\<close>

definition CF_TEXT :: u32 where "CF_TEXT = 1"
definition CF_OEMTEXT :: u32 where "CF_OEMTEXT = 7"
definition CF_UNICODETEXT :: u32 where "CF_UNICODETEXT = 13"
definition CB_RESPONSE_OK :: u16 where "CB_RESPONSE_OK = 1"
definition CB_RESPONSE_FAIL :: u16 where "CB_RESPONSE_FAIL = 2"

lemmas clip_codes = CF_TEXT_def CF_OEMTEXT_def CF_UNICODETEXT_def CB_RESPONSE_OK_def CB_RESPONSE_FAIL_def

record data_response =
  msgFlags :: u16
  dataLen :: u32
  requestedFormatData :: "u8 list option"

datatype clip_out =
    ServerFormatList "u32 list"
  | ServerFormatDataRequest u32
  | ServerFormatListResponse u16
  | ServerFormatDataResponse data_response
  | ClientDataChanged

record clipboard =
  clipContext :: bool
  clip_enabled :: bool
  clientReady :: bool
  serverData :: "u16 list option"
  clientData :: "u16 list option"
  queued_sends :: nat
  clip_log :: "clip_out list"

definition clip_init :: clipboard where
  "clip_init = \<lparr>clipContext = False, clip_enabled = False, clientReady = False, serverData = None,
     clientData = None, queued_sends = 0, clip_log = []\<rparr>"

definition clip_emit :: "clip_out list \<Rightarrow> clipboard \<Rightarrow> clipboard" where
  "clip_emit xs c = c\<lparr>clip_log := clip_log c @ xs\<rparr>"

definition queue_send :: "clipboard \<Rightarrow> clipboard" where
  "queue_send c = c\<lparr>queued_sends := Suc (queued_sends c)\<rparr>"

section \<open>Text on the wire\<close>

definition utf16le :: "u16 list \<Rightarrow> u8 list" where
  "utf16le cs = concat (map (\<lambda>c. [ucast c, ucast (drop_bit 8 c)]) cs)"

text \<open>Reading \<open>n\<close> \<open>char16_t\<close> from a little-endian buffer.\<close>

fun read_utf16 :: "nat \<Rightarrow> u8 list \<Rightarrow> u16 list" where
  "read_utf16 (Suc n) (lo # hi # bs) = (ucast lo + push_bit 8 (ucast hi)) # read_utf16 n bs"
| "read_utf16 _ _ = []"

definition swap_bytes :: "u16 \<Rightarrow> u16" where
  "swap_bytes c = word_rotl 8 c"

text \<open>\<open>QString::fromUtf16\<close> takes a byte order mark at the start as such.\<close>

definition fromUtf16 :: "u16 list \<Rightarrow> u16 list" where
  "fromUtf16 cs = (case cs of [] \<Rightarrow> []
     | c # r \<Rightarrow> if c = 0xFEFF then r else if c = 0xFFFE then map swap_bytes r else cs)"

section \<open>Operations\<close>

definition markClientReady :: "clipboard \<Rightarrow> clipboard" where
  "markClientReady c = (if clientReady c then c else queue_send (c\<lparr>clientReady := True\<rparr>))"

definition clip_initialize :: "bool \<Rightarrow> u32 \<Rightarrow> clipboard \<Rightarrow> bool \<times> clipboard" where
  "clip_initialize context_new start_rc c =
     (if clipContext c then (True, c)
      else if \<not> context_new then (False, c)
      else if start_rc \<noteq> 0 then (False, c\<lparr>clipContext := True\<rparr>)
      else (True, queue_send (c\<lparr>clipContext := True, clip_enabled := True\<rparr>)))"

definition clip_close :: "u32 \<Rightarrow> clipboard \<Rightarrow> clipboard" where
  "clip_close stop_rc c =
     (if \<not> clipContext c then c
      else if stop_rc \<noteq> 0 then c
      else c\<lparr>clip_enabled := False\<rparr>)"

definition setServerData :: "u16 list option \<Rightarrow> clipboard \<Rightarrow> clipboard" where
  "setServerData data c = queue_send (c\<lparr>serverData := data\<rparr>)"

definition getClipboard :: "clipboard \<Rightarrow> u16 list option \<times> clipboard" where
  "getClipboard c = (clientData c, c\<lparr>clientData := None\<rparr>)"

definition sendServerData :: "clipboard \<Rightarrow> clipboard" where
  "sendServerData c =
     (if serverData c = None \<or> \<not> clip_enabled c then c
      else if \<not> clientReady c then c
      else clip_emit [ServerFormatList [CF_UNICODETEXT]] c)"

definition onClientCapabilities :: "clipboard \<Rightarrow> u32 \<times> clipboard" where
  "onClientCapabilities c = (CHANNEL_RC_OK, markClientReady c)"

definition is_text_format :: "u32 \<Rightarrow> bool" where
  "is_text_format f \<longleftrightarrow> f = CF_TEXT \<or> f = CF_UNICODETEXT \<or> f = CF_OEMTEXT"

fun format_loop :: "u32 list \<Rightarrow> clipboard \<Rightarrow> clipboard" where
  "format_loop [] c = c"
| "format_loop (f # fs) c =
     format_loop fs (if is_text_format f then clip_emit [ServerFormatDataRequest CF_UNICODETEXT] c else c)"

definition onClientFormatList :: "u32 list \<Rightarrow> clipboard \<Rightarrow> u32 \<times> clipboard" where
  "onClientFormatList formats c =
     (CHANNEL_RC_OK,
      clip_emit [ServerFormatListResponse CB_RESPONSE_OK] (format_loop formats (markClientReady c)))"

definition onClientFormatListResponse :: "clipboard \<Rightarrow> u32 \<times> clipboard" where
  "onClientFormatListResponse c = (CHANNEL_RC_OK, c)"

definition onClientFormatDataRequest :: "u32 \<Rightarrow> clipboard \<Rightarrow> u32 \<times> clipboard" where
  "onClientFormatDataRequest requestedFormatId c =
     (case serverData c of
        Some text \<Rightarrow>
          if requestedFormatId \<noteq> CF_UNICODETEXT
          then (CHANNEL_RC_OK, clip_emit [ServerFormatDataResponse
                 \<lparr>msgFlags = CB_RESPONSE_FAIL, dataLen = 0, requestedFormatData = None\<rparr>] c)
          else
            let utf16Data = take ((length text + 1) * 2) (utf16le (text @ [0]))
            in (CHANNEL_RC_OK, clip_emit [ServerFormatDataResponse
                 \<lparr>msgFlags = CB_RESPONSE_OK, dataLen = of_nat (length utf16Data),
                  requestedFormatData = Some utf16Data\<rparr>] c)
      | None \<Rightarrow> (CHANNEL_RC_OK, clip_emit [ServerFormatDataResponse
                 \<lparr>msgFlags = CB_RESPONSE_FAIL, dataLen = 0, requestedFormatData = None\<rparr>] c))"

definition onClientFormatDataResponse :: "data_response \<Rightarrow> clipboard \<Rightarrow> u32 \<times> clipboard" where
  "onClientFormatDataResponse r c =
     (if msgFlags r AND CB_RESPONSE_OK = 0 then (CHANNEL_RC_OK, c)
      else case requestedFormatData r of
        None \<Rightarrow> (CHANNEL_RC_OK, clip_emit [ClientDataChanged] (c\<lparr>clientData := None\<rparr>))
      | Some bytes \<Rightarrow>
          if dataLen r < 2
          then (CHANNEL_RC_OK, clip_emit [ClientDataChanged] (c\<lparr>clientData := None\<rparr>))
          else
            let nCharacters = sint (dataLen r div 2 - 1)
            in (CHANNEL_RC_OK, clip_emit [ClientDataChanged]
                 (c\<lparr>clientData := Some (fromUtf16 (read_utf16 (nat nCharacters) bytes))\<rparr>)))"

section \<open>The clipboard as a machine\<close>

text \<open>The channel thread blocks until the main thread has run the callback, so calls do not overlap.\<close>

datatype clip_event =
    ClipInitialize bool u32
  | ClipClose u32
  | SetServerData "u16 list option"
  | GetClipboard
  | RunQueued
  | ClientCapabilities
  | ClientFormatList "u32 list"
  | ClientFormatListResponse
  | ClientFormatDataRequest u32
  | ClientFormatDataResponse data_response

fun clip_step :: "clip_event \<Rightarrow> clipboard \<Rightarrow> clipboard" where
  "clip_step (ClipInitialize cn rc) c = snd (clip_initialize cn rc c)"
| "clip_step (ClipClose rc) c = clip_close rc c"
| "clip_step (SetServerData data) c = setServerData data c"
| "clip_step GetClipboard c = snd (getClipboard c)"
| "clip_step RunQueued c =
     (if queued_sends c = 0 then c
      else sendServerData (c\<lparr>queued_sends := queued_sends c - 1\<rparr>))"
| "clip_step ClientCapabilities c = snd (onClientCapabilities c)"
| "clip_step (ClientFormatList fs) c = snd (onClientFormatList fs c)"
| "clip_step ClientFormatListResponse c = snd (onClientFormatListResponse c)"
| "clip_step (ClientFormatDataRequest f) c = snd (onClientFormatDataRequest f c)"
| "clip_step (ClientFormatDataResponse r) c = snd (onClientFormatDataResponse r c)"

lemma clip_emit_fields [simp]:
  "clipContext (clip_emit xs c) = clipContext c" "clip_enabled (clip_emit xs c) = clip_enabled c"
  "clientReady (clip_emit xs c) = clientReady c" "serverData (clip_emit xs c) = serverData c"
  "clientData (clip_emit xs c) = clientData c" "queued_sends (clip_emit xs c) = queued_sends c"
  "clip_log (clip_emit xs c) = clip_log c @ xs"
  by (simp_all add: clip_emit_def)

lemma queue_send_fields [simp]:
  "clipContext (queue_send c) = clipContext c" "clip_enabled (queue_send c) = clip_enabled c"
  "clientReady (queue_send c) = clientReady c" "serverData (queue_send c) = serverData c"
  "clientData (queue_send c) = clientData c" "clip_log (queue_send c) = clip_log c"
  "queued_sends (queue_send c) = Suc (queued_sends c)"
  by (simp_all add: queue_send_def)

lemma markClientReady_fields [simp]:
  "clientReady (markClientReady c)"
  "clipContext (markClientReady c) = clipContext c" "clip_enabled (markClientReady c) = clip_enabled c"
  "serverData (markClientReady c) = serverData c" "clientData (markClientReady c) = clientData c"
  "clip_log (markClientReady c) = clip_log c"
  "queued_sends (markClientReady c) = (if clientReady c then queued_sends c else Suc (queued_sends c))"
  by (simp_all add: markClientReady_def)

lemma format_loop_fields [simp]:
  "clientReady (format_loop fs c) = clientReady c" "clip_enabled (format_loop fs c) = clip_enabled c"
  "serverData (format_loop fs c) = serverData c" "queued_sends (format_loop fs c) = queued_sends c"
  "clipContext (format_loop fs c) = clipContext c" "clientData (format_loop fs c) = clientData c"
  by (induction fs arbitrary: c) auto

lemma format_loop_log:
  "clip_log (format_loop fs c) =
     clip_log c @ replicate (length (filter is_text_format fs)) (ServerFormatDataRequest CF_UNICODETEXT)"
  by (induction fs arbitrary: c) auto

section \<open>A copy on the server is never lost\<close>

text \<open>
  The ghost: is there server data the client has not been told of since it was set? It looks at the
  events and at what a step appends to the log only.
\<close>

fun clip_track :: "clip_event \<Rightarrow> clipboard \<times> bool \<Rightarrow> clipboard \<times> bool" where
  "clip_track e (c, untold) =
     (let c' = clip_step e c
      in (c', case e of
                SetServerData data \<Rightarrow> data \<noteq> None
              | _ \<Rightarrow> untold \<and> ServerFormatList [CF_UNICODETEXT] \<notin> set (drop (length (clip_log c)) (clip_log c'))))"

definition clip_inv :: "clipboard \<times> bool \<Rightarrow> bool" where
  "clip_inv cu \<longleftrightarrow> (let c = fst cu in
     (snd cu \<longrightarrow> serverData c \<noteq> None \<and> (0 < queued_sends c \<or> \<not> clip_enabled c \<or> \<not> clientReady c)) \<and>
     (clip_enabled c \<longrightarrow> clipContext c) \<and>
     ((\<exists>fs. ServerFormatList fs \<in> set (clip_log c)) \<longrightarrow> clientReady c \<and> clipContext c))"

lemma clip_track_inv:
  assumes "clip_inv (c, untold)"
  shows "clip_inv (clip_track e (c, untold))"
  using assms
  by (cases e)
     (auto simp: clip_inv_def Let_def clip_initialize_def clip_close_def setServerData_def getClipboard_def
       sendServerData_def onClientCapabilities_def onClientFormatList_def format_loop_log
       onClientFormatListResponse_def onClientFormatDataRequest_def onClientFormatDataResponse_def
       split: option.splits)

interpretation clip: machine clip_track "(clip_init, False)" "\<lambda>e. True" clip_inv
proof unfold_locales
  show "clip_inv (clip_init, False)" by (simp add: clip_inv_def clip_init_def)
  show "clip_inv (clip_track e cu)" if "clip_inv cu" for cu e
    using clip_track_inv that by (cases cu) auto
qed

text \<open>
C20. Text copied on the server is never lost on its way to the client. Whatever calls and callbacks
come in whatever order, as soon as the channel runs and the client is ready, data the client has not
been told of has a \<open>sendServerData\<close> waiting in the event loop, and the next turn of the loop
announces it. And nothing is announced before the client's handshake, which mstsc would drop.
\<close>

theorem server_copy_is_announced:
  assumes "fold clip_track es (clip_init, False) = (c, untold)"
  shows "(untold \<and> clip_enabled c \<and> clientReady c \<longrightarrow>
      clip_log (clip_step RunQueued c) = clip_log c @ [ServerFormatList [CF_UNICODETEXT]]) \<and>
    (\<not> clientReady c \<longrightarrow> (\<forall>fs. ServerFormatList fs \<notin> set (clip_log c)))"
proof -
  have "clip_inv (c, untold)" using clip.inv_reach [of es] assms by (simp add: list_all_iff)
  then show ?thesis
    by (auto simp: clip_inv_def Let_def sendServerData_def split: option.splits)
qed

theorem server_copy_is_announced_witness:
  "clip_log (clip_step RunQueued (fst (fold clip_track
       [SetServerData (Some [104, 105]), RunQueued, ClipInitialize True 0, RunQueued, ClientCapabilities]
       (clip_init, False)))) = [ServerFormatList [CF_UNICODETEXT]]"
  using server_copy_is_announced
    [of "[SetServerData (Some [104, 105]), RunQueued, ClipInitialize True 0, RunQueued, ClientCapabilities]"]
  by (simp add: clip_init_def clip_initialize_def setServerData_def sendServerData_def
      onClientCapabilities_def markClientReady_def queue_send_def Let_def)

section \<open>Text over the wire\<close>

lemma join_bytes:
  "(ucast (ucast (c :: u16) :: u8) :: u16) + push_bit 8 (ucast (ucast (drop_bit 8 c) :: u8)) = c"
proof -
  have "uint c < 2 ^ 16" using uint_lt2p [of c] by simp
  then have small: "uint c mod 65536 = uint c" and "uint c div 256 < 256"
    by (simp_all add: mod_pos_pos_trivial)
  then have "uint c mod 256 + (uint c div 256) mod 256 * 256 = uint c"
    using mod_pos_pos_trivial [of "uint c div 256" 256] mod_mult_div_eq [of "uint c" 256]
    by (simp add: pos_imp_zdiv_nonneg_iff)
  with small have "uint ((ucast (ucast c :: u8) :: u16) + push_bit 8 (ucast (ucast (drop_bit 8 c) :: u8))) = uint c"
    by (simp add: push_bit_eq_mult uint_word_ariths unsigned_ucast_eq take_bit_eq_mod
        unsigned_drop_bit_eq drop_bit_eq_div uint_mod uint_div mod_pos_pos_trivial)
  then show ?thesis by (rule word_uint_eqI)
qed

lemma read_utf16_utf16le: "read_utf16 (length cs) (utf16le cs @ bs) = cs"
proof (induction cs)
  case Nil
  then show ?case by (cases bs) simp_all
next
  case (Cons c cs)
  then show ?case using join_bytes by (simp add: utf16le_def)
qed

lemma utf16le_length [simp]: "length (utf16le cs) = 2 * length cs"
  by (induction cs) (simp_all add: utf16le_def)

lemma utf16le_append: "utf16le (xs @ ys) = utf16le xs @ utf16le ys"
  by (simp add: utf16le_def)

definition no_bom :: "u16 list \<Rightarrow> bool" where
  "no_bom cs \<longleftrightarrow> cs = [] \<or> hd cs \<noteq> 0xFEFF \<and> hd cs \<noteq> 0xFFFE"

lemma fromUtf16_id: "no_bom cs \<Longrightarrow> fromUtf16 cs = cs"
  by (cases cs) (auto simp: no_bom_def fromUtf16_def)

text \<open>The half of the length, less the terminator, is the number of characters.\<close>

lemma character_count:
  assumes "len = (of_nat (2 * (n + 1)) :: u32)" and "n < 2 ^ 31 - 1"
  shows "\<not> len < 2" and "nat (sint (len div 2 - 1)) = n"
proof -
  have u: "unat len = 2 * (n + 1)" using assms(2) unfolding assms(1)
    by (simp only: unsigned_of_nat) (simp add: take_bit_nat_eq_self)
  then show "\<not> len < 2" by (simp add: word_less_nat_alt)
  have "unat (len div 2) = n + 1" using u by (simp add: unat_div)
  then have "len div 2 = of_nat (n + 1)" by (metis of_nat_unat ucast_id)
  then have "len div 2 - 1 = of_nat n" by simp
  moreover have "sint (of_nat n :: u32) = int n"
    using assms(2) by (simp add: signed_of_nat signed_take_bit_int_eq_self)
  ultimately show "nat (sint (len div 2 - 1)) = n" by simp
qed

text \<open>A response the client sends for a text: UTF-16 in little endian, null-terminated.\<close>

definition text_response :: "u16 list \<Rightarrow> data_response" where
  "text_response text =
     \<lparr>msgFlags = CB_RESPONSE_OK, dataLen = of_nat (2 * (length text + 1)),
      requestedFormatData = Some (utf16le (text @ [0]))\<rparr>"

text \<open>
C23. Text survives the clipboard in both directions. A request of the client for Unicode text, with
server data set, is answered with exactly the UTF-16LE encoding of it and its terminating null; and
when a peer's response carries such an encoding, \<open>onClientFormatDataResponse\<close> stores that very
text, so what one KRdp clipboard sends another one reads back. The bounds are that the length fits
the 32-bit fields and that the text does not begin with a byte order mark, which
\<open>QString::fromUtf16\<close> would take for one.
\<close>

theorem clipboard_text_round_trip:
  assumes "serverData c = Some text" and "length text < 2 ^ 31 - 1" and "no_bom text"
  shows "clip_log (snd (onClientFormatDataRequest CF_UNICODETEXT c)) =
      clip_log c @ [ServerFormatDataResponse (text_response text)] \<and>
    clientData (snd (onClientFormatDataResponse (text_response text) d)) = Some text \<and>
    clip_log (snd (onClientFormatDataResponse (text_response text) d)) = clip_log d @ [ClientDataChanged]"
proof -
  have "take ((length text + 1) * 2) (utf16le (text @ [0])) = utf16le (text @ [0])" by simp
  then have 1: "clip_log (snd (onClientFormatDataRequest CF_UNICODETEXT c)) =
      clip_log c @ [ServerFormatDataResponse (text_response text)]"
    using assms(1)
    by (simp add: onClientFormatDataRequest_def text_response_def Let_def del: take_all_iff)
  note len = character_count [OF refl assms(2)]
  have "read_utf16 (length text) (utf16le (text @ [0])) = text"
    by (simp add: utf16le_append read_utf16_utf16le)
  then have "onClientFormatDataResponse (text_response text) d =
      (CHANNEL_RC_OK, clip_emit [ClientDataChanged] (d\<lparr>clientData := Some text\<rparr>))"
    using len fromUtf16_id [OF assms(3)]
    by (simp add: onClientFormatDataResponse_def text_response_def CB_RESPONSE_OK_def Let_def
        del: of_nat_mult of_nat_add of_nat_Suc)
  with 1 show ?thesis by simp
qed

theorem clipboard_text_round_trip_witness:
  "clientData (snd (onClientFormatDataResponse (text_response [72, 0xE9, 0x20AC]) clip_init)) =
     Some [72, 0xE9, 0x20AC]"
  using clipboard_text_round_trip
    [of "clip_init\<lparr>serverData := Some [72, 0xE9, 0x20AC]\<rparr>" "[72, 0xE9, 0x20AC]" clip_init]
  by (simp add: no_bom_def)

text \<open>The character count never wraps, and reading it stays before the last two bytes.\<close>

lemma character_count_no_wrap:
  assumes "\<not> len < (2 :: u32)"
  shows "nat (sint (len div 2 - 1)) = unat len div 2 - 1"
proof -
  have pos: "1 \<le> len div 2"
    using assms by (simp add: word_le_nat_alt word_less_nat_alt unat_div)
  have "unat len < 2 ^ 32" using unsigned_less [of len] by simp
  then have u: "unat (len div 2 - 1) = unat len div 2 - 1" "unat len div 2 - 1 < 2 ^ 31"
    using unat_sub [OF pos] by (simp_all add: unat_div)
  then have "len div 2 - 1 = of_nat (unat len div 2 - 1)"
    by (metis of_nat_unat ucast_id)
  moreover have "sint (of_nat k :: u32) = int k" if "k < 2 ^ 31" for k
    using that by (simp add: signed_of_nat signed_take_bit_int_eq_self)
  ultimately show ?thesis using u(2) by simp
qed

lemma read_utf16_length: "length (read_utf16 k bs) \<le> k"
  by (induction k bs rule: read_utf16.induct) auto

lemma fromUtf16_length: "length (fromUtf16 cs) \<le> length cs"
  by (auto simp: fromUtf16_def split: list.split)

lemma read_utf16_take: "2 * k \<le> m \<Longrightarrow> read_utf16 k (take m bs) = read_utf16 k bs"
proof (induction k bs arbitrary: m rule: read_utf16.induct)
  case (1 n lo hi bs)
  then obtain m' where "m = Suc (Suc m')" by (cases m; cases "m - 1") auto
  then show ?case using 1 by simp
qed (auto split: list.splits simp: take_Cons')

text \<open>
C37. A response of the client never makes the handler read outside its buffer or wrap its character
count: a failed response changes nothing, one without data or of fewer than two bytes clears the
client's data and says so, and any other stores at most \<open>dataLen / 2 - 1\<close> characters, all read
from the first \<open>dataLen\<close> bytes.
\<close>

theorem client_response_stays_in_buffer:
  assumes ok: "msgFlags r AND CB_RESPONSE_OK \<noteq> 0"
  shows "(requestedFormatData r = None \<or> dataLen r < 2 \<longrightarrow>
      onClientFormatDataResponse r c =
        (CHANNEL_RC_OK, clip_emit [ClientDataChanged] (c\<lparr>clientData := None\<rparr>))) \<and>
    (\<forall>bytes. requestedFormatData r = Some bytes \<longrightarrow> \<not> dataLen r < 2 \<longrightarrow>
      (\<exists>text. onClientFormatDataResponse r c =
          (CHANNEL_RC_OK, clip_emit [ClientDataChanged] (c\<lparr>clientData := Some text\<rparr>)) \<and>
        length text \<le> unat (dataLen r) div 2 - 1 \<and>
        text = fromUtf16 (read_utf16 (unat (dataLen r) div 2 - 1) (take (unat (dataLen r) - 2) bytes))))"
  using ok character_count_no_wrap [of "dataLen r"]
    read_utf16_take [of "unat (dataLen r) div 2 - 1" "unat (dataLen r) - 2"]
    order_trans [OF fromUtf16_length read_utf16_length, of "unat (dataLen r) div 2 - 1"]
  by (auto simp: onClientFormatDataResponse_def Let_def split: option.split)

theorem client_response_stays_in_buffer_witness:
  "clientData (snd (onClientFormatDataResponse
     \<lparr>msgFlags = 1, dataLen = 1, requestedFormatData = Some [7]\<rparr> (clip_init\<lparr>clientData := Some [1]\<rparr>))) = None"
  using client_response_stays_in_buffer
    [of "\<lparr>msgFlags = 1, dataLen = 1, requestedFormatData = Some [7]\<rparr>" "clip_init\<lparr>clientData := Some [1]\<rparr>"]
  by (simp add: CB_RESPONSE_OK_def)

text \<open>
  A format list of the client is always acknowledged, after one data request per text format it
lists and none for any other; every request asks for Unicode text, whatever text format was listed;
and it counts as the client being ready, so a copy held back until then is queued.
\<close>

lemma format_list_is_answered:
  "clip_log (snd (onClientFormatList formats c)) = clip_log c @
     replicate (length (filter is_text_format formats)) (ServerFormatDataRequest CF_UNICODETEXT) @
     [ServerFormatListResponse CB_RESPONSE_OK] \<and>
   clientReady (snd (onClientFormatList formats c)) \<and>
   queued_sends (snd (onClientFormatList formats c)) =
     (if clientReady c then queued_sends c else Suc (queued_sends c))"
  by (simp add: onClientFormatList_def format_loop_log)

end
