(* ===== verification/DisplayControl.thy ===== *)
theory DisplayControl
  imports Connection_Types Doubles
begin

text \<open>
  \<open>src/DisplayControl.cpp\<close>: the display control channel, over which the client says how large
  its window is. A monitor layout PDU is the list of its monitors (\<open>NumMonitors\<close> is its length).
\<close>

section \<open>State\<close>

record monitor_layout =
  mon_Width :: u32
  mon_Height :: u32
  mon_DesktopScaleFactor :: u32

datatype disp_out =
    DispOpen "nat \<times> nat \<times> nat"
  | DispCaps
  | DispFree
  | DisplayLayoutChanged "virtual_monitor list"

record display_control =
  m_dispManager :: bool
  m_display :: "virtual_monitor list"
  disp_log :: "disp_out list"

definition display_init :: display_control where
  "display_init = \<lparr>m_dispManager = False, m_display = [], disp_log = []\<rparr>"

definition disp_emit :: "disp_out list \<Rightarrow> display_control \<Rightarrow> display_control" where
  "disp_emit xs d = d\<lparr>disp_log := disp_log d @ xs\<rparr>"

section \<open>Operations\<close>

definition monitor_of :: "monitor_layout \<Rightarrow> virtual_monitor" where
  "monitor_of m =
     \<lparr>mon_name = qs ''RDP Monitor'',
      mon_size = \<lparr>width = to_int32 (uint (mon_Width m)), height = to_int32 (uint (mon_Height m))\<rparr>,
      mon_dpr = fl (real_of_int (uint (mon_DesktopScaleFactor m)) / 100)\<rparr>"

definition receiveMonitorLayout :: "monitor_layout list \<Rightarrow> display_control \<Rightarrow> u32 \<times> display_control" where
  "receiveMonitorLayout monitors d =
     (case monitors of
        [m] \<Rightarrow> (CHANNEL_RC_OK,
                 disp_emit [DisplayLayoutChanged [monitor_of m]] (d\<lparr>m_display := [monitor_of m]\<rparr>))
      | _ \<Rightarrow> (CHANNEL_RC_BAD_CHANNEL, d))"

text \<open>
  The answers of FreeRDP: whether \<open>disp_server_context_new\<close> gave a context, and what \<open>Open\<close>
  and \<open>DisplayControlCaps\<close> returned. The three numbers are \<open>MaxNumMonitors\<close> and the two
  area factors.
\<close>

definition display_initialize :: "bool \<Rightarrow> u32 \<Rightarrow> u32 \<Rightarrow> display_control \<Rightarrow> bool \<times> display_control" where
  "display_initialize context_new open_rc caps_rc d =
     (if m_dispManager d then (True, d)
      else if \<not> context_new then (False, d)
      else
        let d1 = disp_emit [DispOpen (1, 8192, 8192)] (d\<lparr>m_dispManager := True\<rparr>)
        in if open_rc \<noteq> CHANNEL_RC_OK then (False, d1)
           else
             let d2 = disp_emit [DispCaps] d1
             in if caps_rc \<noteq> CHANNEL_RC_OK then (False, d2) else (True, d2))"

definition display_close :: "display_control \<Rightarrow> display_control" where
  "display_close d = (if m_dispManager d then disp_emit [DispFree] (d\<lparr>m_dispManager := False\<rparr>) else d)"

section \<open>Properties\<close>

lemma receiveMonitorLayout_single:
  "receiveMonitorLayout l d =
     (if length l = 1
      then (CHANNEL_RC_OK, disp_emit [DisplayLayoutChanged [monitor_of (hd l)]] (d\<lparr>m_display := [monitor_of (hd l)]\<rparr>))
      else (CHANNEL_RC_BAD_CHANNEL, d))"
  by (auto simp: receiveMonitorLayout_def length_Suc_conv split: list.split)

definition single_layouts :: "monitor_layout list list \<Rightarrow> monitor_layout list" where
  "single_layouts ls = map hd (filter (\<lambda>l. length l = 1) ls)"

text \<open>
The layout kept is that of the last PDU with exactly one monitor, whatever other layouts came in
between; each such PDU is signalled once, with the layout it sets; a PDU with any other number of
monitors changes nothing and signals nothing.
\<close>

theorem display_is_last_single_monitor:
  "m_display (fold (\<lambda>l d. snd (receiveMonitorLayout l d)) ls d) =
     (case single_layouts ls of [] \<Rightarrow> m_display d | singles \<Rightarrow> [monitor_of (last singles)]) \<and>
   disp_log (fold (\<lambda>l d. snd (receiveMonitorLayout l d)) ls d) =
     disp_log d @ map (\<lambda>m. DisplayLayoutChanged [monitor_of m]) (single_layouts ls)"
  by (induction ls arbitrary: d)
     (auto simp: single_layouts_def receiveMonitorLayout_single disp_emit_def split: list.split)

end
