(* ===== verification/VideoWindow.thy ===== *)
theory VideoWindow
  imports Prelude Doubles
begin

text \<open>
  The part of \<open>src/VideoStream.cpp\<close> that decides how many frames may be on their way to the
  client: the estimate of the producer's frame rate (\<open>effectiveProducerFps\<close>) and the in-flight
  window (\<open>updateInFlightWindow\<close>). The state is the group of fields of
  \<open>VideoStream::Private\<close> that only these functions (and the frame counter) touch. Doubles are
  reals rounded by \<open>fl\<close> after every operation.
\<close>

definition MaximumInFlightFrames :: int where "MaximumInFlightFrames = 2"
definition InFlightGain :: real where "InFlightGain = 1"
definition LatencyBudgetSec :: real where "LatencyBudgetSec = 1"
definition MinimumWindowFrameRate :: real where "MinimumWindowFrameRate = 5"
definition ProducerFpsEwmaAlpha :: real where "ProducerFpsEwmaAlpha = 1 / 4"
definition RttEwmaAlpha :: real where "RttEwmaAlpha = 1 / 8"
definition MinimumValidRttMs :: real where "MinimumValidRttMs = 5"
definition MaximumValidRttMs :: real where "MaximumValidRttMs = 60000"

lemmas window_consts = MaximumInFlightFrames_def InFlightGain_def LatencyBudgetSec_def
  MinimumWindowFrameRate_def ProducerFpsEwmaAlpha_def RttEwmaAlpha_def MinimumValidRttMs_def
  MaximumValidRttMs_def

record video_rate =
  requestedFrameRate :: int
  maxInFlight :: int
  producedFrames :: u64
  lastProducedFrames :: u64
  lastProducerRateUpdate :: ticks
  smoothedProducerFps :: real
  smoothedRttMs :: real
  hasSmoothedRtt :: bool
  baseRttMs :: real
  hasBaseRtt :: bool

definition rate_init :: video_rate where
  "rate_init = \<lparr>requestedFrameRate = 60, maxInFlight = MaximumInFlightFrames, producedFrames = 0,
     lastProducedFrames = 0, lastProducerRateUpdate = 0,
     smoothedProducerFps = MinimumWindowFrameRate, smoothedRttMs = 0, hasSmoothedRtt = False,
     baseRttMs = 0, hasBaseRtt = False\<rparr>"

section \<open>Operations\<close>

text \<open>\<open>duration<double>\<close> and \<open>duration<double, std::milli>\<close> of a tick count.\<close>

definition seconds_of :: "ticks \<Rightarrow> real" where
  "seconds_of t = fl (fl (real_of_int t) / 1000000000)"

definition millis_of :: "ticks \<Rightarrow> real" where
  "millis_of t = fl (fl (real_of_int t) / 1000000)"

definition fps_ceiling :: "video_rate \<Rightarrow> real" where
  "fps_ceiling r = max MinimumWindowFrameRate (real_of_int (requestedFrameRate r))"

definition clampFps :: "video_rate \<Rightarrow> real \<Rightarrow> real" where
  "clampFps r f = clamp f MinimumWindowFrameRate (fps_ceiling r)"

definition effectiveProducerFps :: "ticks \<Rightarrow> video_rate \<Rightarrow> real \<times> video_rate" where
  "effectiveProducerFps now r =
     (let total_frames = producedFrames r
      in if lastProducerRateUpdate r = 0
         then
           let fps = clampFps r (real_of_int (requestedFrameRate r))
           in (fps, r\<lparr>lastProducerRateUpdate := now, lastProducedFrames := total_frames,
                      smoothedProducerFps := fps\<rparr>)
         else
           let elapsedSec = seconds_of (now - lastProducerRateUpdate r);
               delta = total_frames - lastProducedFrames r;
               r1 = r\<lparr>lastProducerRateUpdate := now, lastProducedFrames := total_frames\<rparr>
           in if elapsedSec \<le> 0 \<or> delta = 0 then (clampFps r1 (smoothedProducerFps r1), r1)
              else
                let instantFps = fl (fl (real_of_int (uint delta)) / elapsedSec);
                    fps = fl (fl (smoothedProducerFps r1 * (1 - ProducerFpsEwmaAlpha)) +
                              fl (instantFps * ProducerFpsEwmaAlpha));
                    r2 = r1\<lparr>smoothedProducerFps := fps\<rparr>
                in (clampFps r2 fps, r2))"

definition valid_rtt :: "real \<Rightarrow> bool" where
  "valid_rtt rttMs \<longleftrightarrow> rttMs \<ge> MinimumValidRttMs \<and> rttMs < MaximumValidRttMs"

definition update_base_rtt :: "real \<Rightarrow> video_rate \<Rightarrow> video_rate" where
  "update_base_rtt rttMs r =
     (if \<not> hasBaseRtt r \<or> rttMs < baseRttMs r then r\<lparr>baseRttMs := rttMs, hasBaseRtt := True\<rparr> else r)"

definition update_smoothed_rtt :: "real \<Rightarrow> video_rate \<Rightarrow> video_rate" where
  "update_smoothed_rtt rttMs r =
     (if \<not> hasSmoothedRtt r then r\<lparr>smoothedRttMs := rttMs, hasSmoothedRtt := True\<rparr>
      else r\<lparr>smoothedRttMs := fl (fl ((1 - RttEwmaAlpha) * smoothedRttMs r) + fl (RttEwmaAlpha * rttMs))\<rparr>)"

definition window_of :: "real \<Rightarrow> video_rate \<Rightarrow> int" where
  "window_of fps r =
     (let effectiveRttMs = max (baseRttMs r) (smoothedRttMs r);
          rttSec = fl (effectiveRttMs / 1000);
          bdp = \<lceil>fl (fl (fps * rttSec) * InFlightGain)\<rceil>;
          cap = max MaximumInFlightFrames \<lceil>fl (fps * LatencyBudgetSec)\<rceil>
      in clamp bdp MaximumInFlightFrames cap)"

definition updateInFlightWindow :: "ticks \<Rightarrow> ticks \<Rightarrow> video_rate \<Rightarrow> video_rate" where
  "updateInFlightWindow now averageRTT r =
     (let (fps, r1) = effectiveProducerFps now r;
          rttMs = millis_of averageRTT
      in if valid_rtt rttMs
         then
           let r2 = update_smoothed_rtt rttMs (update_base_rtt rttMs r1)
           in r2\<lparr>maxInFlight := window_of fps r2\<rparr>
         else r1\<lparr>maxInFlight := MaximumInFlightFrames\<rparr>)"

definition frame_produced :: "video_rate \<Rightarrow> video_rate" where
  "frame_produced r = r\<lparr>producedFrames := producedFrames r + 1\<rparr>"

datatype rate_event = FrameProduced | RttChangedAt ticks ticks

fun rate_step :: "rate_event \<Rightarrow> video_rate \<Rightarrow> video_rate" where
  "rate_step FrameProduced r = frame_produced r"
| "rate_step (RttChangedAt now averageRTT) r = updateInFlightWindow now averageRTT r"

section \<open>Bounds\<close>

lemma fps_bounds:
  "MinimumWindowFrameRate \<le> fst (effectiveProducerFps now r)"
  "fst (effectiveProducerFps now r) \<le> fps_ceiling r"
  by (auto simp: effectiveProducerFps_def Let_def clampFps_def fps_ceiling_def
      intro!: clamp_bounds)

lemma effectiveProducerFps_frame:
  "requestedFrameRate (snd (effectiveProducerFps now r)) = requestedFrameRate r"
  "maxInFlight (snd (effectiveProducerFps now r)) = maxInFlight r"
  "baseRttMs (snd (effectiveProducerFps now r)) = baseRttMs r"
  "hasBaseRtt (snd (effectiveProducerFps now r)) = hasBaseRtt r"
  "smoothedRttMs (snd (effectiveProducerFps now r)) = smoothedRttMs r"
  "hasSmoothedRtt (snd (effectiveProducerFps now r)) = hasSmoothedRtt r"
  by (simp_all add: effectiveProducerFps_def Let_def)

lemma rtt_updates_frame [simp]:
  "requestedFrameRate (update_base_rtt x r) = requestedFrameRate r"
  "requestedFrameRate (update_smoothed_rtt x r) = requestedFrameRate r"
  "baseRttMs (update_smoothed_rtt x r) = baseRttMs r"
  "hasBaseRtt (update_smoothed_rtt x r) = hasBaseRtt r"
  by (simp_all add: update_base_rtt_def update_smoothed_rtt_def)

lemma ceiling_is_int: "fps_ceiling r = real_of_int (max 5 (requestedFrameRate r))"
  by (simp add: fps_ceiling_def window_consts max_def)

lemma window_of_bounds:
  assumes "fps \<le> fps_ceiling r" and "requestedFrameRate r < 2 ^ 31"
  shows "2 \<le> window_of fps r" and "window_of fps r \<le> max 5 (requestedFrameRate r)"
proof -
  show "2 \<le> window_of fps r"
    by (auto simp: window_of_def Let_def MaximumInFlightFrames_def intro: clamp_bounds)
  have "fl (fps * LatencyBudgetSec) \<le> fl (real_of_int (max 5 (requestedFrameRate r)))"
    using assms(1) by (auto simp: LatencyBudgetSec_def ceiling_is_int intro: fl_mono)
  also have "\<dots> = real_of_int (max 5 (requestedFrameRate r))"
    using assms(2) by (intro fl_of_int) (auto simp: abs_if)
  finally have "\<lceil>fl (fps * LatencyBudgetSec)\<rceil> \<le> max 5 (requestedFrameRate r)"
    by (simp add: ceiling_le_iff)
  then have "max MaximumInFlightFrames \<lceil>fl (fps * LatencyBudgetSec)\<rceil> \<le> max 5 (requestedFrameRate r)"
    by (simp add: MaximumInFlightFrames_def)
  moreover have "window_of fps r \<le> max MaximumInFlightFrames \<lceil>fl (fps * LatencyBudgetSec)\<rceil>"
    unfolding window_of_def Let_def by (rule clamp_bounds(2)) simp
  ultimately show "window_of fps r \<le> max 5 (requestedFrameRate r)" by linarith
qed

definition rate_inv :: "video_rate \<Rightarrow> bool" where
  "rate_inv r \<longleftrightarrow> requestedFrameRate r = 60 \<and> 2 \<le> maxInFlight r \<and> maxInFlight r \<le> 60"

lemma updateInFlightWindow_inv:
  assumes "rate_inv r" shows "rate_inv (updateInFlightWindow now avg r)"
proof -
  obtain fps r1 where e: "effectiveProducerFps now r = (fps, r1)"
    by (cases "effectiveProducerFps now r")
  have r1: "requestedFrameRate r1 = 60" and fps: "fps \<le> fps_ceiling r"
    using assms effectiveProducerFps_frame(1) [of now r] fps_bounds [of now r] e
    by (simp_all add: rate_inv_def)
  define r2 where "r2 = update_smoothed_rtt (millis_of avg) (update_base_rtt (millis_of avg) r1)"
  have r2: "requestedFrameRate r2 = 60" using r1 by (simp add: r2_def)
  have "fps \<le> fps_ceiling r2" using fps assms r2 by (simp add: fps_ceiling_def rate_inv_def)
  then have "2 \<le> window_of fps r2 \<and> window_of fps r2 \<le> 60"
    using window_of_bounds [of fps r2] r2 by simp
  then show ?thesis
    using r1 r2 by (simp add: updateInFlightWindow_def e Let_def rate_inv_def MaximumInFlightFrames_def
        flip: r2_def)
qed

interpretation rate: machine rate_step rate_init "\<lambda>e. True" rate_inv
proof unfold_locales
  show "rate_inv rate_init" by (simp add: rate_inv_def rate_init_def MaximumInFlightFrames_def)
  show "rate_inv (rate_step e r)" if "rate_inv r" for r e
    using that updateInFlightWindow_inv by (cases e) (auto simp: frame_produced_def rate_inv_def)
qed

text \<open>
C14. Whatever round-trip times are measured and however many frames the producer delivers, and
although every double is rounded, the in-flight window always lies between the two frames of the
floor and one second of video at the requested 60 frames.
\<close>

theorem in_flight_window_bounded:
  "2 \<le> maxInFlight (fold rate_step es rate_init) \<and> maxInFlight (fold rate_step es rate_init) \<le> 60"
  using rate.inv_reach [of es] by (simp add: rate_inv_def list_all_iff)

section \<open>The window never drops below the path's bandwidth-delay product\<close>

fun rtts_of :: "rate_event list \<Rightarrow> real list" where
  "rtts_of [] = []"
| "rtts_of (FrameProduced # es) = rtts_of es"
| "rtts_of (RttChangedAt now a # es) =
     (if valid_rtt (millis_of a) then millis_of a # rtts_of es else rtts_of es)"

lemma rtts_of_append: "rtts_of (es @ es') = rtts_of es @ rtts_of es'"
  by (induction es rule: rtts_of.induct) auto

definition base_is_min :: "real list \<Rightarrow> video_rate \<Rightarrow> bool" where
  "base_is_min xs r \<longleftrightarrow> (hasBaseRtt r \<longleftrightarrow> xs \<noteq> []) \<and> (xs \<noteq> [] \<longrightarrow> baseRttMs r = Min (set xs))"

lemma update_base_rtt_min:
  assumes "base_is_min xs r" shows "base_is_min (xs @ [x]) (update_base_rtt x r)"
proof (cases "xs = []")
  case False
  define m where "m = Min (set xs)"
  have m: "Min (set (xs @ [x])) = min x m" using False by (simp add: m_def)
  have "hasBaseRtt r" and "baseRttMs r = m" using assms False by (simp_all add: base_is_min_def m_def)
  then show ?thesis unfolding base_is_min_def m by (auto simp: update_base_rtt_def)
qed (use assms in \<open>simp add: base_is_min_def update_base_rtt_def\<close>)

lemma base_is_min_frame:
  "base_is_min xs r \<Longrightarrow> baseRttMs r' = baseRttMs r \<Longrightarrow> hasBaseRtt r' = hasBaseRtt r \<Longrightarrow> base_is_min xs r'"
  by (simp add: base_is_min_def)

lemma rate_step_min:
  assumes "base_is_min xs r"
  shows "base_is_min (xs @ rtts_of [e]) (rate_step e r)"
proof (cases e)
  case FrameProduced
  then show ?thesis using base_is_min_frame [OF assms] by (simp add: frame_produced_def)
next
  case (RttChangedAt now a)
  obtain fps r1 where e1: "effectiveProducerFps now r = (fps, r1)"
    by (cases "effectiveProducerFps now r")
  have r1: "base_is_min xs r1"
    using effectiveProducerFps_frame(3,4) [of now r] e1 base_is_min_frame [OF assms] by simp
  have "base_is_min (xs @ [x]) (update_smoothed_rtt x (update_base_rtt x r1))" for x
    using base_is_min_frame [OF update_base_rtt_min [OF r1]] by simp
  then show ?thesis
    using r1 RttChangedAt base_is_min_frame
    by (auto simp: updateInFlightWindow_def e1 Let_def base_is_min_def)
qed

lemma rate_run_min: "base_is_min (rtts_of es) (fold rate_step es rate_init)"
proof (induction es rule: rev_induct)
  case Nil
  then show ?case by (simp add: base_is_min_def rate_init_def)
next
  case (snoc e es)
  then show ?case using rate_step_min [OF snoc] by (simp add: rtts_of_append)
qed

text \<open>How many frames fit a round trip, within the floor and one second of video.\<close>

definition bdp_window :: "real \<Rightarrow> real \<Rightarrow> int" where
  "bdp_window fps rttMs =
     clamp \<lceil>fl (fl (fps * fl (rttMs / 1000)) * InFlightGain)\<rceil> 2 (max 2 \<lceil>fl (fps * LatencyBudgetSec)\<rceil>)"

lemma bdp_window_mono:
  assumes "a \<le> b" and "0 \<le> fps" shows "bdp_window fps a \<le> bdp_window fps b"
proof -
  have "fl (a / 1000) \<le> fl (b / 1000)" using assms(1) by (intro fl_mono) simp
  then have "fl (fps * fl (a / 1000)) \<le> fl (fps * fl (b / 1000))"
    using assms(2) by (auto intro!: fl_mono [of "fps * _"] mult_left_mono)
  then have "fl (fl (fps * fl (a / 1000)) * InFlightGain) \<le> fl (fl (fps * fl (b / 1000)) * InFlightGain)"
    by (intro fl_mono) (simp add: InFlightGain_def)
  then show ?thesis unfolding bdp_window_def by (intro clamp_mono ceiling_mono) auto
qed

text \<open>
The window follows the bandwidth-delay product: after a valid round-trip sample it is at least
the number of frames the estimated frame rate produces in the shortest valid round trip of the
session (within the floor and the latency budget), so a smoothed estimate that lags behind can never
starve the path; after an invalid sample it is the floor. The estimated rate is between 5 frames and
the requested rate.
\<close>

theorem window_covers_shortest_round_trip:
  fixes es :: "rate_event list"
  defines "r \<equiv> fold rate_step es rate_init"
  defines "fps \<equiv> \<lambda>now. fst (effectiveProducerFps now r)"
  shows "(valid_rtt (millis_of a) \<longrightarrow>
      bdp_window (fps now) (Min (set (rtts_of (es @ [RttChangedAt now a]))))
        \<le> maxInFlight (rate_step (RttChangedAt now a) r)) \<and>
    (\<not> valid_rtt (millis_of a) \<longrightarrow> maxInFlight (rate_step (RttChangedAt now a) r) = 2) \<and>
    5 \<le> fps now \<and> fps now \<le> 60"
proof -
  obtain f r1 where e: "effectiveProducerFps now r = (f, r1)" by (cases "effectiveProducerFps now r")
  have req: "requestedFrameRate r = 60"
    using rate.inv_reach [of es] by (simp add: rate_inv_def r_def list_all_iff)
  have f: "5 \<le> f" "f \<le> 60"
    using fps_bounds [of now r] req e by (simp_all add: ceiling_is_int MinimumWindowFrameRate_def)
  have min1: "base_is_min (rtts_of es) r1"
    using base_is_min_frame [OF rate_run_min] effectiveProducerFps_frame(3,4) [of now r] e
    by (simp add: r_def)
  define x where "x = millis_of a"
  define r2 where "r2 = update_smoothed_rtt x (update_base_rtt x r1)"
  have "baseRttMs r2 = Min (set (rtts_of es @ [x]))"
    using update_base_rtt_min [OF min1, of x] by (simp add: base_is_min_def r2_def)
  moreover have "bdp_window f (baseRttMs r2) \<le> window_of f r2"
    using bdp_window_mono [of "baseRttMs r2" "max (baseRttMs r2) (smoothedRttMs r2)" f] f
    by (simp add: window_of_def bdp_window_def Let_def MaximumInFlightFrames_def)
  ultimately show ?thesis
    using f
    by (simp add: fps_def e updateInFlightWindow_def Let_def rtts_of_append MaximumInFlightFrames_def
        flip: x_def r2_def)
qed

lemma millis_500: "millis_of (ms 500) = 500"
  by (simp add: millis_of_def)

lemma fl_half: "fl (1 / 2) = 1 / 2"
  using fl_dyadic [of 1 1] by simp

theorem window_covers_shortest_round_trip_witness:
  "30 \<le> maxInFlight (rate_step (RttChangedAt (sec 1) (ms 500)) rate_init)"
proof -
  have "fst (effectiveProducerFps (sec 1) rate_init) = 60"
    by (simp add: effectiveProducerFps_def rate_init_def Let_def clampFps_def clamp_def fps_ceiling_def
        MinimumWindowFrameRate_def)
  moreover have "bdp_window 60 500 = 30"
    by (simp add: bdp_window_def fl_half InFlightGain_def LatencyBudgetSec_def clamp_def)
  moreover have "valid_rtt 500"
    by (simp add: valid_rtt_def MinimumValidRttMs_def MaximumValidRttMs_def)
  ultimately show ?thesis
    using window_covers_shortest_round_trip [of "ms 500" "sec 1" "[]"]
    by (simp only: fold.simps id_apply millis_500 rtts_of.simps if_True append_Nil list.set) simp
qed

end
