(* ===== verification/VideoQuality.thy ===== *)
theory VideoQuality
  imports Prelude Doubles
begin

text \<open>
  The part of \<open>src/VideoStream.cpp\<close> that sets the quality of the H.264 encoder: the user's cap,
  the seed taken from the client's connection type, and the controller that follows the measured
  bandwidth (\<open>updateAdaptiveQuality\<close>). An operation returns whether it ends in
  \<open>applyQuality()\<close>, with the new state.
\<close>

datatype encoding_mode = H264 | Progressive

definition QualityUpdateInterval :: ticks where "QualityUpdateInterval = ms 1500"
definition MinAdaptiveQuality :: int where "MinAdaptiveQuality = 10"
definition QualityStepUp :: int where "QualityStepUp = 5"
definition QualityStepDown :: int where "QualityStepDown = 10"

lemmas quality_consts = QualityUpdateInterval_def MinAdaptiveQuality_def QualityStepUp_def
  QualityStepDown_def

record bitrate_anchor =
  anchor_pixels :: real
  anchor_kbit :: real

definition FullQualityBitrateAnchors :: "bitrate_anchor list" where
  "FullQualityBitrateAnchors =
     [\<lparr>anchor_pixels = 921600, anchor_kbit = 1500\<rparr>,
      \<lparr>anchor_pixels = 2073600, anchor_kbit = 3110\<rparr>,
      \<lparr>anchor_pixels = 3686400, anchor_kbit = 4500\<rparr>,
      \<lparr>anchor_pixels = 8294400, anchor_kbit = 7500\<rparr>]"

definition fullQualityKbit :: "real \<Rightarrow> real" where
  "fullQualityKbit pixels =
     (case min_element_by (\<lambda>a b. \<bar>fl (anchor_pixels a - pixels)\<bar> < \<bar>fl (anchor_pixels b - pixels)\<bar>)
             FullQualityBitrateAnchors of
        None \<Rightarrow> 0
      | Some nearest \<Rightarrow> fl (anchor_kbit nearest * fl (pixels / anchor_pixels nearest)))"

record video_quality =
  quality :: u8
  qualityCap :: u8
  adaptiveQuality :: bool
  lastQualityUpdate :: ticks

definition quality_init :: video_quality where
  "quality_init = \<lparr>quality = 100, qualityCap = 100, adaptiveQuality = True, lastQualityUpdate = 0\<rparr>"

section \<open>Operations\<close>

definition setVideoQuality :: "u8 \<Rightarrow> video_quality \<Rightarrow> bool \<times> video_quality" where
  "setVideoQuality q s =
     (True, s\<lparr>qualityCap := q, quality := (if adaptiveQuality s then min (quality s) q else q)\<rparr>)"

definition setAdaptiveQuality :: "bool \<Rightarrow> video_quality \<Rightarrow> bool \<times> video_quality" where
  "setAdaptiveQuality on s =
     (if adaptiveQuality s = on then (False, s)
      else
        let s1 = s\<lparr>adaptiveQuality := on\<rparr>
        in if \<not> on then (True, s1\<lparr>quality := qualityCap s1\<rparr>) else (False, s1))"

definition seedQuality :: "encoding_mode option \<Rightarrow> u8 \<Rightarrow> video_quality \<Rightarrow> bool \<times> video_quality" where
  "seedQuality mode q s =
     (if \<not> adaptiveQuality s \<or> mode \<noteq> Some H264 then (False, s)
      else
        let hi = max (qualityCap s) (word_of_int MinAdaptiveQuality)
        in (True, s\<lparr>quality := clamp q (word_of_int MinAdaptiveQuality) hi\<rparr>))"

text \<open>\<open>duration_cast<milliseconds>\<close>.\<close>

definition ms_count :: "ticks \<Rightarrow> int" where
  "ms_count t = (if 0 \<le> t then t div 1000000 else - ((- t) div 1000000))"

definition is_congested :: "ticks \<Rightarrow> ticks \<Rightarrow> bool" where
  "is_congested averageRTT minimumRTT \<longleftrightarrow>
     ms_count minimumRTT > 0 \<and> ms_count averageRTT > ms_count minimumRTT * 3 div 2"

definition surface_pixels :: "qsize \<Rightarrow> real" where
  "surface_pixels size_of = fl (real_of_int (width size_of) * real_of_int (height size_of))"

definition bandwidth_target :: "u32 \<Rightarrow> real \<Rightarrow> u8 \<Rightarrow> int" where
  "bandwidth_target goodputKbit pixels cap =
     (let fullKbit = fullQualityKbit pixels;
          hi = max (uint cap) MinAdaptiveQuality
      in clamp (to_int32 (lround (fl (fl (real_of_int (uint goodputKbit) / fullKbit) * 100))))
           MinAdaptiveQuality hi)"

definition next_quality :: "bool \<Rightarrow> int \<Rightarrow> int \<Rightarrow> int" where
  "next_quality congested target cur =
     (if target < cur then max target (cur - QualityStepDown)
      else if target > cur \<and> \<not> congested then min target (cur + QualityStepUp)
      else cur)"

definition updateAdaptiveQuality ::
  "encoding_mode option \<Rightarrow> u32 \<Rightarrow> ticks \<Rightarrow> qsize \<Rightarrow> ticks \<Rightarrow> ticks \<Rightarrow> video_quality \<Rightarrow> bool \<times> video_quality" where
  "updateAdaptiveQuality mode goodputKbit now size_of averageRTT minimumRTT s =
     (if \<not> adaptiveQuality s \<or> mode \<noteq> Some H264 then (False, s)
      else if goodputKbit = 0 then (False, s)
      else if now - lastQualityUpdate s < QualityUpdateInterval then (False, s)
      else if surface_pixels size_of \<le> 0 then (False, s)
      else
        let target = bandwidth_target goodputKbit (surface_pixels size_of) (qualityCap s);
            congested = is_congested averageRTT minimumRTT;
            target1 = (if congested
                       then clamp (uint (quality s) - QualityStepDown) MinAdaptiveQuality target
                       else target);
            next = next_quality congested target1 (uint (quality s))
        in if next = uint (quality s) then (False, s)
           else (True, s\<lparr>lastQualityUpdate := now, quality := word_of_int next\<rparr>))"

datatype quality_event =
    SetVideoQuality u8
  | SetAdaptiveQuality bool
  | SeedQuality "encoding_mode option" u8
  | BandwidthChangedAt "encoding_mode option" u32 ticks qsize ticks ticks

fun quality_step :: "quality_event \<Rightarrow> video_quality \<Rightarrow> video_quality" where
  "quality_step (SetVideoQuality q) s = snd (setVideoQuality q s)"
| "quality_step (SetAdaptiveQuality on) s = snd (setAdaptiveQuality on s)"
| "quality_step (SeedQuality mode q) s = snd (seedQuality mode q s)"
| "quality_step (BandwidthChangedAt mode kbit now sz avg mn) s =
     snd (updateAdaptiveQuality mode kbit now sz avg mn s)"

section \<open>The range of the quality\<close>

lemma target_bounds:
  "10 \<le> bandwidth_target g p cap" "bandwidth_target g p cap \<le> max (uint cap) 10"
  unfolding bandwidth_target_def Let_def MinAdaptiveQuality_def by (auto intro: clamp_bounds)

lemma next_quality_between:
  "next_quality c t q \<le> max q t" "min q t \<le> next_quality c t q"
  "q - 10 \<le> next_quality c t q" "next_quality c t q \<le> q + 5"
  by (auto simp: next_quality_def quality_consts)

lemma u8_bounds: "0 \<le> uint (q :: u8)" "uint q < 256"
  using uint_lt2p [of q] by simp_all

lemma uint_u8: "0 \<le> n \<Longrightarrow> n < 256 \<Longrightarrow> uint (word_of_int n :: u8) = n"
  by (simp add: uint_word_of_int)

text \<open>What an update that changes anything does, in numbers.\<close>

lemma update_changes:
  assumes "updateAdaptiveQuality mode g now sz avg mn s = (True, s')"
  shows "adaptiveQuality s" and "mode = Some H264" and "QualityUpdateInterval \<le> now - lastQualityUpdate s"
    and "lastQualityUpdate s' = now" and "qualityCap s' = qualityCap s" and "adaptiveQuality s'"
    and "uint (quality s') \<le> max (uint (quality s)) (max (uint (qualityCap s)) 10)"
    and "min (uint (quality s)) 10 \<le> uint (quality s')"
    and "uint (quality s) - 10 \<le> uint (quality s')" and "uint (quality s') \<le> uint (quality s) + 5"
    and "is_congested avg mn \<Longrightarrow> quality s' < quality s"
proof -
  let ?q = "uint (quality s)" and ?c = "is_congested avg mn"
  let ?t = "bandwidth_target g (surface_pixels sz) (qualityCap s)"
  define t where "t = (if ?c then clamp (?q - QualityStepDown) MinAdaptiveQuality ?t else ?t)"
  have t: "10 \<le> t" "t \<le> max (uint (qualityCap s)) 10"
    using target_bounds [of g "surface_pixels sz" "qualityCap s"]
    by (auto simp: t_def clamp_def quality_consts)
  define n where "n = next_quality ?c t ?q"
  have s': "s' = s\<lparr>lastQualityUpdate := now, quality := word_of_int n\<rparr>" and n: "n \<noteq> ?q"
    and g: "adaptiveQuality s" "mode = Some H264" "QualityUpdateInterval \<le> now - lastQualityUpdate s"
    using assms by (auto simp: updateAdaptiveQuality_def Let_def n_def t_def split: if_splits)
  have n_bounds: "n \<le> max ?q t" "min ?q t \<le> n" "?q - 10 \<le> n" "n \<le> ?q + 5"
    using next_quality_between by (simp_all add: n_def)
  have "0 \<le> n" and "n < 256"
    using n_bounds t u8_bounds [of "quality s"] u8_bounds [of "qualityCap s"] by linarith+
  then have q: "uint (quality s') = n" by (simp add: s' uint_u8)
  show "adaptiveQuality s" "mode = Some H264" "QualityUpdateInterval \<le> now - lastQualityUpdate s"
    "lastQualityUpdate s' = now" "qualityCap s' = qualityCap s" "adaptiveQuality s'"
    using g s' by simp_all
  show "uint (quality s') \<le> max ?q (max (uint (qualityCap s)) 10)" "min ?q 10 \<le> uint (quality s')"
    "?q - 10 \<le> uint (quality s')" "uint (quality s') \<le> ?q + 5"
    using n_bounds t unfolding q by linarith+
  show "quality s' < quality s" if "?c"
    using that n q
    by (auto simp: word_less_def n_def next_quality_def t_def QualityStepDown_def split: if_splits)
qed

definition quality_inv :: "video_quality \<Rightarrow> bool" where
  "quality_inv s \<longleftrightarrow> uint (quality s) \<le> max (uint (qualityCap s)) 10 \<and>
     (\<not> adaptiveQuality s \<longrightarrow> quality s = qualityCap s)"

lemma update_keeps:
  "snd (updateAdaptiveQuality mode g now sz avg mn s) = s \<or>
   (\<exists>s'. updateAdaptiveQuality mode g now sz avg mn s = (True, s'))"
  by (auto simp: updateAdaptiveQuality_def Let_def)

lemma quality_step_inv:
  assumes "quality_inv s" shows "quality_inv (quality_step e s)"
proof (cases e)
  case (SetVideoQuality q)
  have "uint (min (quality s) q) \<le> max (uint q) 10" by (auto simp: min_def word_le_def)
  then show ?thesis using SetVideoQuality by (simp add: setVideoQuality_def quality_inv_def)
next
  case (SetAdaptiveQuality on)
  then show ?thesis using assms by (auto simp: setAdaptiveQuality_def Let_def quality_inv_def)
next
  case (SeedQuality mode q)
  let ?hi = "max (qualityCap s) (10 :: u8)"
  have hi: "uint ?hi = max (uint (qualityCap s)) 10" by (simp add: max_def word_le_def)
  have "clamp q 10 ?hi \<le> ?hi" by (rule clamp_bounds) simp
  then have "uint (clamp q 10 ?hi) \<le> max (uint (qualityCap s)) 10"
    unfolding word_le_def hi .
  then show ?thesis using SeedQuality assms
    by (auto simp: seedQuality_def Let_def quality_inv_def MinAdaptiveQuality_def)
next
  case (BandwidthChangedAt mode g now sz avg mn)
  consider "quality_step e s = s" | s' where "updateAdaptiveQuality mode g now sz avg mn s = (True, s')"
    using update_keeps [of mode g now sz avg mn s] BandwidthChangedAt by auto
  then show ?thesis
  proof cases
    case 2
    note ch = update_changes [OF this]
    have "quality_step e s = s'" using 2 BandwidthChangedAt by simp
    then show ?thesis using ch(5,6,7) assms by (auto simp: quality_inv_def)
  qed (use assms in simp)
qed

interpretation qual: machine quality_step quality_init "\<lambda>e. True" quality_inv
proof unfold_locales
  show "quality_inv quality_init" by (simp add: quality_inv_def quality_init_def)
qed (rule quality_step_inv)

text \<open>
The encoder's quality never exceeds the larger of the user's cap and the controller's floor of
10, whatever caps, seeds and bandwidth measurements come in; and with adaptive quality switched off
it is exactly the cap.
\<close>

theorem quality_below_cap_or_floor:
  "uint (quality (fold quality_step es quality_init))
     \<le> max (uint (qualityCap (fold quality_step es quality_init))) 10 \<and>
   (adaptiveQuality (fold quality_step es quality_init) \<or>
    quality (fold quality_step es quality_init) = qualityCap (fold quality_step es quality_init))"
  using qual.inv_reach [of es] by (auto simp: quality_inv_def list_all_iff)

text \<open>
The controller never jumps and never flaps: an update that changes the quality is at least 1.5
seconds after the previous one, lowers it by at most 10 or raises it by at most 5, keeps a quality of
at least 10 at or above 10, and under congestion (an average round trip above one and a half times
the shortest) can only lower it.
\<close>

theorem adaptive_quality_moves_slowly:
  assumes "updateAdaptiveQuality mode kbit now sz avg mn s = (True, s')"
  shows "lastQualityUpdate s + 1500000000 \<le> lastQualityUpdate s' \<and>
    uint (quality s) - 10 \<le> uint (quality s') \<and> uint (quality s') \<le> uint (quality s) + 5 \<and>
    min 10 (uint (quality s)) \<le> uint (quality s') \<and>
    (is_congested avg mn \<longrightarrow> quality s' < quality s)"
  using update_changes [OF assms] by (simp add: QualityUpdateInterval_def min.commute)

theorem adaptive_quality_moves_slowly_witness:
  "\<exists>s'. updateAdaptiveQuality (Some H264) 311 (sec 5) \<lparr>width = 1920, height = 1080\<rparr> 0 0
      (quality_init\<lparr>qualityCap := 10\<rparr>) = (True, s') \<and> uint (quality s') \<ge> 90"
proof -
  let ?s = "quality_init\<lparr>qualityCap := 10\<rparr>" and ?sz = "\<lparr>width = 1920, height = 1080\<rparr>"
  have "bandwidth_target 311 (surface_pixels ?sz) 10 = 10"
    using target_bounds [of 311 "surface_pixels ?sz" 10] by simp
  then obtain s' where u: "updateAdaptiveQuality (Some H264) 311 (sec 5) ?sz 0 0 ?s = (True, s')"
    by (simp add: updateAdaptiveQuality_def quality_init_def surface_pixels_def Let_def is_congested_def
        ms_count_def next_quality_def quality_consts)
  show ?thesis
    using adaptive_quality_moves_slowly [OF u] u by (simp add: quality_init_def)
qed

section \<open>Convergence\<close>

fun spaced :: "ticks \<Rightarrow> ticks list \<Rightarrow> bool" where
  "spaced t [] = True"
| "spaced t (n # ns) = (t + QualityUpdateInterval \<le> n \<and> spaced n ns)"

lemma spaced_earlier: "t' \<le> t \<Longrightarrow> spaced t ns \<Longrightarrow> spaced t' ns"
  by (cases ns) auto

text \<open>One update under a steady bandwidth moves the quality at least 5 towards the target.\<close>

lemma update_approaches:
  assumes s: "adaptiveQuality s" "0 < g" "0 < surface_pixels sz" "\<not> is_congested avg mn"
    and now: "lastQualityUpdate s + QualityUpdateInterval \<le> now"
    and T: "T = bandwidth_target g (surface_pixels sz) (qualityCap s)"
  defines "s' \<equiv> snd (updateAdaptiveQuality (Some H264) g now sz avg mn s)"
  shows "\<bar>uint (quality s') - T\<bar> \<le> max 0 (\<bar>uint (quality s) - T\<bar> - 5)"
    and "adaptiveQuality s'" and "qualityCap s' = qualityCap s" and "lastQualityUpdate s' \<le> now"
proof -
  let ?q = "uint (quality s)"
  have T_bounds: "10 \<le> T" "T \<le> 255"
    using target_bounds [of g "surface_pixels sz" "qualityCap s"] u8_bounds [of "qualityCap s"]
    unfolding T by linarith+
  have s': "s' = (if next_quality False T ?q = ?q then s
      else s\<lparr>lastQualityUpdate := now, quality := word_of_int (next_quality False T ?q)\<rparr>)"
    using s now unfolding s'_def updateAdaptiveQuality_def Let_def T by auto
  have n: "0 \<le> next_quality False T ?q" "next_quality False T ?q < 256"
    using next_quality_between(1,2) [where c = False and t = T and q = ?q] T_bounds u8_bounds [of "quality s"] by linarith+
  have "uint (quality s') = next_quality False T ?q"
    using uint_u8 [OF n] by (simp add: s')
  moreover have "\<bar>next_quality False T ?q - T\<bar> \<le> max 0 (\<bar>?q - T\<bar> - 5)"
    by (auto simp: next_quality_def quality_consts)
  ultimately show "\<bar>uint (quality s') - T\<bar> \<le> max 0 (\<bar>?q - T\<bar> - 5)" by simp
  show "adaptiveQuality s'" "qualityCap s' = qualityCap s" "lastQualityUpdate s' \<le> now"
    using s now by (auto simp: s' QualityUpdateInterval_def)
qed

text \<open>
C16. Under a steady bandwidth without congestion the quality reaches the value that bandwidth calls
for and stays there: 51 updates at least 1.5 seconds apart are enough from any starting point.
\<close>

theorem adaptive_quality_converges:
  assumes "adaptiveQuality s" and "0 < g" and "0 < surface_pixels sz" and "\<not> is_congested avg mn"
    and "spaced (lastQualityUpdate s) nows" and "51 \<le> length nows"
  shows "uint (quality (fold (\<lambda>now s. snd (updateAdaptiveQuality (Some H264) g now sz avg mn s)) nows s)) =
    bandwidth_target g (surface_pixels sz) (qualityCap s)"
proof -
  let ?T = "bandwidth_target g (surface_pixels sz) (qualityCap s)"
  let ?run = "fold (\<lambda>now s. snd (updateAdaptiveQuality (Some H264) g now sz avg mn s))"
  have run: "\<bar>uint (quality (?run ns x)) - ?T\<bar> \<le> max 0 (\<bar>uint (quality x) - ?T\<bar> - 5 * int (length ns))"
    if "adaptiveQuality x" "qualityCap x = qualityCap s" "spaced (lastQualityUpdate x) ns" for ns x
    using that
  proof (induction ns arbitrary: x)
    case (Cons n ns)
    have now: "lastQualityUpdate x + QualityUpdateInterval \<le> n" and ns: "spaced n ns"
      using Cons.prems(3) by simp_all
    note step = update_approaches
      [OF Cons.prems(1) assms(2-4) now, of ?T, unfolded Cons.prems(2), OF refl]
    show ?case
      using Cons.IH [OF step(2) step(3) spaced_earlier [OF step(4) ns]] step(1) by simp
  qed simp
  have "\<bar>uint (quality s) - ?T\<bar> \<le> 255"
    using target_bounds [of g "surface_pixels sz" "qualityCap s"] u8_bounds [of "quality s"]
      u8_bounds [of "qualityCap s"] by linarith
  then show ?thesis using run [OF assms(1) refl assms(5)] assms(6) by simp
qed

theorem adaptive_quality_converges_witness:
  "uint (quality (fold (\<lambda>now s. snd (updateAdaptiveQuality (Some H264) 311 now
       \<lparr>width = 1920, height = 1080\<rparr> 0 0 s)) (map (\<lambda>k. sec 2 * int k) [1..<52])
     (quality_init\<lparr>qualityCap := 10\<rparr>))) = 10"
proof -
  let ?s = "quality_init\<lparr>qualityCap := 10\<rparr>"
  have "bandwidth_target 311 (surface_pixels \<lparr>width = 1920, height = 1080\<rparr>) 10 = 10"
    using target_bounds [of 311 "surface_pixels \<lparr>width = 1920, height = 1080\<rparr>" 10] by simp
  moreover have "spaced (lastQualityUpdate ?s) (map (\<lambda>k. sec 2 * int k) [1..<52])"
    by (simp add: upt_rec quality_init_def QualityUpdateInterval_def)
  ultimately show ?thesis
    using adaptive_quality_converges [of ?s 311 "\<lparr>width = 1920, height = 1080\<rparr>" 0 0
        "map (\<lambda>k. sec 2 * int k) [1..<52]"]
    by (simp add: quality_init_def surface_pixels_def is_congested_def ms_count_def)
qed

end
