(* ===== verification/VideoStreamSurface.thy ===== *)
theory VideoStreamSurface
  imports VideoWindow VideoQuality Connection_Types
begin

unbundle bit_operations_syntax

text \<open>
  The types of the video pipeline (\<open>src/VideoFrame.h\<close>, \<open>src/VideoStreamSurface.h\<close>,
  \<open>VideoStream::Private\<close>) and the operations of \<open>src/VideoStreamSurface.cpp\<close>. A surface
  calls back into its stream, so both work on one record. KPipeWire's streams are objects that are
  there or not (\<open>encodedStream\<close>, \<open>sourceStream\<close>); what the code tells them, FreeRDP, the
  session and its own listeners is appended to \<open>vs_log\<close>; what it is told back (status codes, a
  stream's size, the time of day) is an argument of the operation that asks.
\<close>

section \<open>Types\<close>

record video_frame =
  frame_size :: qsize
  frame_data :: "u8 list"
  frame_image :: qimage
  damage :: qregion
  isKeyFrame :: bool
  presentationTimeStamp :: ticks

record gfx_surface =
  surf_id :: u16
  codecContextId :: u32
  surf_size :: qsize

definition no_surface :: gfx_surface where
  "no_surface = \<lparr>surf_id = 0, codecContextId = 0, surf_size = qsize_default\<rparr>"

record video_surface =
  encodedStream :: bool
  sourceStream :: bool
  nodeId :: u32
  pipeWireFd :: int
  objectSerial :: u64
  surface :: gfx_surface
  vsize :: qsize
  requestedSize :: qsize
  pendingReset :: bool

type_synonym rect16 = "u16 \<times> u16 \<times> u16 \<times> u16"

datatype codec = RDPGFX_CODECID_AVC420 | RDPGFX_CODECID_CAPROGRESSIVE

text \<open>
  A capability set of the graphics channel: its version and its flags. The \<open>bool\<close> of a call says
  whether it succeeded, where the code goes on differently.
\<close>

type_synonym capset = "u32 \<times> u32"

datatype video_out =
    \<comment> \<open>to KPipeWire's encoded stream\<close>
    EncNew u8 int
  | EncStop
  | EncSetRequestedSize qsize
  | EncSetSource u64 u32
  | EncSetFd int
  | EncStart
  | EncResume
  | EncPause
  | EncSetQuality u8
  | EncSetPaused bool
    \<comment> \<open>to KPipeWire's source stream\<close>
  | SrcNew u32
  | SrcStop
  | SrcSetRequestedSize qsize
  | SrcCreateBySerial u64 int
  | SrcCreateByNode u32 int
  | SrcSetActive bool
    \<comment> \<open>to the session and the listeners\<close>
  | SessionClose close_reason
  | SizeChanged qsize
  | EnabledChanged
  | StreamClosed
  | QueueUpdateBackpressure
    \<comment> \<open>to FreeRDP\<close>
  | GfxInitialize
  | GfxOpen
  | GfxClose
  | CapsConfirm capset
  | ResetGraphics int int
  | CreateSurface u16 int int bool
  | MapSurfaceToOutput u16
  | DeleteEncodingContext u16 u32
  | DeleteSurface u16
  | ProgressiveCreate u16 int int bool
  | ProgressiveDelete u16
  | DesktopResize int int
  | StartFrame u32 u32 bool
  | SurfaceCommand u16 codec "int \<times> int" "u8 list" "rect16 list"
  | EndFrame u32
  | SurfaceFrameCommand u16 u32 rect16 "int \<times> int" "u8 list" u32 u32

record video_stream =
  activeEncodingMode :: "encoding_mode option"
  surf :: video_surface
  gfxContext :: bool
  progressive :: bool
  frameId :: u32
  channelId :: u32
  nextSurfaceId :: u16
  vs_enabled :: bool
  streamingEnabled :: bool
  capsConfirmed :: bool
  channelOpen :: bool
  frameSubmissionThread :: bool
  frameQueue :: "video_frame list"
  pendingFrames :: "u32 list"
  frameAcknowledgementSuspended :: bool
  rate :: video_rate
  qual :: video_quality
  initialized :: bool
  vs_log :: "video_out list"

definition surface_init :: video_surface where
  "surface_init = \<lparr>encodedStream = False, sourceStream = False, nodeId = 0, pipeWireFd = -1,
     objectSerial = - 1, surface = no_surface, vsize = qsize_default, requestedSize = qsize_default,
     pendingReset = True\<rparr>"

definition stream_init :: video_stream where
  "stream_init = \<lparr>activeEncodingMode = None, surf = surface_init, gfxContext = False,
     progressive = False, frameId = 0, channelId = 0, nextSurfaceId = 1, vs_enabled = False,
     streamingEnabled = False, capsConfirmed = False, channelOpen = False,
     frameSubmissionThread = False, frameQueue = [], pendingFrames = [],
     frameAcknowledgementSuspended = False, rate = rate_init, qual = quality_init,
     initialized = False, vs_log = []\<rparr>"

definition vs_emit :: "video_out list \<Rightarrow> video_stream \<Rightarrow> video_stream" where
  "vs_emit xs s = s\<lparr>vs_log := vs_log s @ xs\<rparr>"

definition upd_surf :: "(video_surface \<Rightarrow> video_surface) \<Rightarrow> video_stream \<Rightarrow> video_stream" where
  "upd_surf f s = s\<lparr>surf := f (surf s)\<rparr>"

section \<open>Calls back into the stream\<close>

definition setSize :: "qsize \<Rightarrow> video_stream \<Rightarrow> video_stream" where
  "setSize newSize s =
     (if vsize (surf s) = newSize then s
      else vs_emit [SizeChanged newSize] (upd_surf (\<lambda>v. v\<lparr>vsize := newSize\<rparr>) s))"

definition failVideoInitialization :: "video_stream \<Rightarrow> video_stream" where
  "failVideoInitialization s = vs_emit [SessionClose VideoInitFailed] s"

section \<open>Operations\<close>

text \<open>The streams of the previous mode are stopped and dropped.\<close>

definition drop_streams :: "video_stream \<Rightarrow> video_stream" where
  "drop_streams s =
     (let s1 = (if encodedStream (surf s)
                then vs_emit [EncStop] (upd_surf (\<lambda>v. v\<lparr>encodedStream := False\<rparr>) s) else s)
      in if sourceStream (surf s1)
         then vs_emit [SrcStop] (upd_surf (\<lambda>v. v\<lparr>sourceStream := False\<rparr>) s1) else s1)"

definition setup_encoded :: "u8 \<Rightarrow> int \<Rightarrow> video_stream \<Rightarrow> video_stream" where
  "setup_encoded q frameRate s =
     (let v = surf s
      in vs_emit
           ([EncNew q frameRate] @
            (if qsize_isValid (requestedSize v) then [EncSetRequestedSize (requestedSize v)] else []) @
            (if nodeId v \<noteq> 0
             then [EncSetSource (objectSerial v) (nodeId v)] @
                  (if pipeWireFd v > 0 then [EncSetFd (pipeWireFd v)] else [])
             else []) @
            (if streamingEnabled s \<and> nodeId v \<noteq> 0 then [EncStart] else []))
           (upd_surf (\<lambda>v. v\<lparr>encodedStream := True\<rparr>) s))"

definition create_call :: "video_surface \<Rightarrow> int \<Rightarrow> video_out" where
  "create_call v fd =
     (if objectSerial v \<noteq> - 1 then SrcCreateBySerial (objectSerial v) fd else SrcCreateByNode (nodeId v) fd)"

text \<open>
  \<open>created\<close> is what \<open>createStream\<close> returns, \<open>sourceSize\<close> the stream's \<open>size()\<close> then.
\<close>

definition setup_source :: "bool \<Rightarrow> qsize \<Rightarrow> int \<Rightarrow> video_stream \<Rightarrow> video_stream" where
  "setup_source created sourceSize frameRate s =
     (let s1 = vs_emit
                 ([SrcNew (word_of_int frameRate)] @
                  (if qsize_isValid (requestedSize (surf s))
                   then [SrcSetRequestedSize (requestedSize (surf s))] else []))
                 (upd_surf (\<lambda>v. v\<lparr>sourceStream := True\<rparr>) s);
          active = [SrcSetActive (streamingEnabled s \<and> nodeId (surf s) \<noteq> 0)]
      in if nodeId (surf s1) \<noteq> 0 \<and> pipeWireFd (surf s1) \<noteq> 0
         then
           let s2 = vs_emit [create_call (surf s1) (pipeWireFd (surf s1))] s1
           in if \<not> created then failVideoInitialization s2
              else vs_emit active (upd_surf (\<lambda>v. v\<lparr>vsize := sourceSize\<rparr>) s2)
         else vs_emit active s1)"

definition surface_setActiveEncodingMode ::
  "bool \<Rightarrow> qsize \<Rightarrow> encoding_mode \<Rightarrow> u8 \<Rightarrow> int \<Rightarrow> video_stream \<Rightarrow> video_stream" where
  "surface_setActiveEncodingMode created sourceSize mode q frameRate s =
     (let s1 = drop_streams s
      in if mode = H264 then setup_encoded q frameRate s1
         else setup_source created sourceSize frameRate s1)"

text \<open>\<open>paused\<close> is whether the encoder's \<open>state()\<close> is \<open>Paused\<close>.\<close>

definition surface_setStreamingEnabled :: "bool \<Rightarrow> bool \<Rightarrow> video_stream \<Rightarrow> video_stream" where
  "surface_setStreamingEnabled paused enabled s =
     (let on = enabled \<and> nodeId (surf s) \<noteq> 0;
          s1 = (if encodedStream (surf s)
                then vs_emit [if on then (if paused then EncResume else EncStart) else EncPause] s
                else s)
      in if sourceStream (surf s1) then vs_emit [SrcSetActive on] s1 else s1)"

definition surface_setVideoQuality :: "u8 \<Rightarrow> video_stream \<Rightarrow> video_stream" where
  "surface_setVideoQuality q s = (if encodedStream (surf s) then vs_emit [EncSetQuality q] s else s)"

definition surface_setRequestedSize :: "qsize \<Rightarrow> video_stream \<Rightarrow> video_stream" where
  "surface_setRequestedSize newSize s =
     (let s1 = upd_surf (\<lambda>v. v\<lparr>requestedSize := newSize\<rparr>) s;
          s2 = (if encodedStream (surf s1) then vs_emit [EncSetRequestedSize newSize] s1 else s1)
      in if sourceStream (surf s2) then vs_emit [SrcSetRequestedSize newSize] s2 else s2)"

definition surface_setPipeWireSource ::
  "bool \<Rightarrow> qsize \<Rightarrow> u32 \<Rightarrow> u64 \<Rightarrow> int \<Rightarrow> video_stream \<Rightarrow> video_stream" where
  "surface_setPipeWireSource created sourceSize newNodeId newObjectSerial fd s =
     (let s1 = upd_surf (\<lambda>v. v\<lparr>nodeId := newNodeId, objectSerial := newObjectSerial, pipeWireFd := fd\<rparr>) s;
          s2 = (if encodedStream (surf s1)
                then vs_emit ([EncSetSource newObjectSerial newNodeId, EncSetFd fd] @
                              (if streamingEnabled s1 then [EncStart] else [])) s1
                else s1)
      in if \<not> sourceStream (surf s2) then s2
         else
           let s3 = vs_emit [create_call (surf s2) fd] s2
           in if \<not> created then failVideoInitialization s3
              else vs_emit [SrcSetActive (streamingEnabled s3)] (setSize sourceSize s3))"

section \<open>Frames on the wire\<close>

definition u16_of :: "int \<Rightarrow> u16" where
  "u16_of n = word_of_int n"

definition toRectangle16 :: "qrect \<Rightarrow> rect16" where
  "toRectangle16 r =
     (u16_of (rx r), u16_of (ry r), u16_of (qrect_right r + 1), u16_of (qrect_bottom r + 1))"

text \<open>
  \<open>REGION16\<close> of FreeRDP, with the operations the code calls. \<open>r_union\<close> is \<open>None\<close> when
  \<open>region16_union_rect\<close> fails.
\<close>

record 'r region16 =
  r_empty :: 'r
  r_union :: "'r \<Rightarrow> rect16 \<Rightarrow> 'r option"
  r_is_empty :: "'r \<Rightarrow> bool"
  r_extents :: "'r \<Rightarrow> rect16"

fun union_rects :: "'r region16 \<Rightarrow> qrect list \<Rightarrow> 'r \<Rightarrow> 'r option" where
  "union_rects lib [] acc = Some acc"
| "union_rects lib (r # rs) acc =
     (if \<not> qrect_isValid r then union_rects lib rs acc
      else case r_union lib acc (toRectangle16 r) of
             None \<Rightarrow> None
           | Some acc' \<Rightarrow> union_rects lib rs acc')"

text \<open>\<open>rects_of\<close> is Qt's decomposition of a region into rectangles.\<close>

definition toRegion16 ::
  "(qregion \<Rightarrow> qrect list) \<Rightarrow> 'r region16 \<Rightarrow> qregion \<Rightarrow> qrect \<Rightarrow> 'r option" where
  "toRegion16 rects_of lib region frameRect =
     (let clipped = (if region = {} then rect_region frameRect else region \<inter> rect_region frameRect)
      in case union_rects lib (rects_of clipped) (r_empty lib) of
           None \<Rightarrow> None
         | Some acc \<Rightarrow>
             if r_is_empty lib acc then r_union lib acc (toRectangle16 frameRect) else Some acc)"

text \<open>Hour, minute, second and millisecond packed into the time stamp of a start-frame PDU.\<close>

type_synonym time_of_day = "int \<times> int \<times> int \<times> int"

definition gfx_timestamp :: "time_of_day \<Rightarrow> u32" where
  "gfx_timestamp t = (case t of (hour, minute, second, msec) \<Rightarrow>
     word_of_int (push_bit 22 hour OR push_bit 16 minute OR push_bit 10 second OR msec))"

text \<open>The status codes \<open>StartFrame\<close>, \<open>SurfaceCommand\<close> and \<open>EndFrame\<close> return.\<close>

record h264_answers =
  startStatus :: u32
  commandStatus :: u32
  endStatus :: u32

definition sendFrameH264 ::
  "time_of_day \<Rightarrow> h264_answers \<Rightarrow> u32 \<Rightarrow> video_frame \<Rightarrow> video_stream \<Rightarrow> bool \<times> video_stream" where
  "sendFrameH264 now ans fid frame s =
     (if frame_data frame = [] then (False, s)
      else if surf_id (surface (surf s)) = 0 then (False, s)
      else
        let w = width (frame_size frame); h = height (frame_size frame);
            s1 = vs_emit [StartFrame (gfx_timestamp now) fid (startStatus ans = CHANNEL_RC_OK)] s
        in if startStatus ans \<noteq> CHANNEL_RC_OK then (False, s1)
           else
             let s2 = vs_emit [SurfaceCommand (surf_id (surface (surf s1))) RDPGFX_CODECID_AVC420 (w, h)
                                 (frame_data frame) [(0, 0, u16_of w, u16_of h)]] s1;
                 s3 = vs_emit [EndFrame fid] s2
             in if endStatus ans \<noteq> CHANNEL_RC_OK then (False, s3) else (True, s3))"

text \<open>What \<open>progressive_compress\<close> gave (its status and its output) and what the channel said.\<close>

record progressive_answers =
  compressionStatus :: int
  encodedData :: "u8 list option"
  frameCommandStatus :: u32

definition sendFrameProgressive ::
  "(qregion \<Rightarrow> qrect list) \<Rightarrow> 'r region16 \<Rightarrow> ('r \<Rightarrow> progressive_answers) \<Rightarrow> time_of_day \<Rightarrow> u32 \<Rightarrow> video_frame \<Rightarrow>
   video_stream \<Rightarrow> bool \<times> video_stream" where
  "sendFrameProgressive rects_of lib compress now fid frame s =
     (if qimage_isNull (frame_image frame) then (False, s)
      else if surf_id (surface (surf s)) = 0 then (False, s)
      else
        let im = frame_image frame;
            frameRect = \<lparr>rx = 0, ry = 0, rw = img_width im, rh = img_height im\<rparr>
        in case toRegion16 rects_of lib (damage frame) frameRect of
             None \<Rightarrow> (False, s)
           | Some invalid \<Rightarrow>
               (case encodedData (compress invalid) of
                  None \<Rightarrow> (False, s)
                | Some bytes \<Rightarrow>
                    if compressionStatus (compress invalid) < 0 \<or> bytes = [] then (False, s)
                    else
                      let s1 = vs_emit [SurfaceFrameCommand (surf_id (surface (surf s)))
                                 (codecContextId (surface (surf s))) (r_extents lib invalid)
                                 (width (frame_size frame), height (frame_size frame)) bytes
                                 (gfx_timestamp now) fid] s
                      in if frameCommandStatus (compress invalid) \<noteq> CHANNEL_RC_OK then (False, s1)
                         else (True, s1)))"

section \<open>Frames from the source\<close>

text \<open>An encoded packet, and a raw frame of KPipeWire.\<close>

record packet =
  packet_data :: "u8 list"
  packet_isKeyFrame :: bool

definition onPacketReceived :: "packet \<Rightarrow> video_stream \<Rightarrow> video_frame" where
  "onPacketReceived data s =
     \<lparr>frame_size = vsize (surf s), frame_data = packet_data data,
      frame_image = \<lparr>img_format = 0, img_width = 0, img_height = 0, img_argb32 = []\<rparr>, damage = {},
      isKeyFrame = packet_isKeyFrame data, presentationTimeStamp = 0\<rparr>"

text \<open>
  \<open>dataFrame\<close> is the frame's memory image converted to RGB32; \<open>dmabuf\<close> is the size of a
  DMA-BUF, and \<open>download\<close> what \<open>DmaBufHandler::downloadFrame\<close> made of it.
\<close>

record pipewire_frame =
  dataFrame :: "(qsize \<times> qimage) option"
  dmabuf :: "(int \<times> int) option"
  frame_damage :: "qregion option"
  presentationTimestamp :: "ticks option"

definition us_count :: "ticks \<Rightarrow> int" where
  "us_count t = (if 0 \<le> t then t div 1000 else - ((- t) div 1000))"

definition onFrameReceived :: "qimage option \<Rightarrow> pipewire_frame \<Rightarrow> video_frame option" where
  "onFrameReceived download data =
     (let size_of = (case dataFrame data of
                       Some (sz, _) \<Rightarrow> sz
                     | None \<Rightarrow> (case dmabuf data of
                                 Some (w, h) \<Rightarrow> \<lparr>width = w, height = h\<rparr>
                               | None \<Rightarrow> \<lparr>width = 0, height = 0\<rparr>));
          dmg = (case frame_damage data of
                   Some r \<Rightarrow> r
                 | None \<Rightarrow> rect_region \<lparr>rx = 0, ry = 0, rw = width size_of, rh = height size_of\<rparr>);
          stamp = (case presentationTimestamp data of Some t \<Rightarrow> 1000 * us_count t | None \<Rightarrow> 0);
          frame = (\<lambda>im. \<lparr>frame_size = size_of, frame_data = [], frame_image = im, damage = dmg,
                     isKeyFrame = False, presentationTimeStamp = stamp\<rparr>)
      in case dataFrame data of
           Some (_, im) \<Rightarrow> Some (frame im)
         | None \<Rightarrow> (case dmabuf data of
                     None \<Rightarrow> None
                   | Some _ \<Rightarrow> (case download of None \<Rightarrow> None | Some im \<Rightarrow> Some (frame im))))"

section \<open>Time stamps\<close>

lemma or_disjoint:
  assumes "0 \<le> b" and "b < 2 ^ n" shows "x * 2 ^ n OR b = x * 2 ^ n + (b :: int)"
proof -
  have b: "take_bit n b = b" using assms by (simp add: take_bit_int_eq_self)
  have "push_bit n x OR take_bit n b = push_bit n x + take_bit n b"
    by (rule disjunctive_add [symmetric]) (auto simp: bit_push_bit_iff bit_take_bit_iff)
  then show ?thesis by (simp add: b push_bit_eq_mult)
qed

lemma low_digits:
  "0 \<le> (b :: int) \<Longrightarrow> b < k \<Longrightarrow> (a * k + b) div k = a" "0 \<le> b \<Longrightarrow> b < k \<Longrightarrow> (a * k + b) mod k = b"
  by (simp_all add: div_pos_pos_trivial mod_pos_pos_trivial)

lemma gfx_timestamp_sum:
  assumes "0 \<le> m" "m < 60" "0 \<le> sc" "sc < 60" "0 \<le> msec" "msec < 1000"
  shows "push_bit 22 h OR push_bit 16 m OR push_bit 10 sc OR msec =
    h * 2 ^ 22 + m * 2 ^ 16 + sc * 2 ^ 10 + (msec :: int)"
proof -
  have "push_bit 10 sc OR msec = sc * 2 ^ 10 + msec"
    using or_disjoint [of msec 10 sc] assms by (simp add: push_bit_eq_mult)
  moreover have "push_bit 16 m OR (sc * 2 ^ 10 + msec) = m * 2 ^ 16 + (sc * 2 ^ 10 + msec)"
    using or_disjoint [of "sc * 2 ^ 10 + msec" 16 m] assms by (simp add: push_bit_eq_mult)
  moreover have "push_bit 22 h OR (m * 2 ^ 16 + (sc * 2 ^ 10 + msec)) =
      h * 2 ^ 22 + (m * 2 ^ 16 + (sc * 2 ^ 10 + msec))"
    using or_disjoint [of "m * 2 ^ 16 + (sc * 2 ^ 10 + msec)" 22 h] assms by (simp add: push_bit_eq_mult)
  ultimately show ?thesis by simp
qed

text \<open>
The time stamp of a frame carries the time of day without loss: the client gets the hour, the
minute, the second and the millisecond back from bits 22 to 31, 16 to 21, 10 to 15 and 0 to 9.
\<close>

theorem gfx_timestamp_round_trip:
  assumes "0 \<le> hour" "hour < 24" "0 \<le> minute" "minute < 60" "0 \<le> second" "second < 60"
    "0 \<le> msec" "msec < 1000"
  shows "uint (gfx_timestamp (hour, minute, second, msec)) div 2 ^ 22 = hour \<and>
    uint (gfx_timestamp (hour, minute, second, msec)) div 2 ^ 16 mod 2 ^ 6 = minute \<and>
    uint (gfx_timestamp (hour, minute, second, msec)) div 2 ^ 10 mod 2 ^ 6 = second \<and>
    uint (gfx_timestamp (hour, minute, second, msec)) mod 2 ^ 10 = msec"
proof -
  define t where "t = hour * 2 ^ 22 + minute * 2 ^ 16 + second * 2 ^ 10 + msec"
  have "0 \<le> t" "t < 2 ^ 32" using assms by (simp_all add: t_def)
  then have u: "uint (gfx_timestamp (hour, minute, second, msec)) = t"
    unfolding gfx_timestamp_def prod.case gfx_timestamp_sum [OF assms(3-8)] t_def [symmetric]
    by (simp add: uint_word_of_int)
  have t: "t = ((hour * 64 + minute) * 64 + second) * 1024 + msec" by (simp add: t_def)
  have ms_part: "t div 1024 = (hour * 64 + minute) * 64 + second" "t mod 1024 = msec"
    unfolding t by (rule low_digits; use assms in simp)+
  have parts: "((hour * 64 + minute) * 64 + second) div 64 = hour * 64 + minute"
    "((hour * 64 + minute) * 64 + second) mod 64 = second"
    "(hour * 64 + minute) div 64 = hour" "(hour * 64 + minute) mod 64 = minute"
    by (rule low_digits; use assms in simp)+
  have split: "t div 65536 = t div 1024 div 64" "t div 4194304 = t div 65536 div 64"
    using zdiv_zmult2_eq [of 64 t 1024] zdiv_zmult2_eq [of 64 t 65536] by simp_all
  have "t div 4194304 = hour" "t div 65536 mod 64 = minute" "t div 1024 mod 64 = second"
    unfolding split ms_part parts by (rule refl)+
  then show ?thesis unfolding u using ms_part(2) by simp
qed

theorem gfx_timestamp_round_trip_witness:
  "uint (gfx_timestamp (23, 59, 58, 999)) div 2 ^ 10 mod 2 ^ 6 = 58"
  using gfx_timestamp_round_trip [of 23 59 58 999] by simp

section \<open>The damage region the codec sees\<close>

definition rect16_pixels :: "rect16 \<Rightarrow> qregion" where
  "rect16_pixels r = (case r of (l, t, ri, b) \<Rightarrow> {uint l..<uint ri} \<times> {uint t..<uint b})"

text \<open>
  What FreeRDP documents of \<open>REGION16\<close>: an empty region covers nothing, a successful union
  adds the pixels of the rectangle, and the test for emptiness is right.
\<close>

definition region16_ok :: "'r region16 \<Rightarrow> ('r \<Rightarrow> qregion) \<Rightarrow> bool" where
  "region16_ok lib cover \<longleftrightarrow> cover (r_empty lib) = {} \<and>
     (\<forall>a x b. r_union lib a x = Some b \<longrightarrow> cover b = cover a \<union> rect16_pixels x) \<and>
     (\<forall>a. r_is_empty lib a = (cover a = {}))"

lemma region16_okD:
  assumes "region16_ok lib cover"
  shows "cover (r_empty lib) = {}" and "r_is_empty lib a = (cover a = {})"
    and "r_union lib a x = Some b \<Longrightarrow> cover b = cover a \<union> rect16_pixels x"
  using assms unfolding region16_ok_def by blast+

definition frame_rect :: "int \<Rightarrow> int \<Rightarrow> qrect" where
  "frame_rect w h = \<lparr>rx = 0, ry = 0, rw = w, rh = h\<rparr>"

lemma u16_exact: "0 \<le> n \<Longrightarrow> n < 2 ^ 16 \<Longrightarrow> uint (u16_of n) = n"
  by (simp add: u16_of_def uint_word_of_int)

text \<open>Within a frame of fewer than 65536 pixels per side the narrowing to 16 bits loses nothing.\<close>

lemma toRectangle16_exact:
  assumes "qrect_isValid r" and sub: "rect_region r \<subseteq> rect_region (frame_rect w h)"
    and "w < 2 ^ 16" and "h < 2 ^ 16"
  shows "rect16_pixels (toRectangle16 r) = rect_region r"
proof -
  have "(rx r, ry r) \<in> rect_region r" "(qrect_right r, qrect_bottom r) \<in> rect_region r"
    using assms(1) by (simp_all add: rect_region_def qrect_isValid_def)
  then have "0 \<le> rx r" "0 \<le> ry r" "qrect_right r < w" "qrect_bottom r < h"
    using subsetD [OF sub, of "(rx r, ry r)"] subsetD [OF sub, of "(qrect_right r, qrect_bottom r)"]
    by (simp_all add: rect_region_def frame_rect_def qrect_right_def qrect_bottom_def)
  then have "uint (u16_of (rx r)) = rx r" "uint (u16_of (ry r)) = ry r"
    "uint (u16_of (qrect_right r + 1)) = qrect_right r + 1"
    "uint (u16_of (qrect_bottom r + 1)) = qrect_bottom r + 1"
    using assms by (auto intro!: u16_exact simp: qrect_isValid_def)
  then show ?thesis by (auto simp: rect16_pixels_def toRectangle16_def rect_region_def)
qed

lemma union_rects_cover:
  assumes lib: "region16_ok lib cover" and "w < 2 ^ 16" and "h < 2 ^ 16"
    and "\<forall>r\<in>set rs. rect_region r \<subseteq> rect_region (frame_rect w h)"
    and "union_rects lib rs acc = Some b"
  shows "cover b = cover acc \<union> (\<Union>r\<in>set rs. rect_region r)"
  using assms(4,5)
proof (induction rs arbitrary: acc)
  case (Cons r rs)
  show ?case
  proof (cases "qrect_isValid r")
    case True
    then obtain a where a: "r_union lib acc (toRectangle16 r) = Some a" and b: "union_rects lib rs a = Some b"
      using Cons.prems(2) by (auto split: option.splits)
    have "cover a = cover acc \<union> rect_region r"
      using region16_okD(3) [OF lib a] toRectangle16_exact [OF True _ assms(2,3)] Cons.prems(1)
      by simp
    then show ?thesis using Cons.IH [OF _ b] Cons.prems(1) by auto
  next
    case False
    then have "rect_region r = {}" by (simp add: rect_region_empty_iff)
    then show ?thesis using Cons.IH [of acc] Cons.prems False by simp
  qed
qed simp

text \<open>
C28. The region handed to the progressive codec is exactly the damage inside the frame, pixel for
pixel, although its rectangles are narrowed to 16 bits; and the whole frame when nothing of it, or
nothing inside it, is marked as damaged. So no damaged pixel is left stale on the client, and no
pixel outside the image is read.
\<close>

theorem damage_region_is_exact:
  assumes lib: "region16_ok lib cover" and size: "0 < w" "w < 2 ^ 16" "0 < h" "h < 2 ^ 16"
    and rects: "\<And>c. c \<subseteq> rect_region (frame_rect w h) \<Longrightarrow> (\<Union>r\<in>set (rects_of c). rect_region r) = c"
    and r: "toRegion16 rects_of lib dmg (frame_rect w h) = Some b"
  shows "cover b = (if dmg \<inter> rect_region (frame_rect w h) = {} then rect_region (frame_rect w h)
    else dmg \<inter> rect_region (frame_rect w h))"
proof -
  let ?f = "rect_region (frame_rect w h)"
  define c where "c = (if dmg = {} then ?f else dmg \<inter> ?f)"
  have sub: "c \<subseteq> ?f" by (simp add: c_def)
  have valid: "qrect_isValid (frame_rect w h)" and f: "?f \<noteq> {}"
    using size by (auto simp: qrect_isValid_def frame_rect_def qrect_right_def qrect_bottom_def
        rect_region_def)
  obtain a where a: "union_rects lib (rects_of c) (r_empty lib) = Some a"
    using r unfolding toRegion16_def Let_def c_def by (auto split: option.splits)
  have "\<forall>x\<in>set (rects_of c). rect_region x \<subseteq> ?f" using rects [OF sub] sub by blast
  from union_rects_cover [OF lib size(2) size(4) this a] have ca: "cover a = c"
    using region16_okD(1) [OF lib] rects [OF sub] by simp
  have full: "rect16_pixels (toRectangle16 (frame_rect w h)) = ?f"
    by (rule toRectangle16_exact [OF valid _ size(2) size(4)]) simp
  have "cover b = (if c = {} then ?f else c)"
  proof (cases "c = {}")
    case True
    then have "r_union lib a (toRectangle16 (frame_rect w h)) = Some b"
      using r a ca region16_okD(2) [OF lib] unfolding toRegion16_def Let_def c_def by simp
    then show ?thesis using region16_okD(3) [OF lib] full ca True by simp
  next
    case False
    then have "b = a"
      using r a ca region16_okD(2) [OF lib] unfolding toRegion16_def Let_def c_def by simp
    then show ?thesis using ca False by simp
  qed
  then show ?thesis using f by (auto simp: c_def)
qed

text \<open>A region as a list of rectangles, and the pixels of a region as rectangles of size one.\<close>

definition list_cover :: "rect16 list \<Rightarrow> qregion" where
  "list_cover a = (\<Union>x\<in>set a. rect16_pixels x)"

definition rect_list_lib :: "rect16 list region16" where
  "rect_list_lib = \<lparr>r_empty = [], r_union = (\<lambda>a x. Some (x # a)),
     r_is_empty = list_all (\<lambda>(l, t, r, b). \<not> (l < r \<and> t < b)), r_extents = (\<lambda>a. (0, 0, 0, 0))\<rparr>"

definition pixel_rects :: "int \<Rightarrow> int \<Rightarrow> qregion \<Rightarrow> qrect list" where
  "pixel_rects w h c = map (\<lambda>(x, y). \<lparr>rx = x, ry = y, rw = 1, rh = 1\<rparr>)
     (filter (\<lambda>p. p \<in> c) (List.product [0..w - 1] [0..h - 1]))"

lemma rect16_pixels_empty: "rect16_pixels (l, t, r, b) = {} \<longleftrightarrow> \<not> (l < r \<and> t < b)"
  by (auto simp: rect16_pixels_def word_less_def)

lemma rect_list_lib_ok: "region16_ok rect_list_lib list_cover"
  unfolding region16_ok_def
proof (intro conjI allI impI)
  fix a b :: "rect16 list" and x
  assume "r_union rect_list_lib a x = Some b"
  then show "list_cover b = list_cover a \<union> rect16_pixels x"
    by (auto simp: rect_list_lib_def list_cover_def)
next
  fix a :: "rect16 list"
  show "r_is_empty rect_list_lib a = (list_cover a = {})"
  proof (induction a)
    case (Cons x a)
    then show ?case
      by (cases x) (simp add: rect_list_lib_def list_cover_def rect16_pixels_empty)
  qed (simp add: rect_list_lib_def list_cover_def)
qed (simp add: rect_list_lib_def list_cover_def)

lemma pixel_rects_ok:
  assumes "c \<subseteq> rect_region (frame_rect w h)"
  shows "(\<Union>r\<in>set (pixel_rects w h c). rect_region r) = c"
proof -
  have "rect_region \<lparr>rx = x, ry = y, rw = 1, rh = 1\<rparr> = {(x, y)}" for x y
    by (auto simp: rect_region_def qrect_right_def qrect_bottom_def)
  then show ?thesis
    using assms
    by (auto simp: pixel_rects_def rect_region_def frame_rect_def qrect_right_def qrect_bottom_def)
qed

theorem damage_region_is_exact_witness:
  "\<exists>b. toRegion16 (pixel_rects 2 2) rect_list_lib {(1, 1), (5, 5)} (frame_rect 2 2) = Some b \<and>
     list_cover b = {(1, 1)}"
proof -
  have c: "{(1, 1), (5, 5)} \<inter> rect_region (frame_rect 2 2) = {(1 :: int, 1)}"
    by (auto simp: rect_region_def frame_rect_def qrect_right_def qrect_bottom_def)
  have "\<exists>b. union_rects rect_list_lib rs a = Some b" for rs a
    by (induction rs arbitrary: a) (auto simp: rect_list_lib_def)
  then obtain b where b: "toRegion16 (pixel_rects 2 2) rect_list_lib {(1, 1), (5, 5)} (frame_rect 2 2) = Some b"
    by (fastforce simp: toRegion16_def Let_def rect_list_lib_def split: option.split)
  show ?thesis
    using damage_region_is_exact [OF rect_list_lib_ok _ _ _ _ pixel_rects_ok b] b c by auto
qed

end
