(* ===== verification/VideoStream.thy ===== *)
theory VideoStream
  imports VideoStreamSurface
begin

unbundle bit_operations_syntax

text \<open>
  \<open>src/VideoStream.cpp\<close>: the graphics pipeline of a connection. The main thread, the
  connection thread (FreeRDP's callbacks) and the submission thread work on it; each operation is a
  function of the state, the submission thread's body is cut at its critical sections, and the step
  relation at the end interleaves it with everything else. What FreeRDP, KPipeWire and the session
  answer is an argument.
\<close>

section \<open>Capabilities\<close>

definition RDPGFX_CAPVERSION_8 :: u32 where "RDPGFX_CAPVERSION_8 = 0x00080004"
definition RDPGFX_CAPVERSION_81 :: u32 where "RDPGFX_CAPVERSION_81 = 0x00080105"
definition RDPGFX_CAPVERSION_10 :: u32 where "RDPGFX_CAPVERSION_10 = 0x000A0002"
definition RDPGFX_CAPVERSION_101 :: u32 where "RDPGFX_CAPVERSION_101 = 0x000A0100"
definition RDPGFX_CAPVERSION_102 :: u32 where "RDPGFX_CAPVERSION_102 = 0x000A0200"
definition RDPGFX_CAPVERSION_103 :: u32 where "RDPGFX_CAPVERSION_103 = 0x000A0301"
definition RDPGFX_CAPVERSION_104 :: u32 where "RDPGFX_CAPVERSION_104 = 0x000A0400"
definition RDPGFX_CAPVERSION_105 :: u32 where "RDPGFX_CAPVERSION_105 = 0x000A0502"
definition RDPGFX_CAPVERSION_106 :: u32 where "RDPGFX_CAPVERSION_106 = 0x000A0600"
definition RDPGFX_CAPVERSION_107 :: u32 where "RDPGFX_CAPVERSION_107 = 0x000A0701"
definition RDPGFX_CAPS_FLAG_AVC420_ENABLED :: u32 where "RDPGFX_CAPS_FLAG_AVC420_ENABLED = 0x10"
definition RDPGFX_CAPS_FLAG_AVC_DISABLED :: u32 where "RDPGFX_CAPS_FLAG_AVC_DISABLED = 0x20"
definition SUSPEND_FRAME_ACKNOWLEDGEMENT :: u32 where "SUSPEND_FRAME_ACKNOWLEDGEMENT = 0xFFFFFFFF"

lemmas caps_versions = RDPGFX_CAPVERSION_8_def RDPGFX_CAPVERSION_81_def RDPGFX_CAPVERSION_10_def
  RDPGFX_CAPVERSION_101_def RDPGFX_CAPVERSION_102_def RDPGFX_CAPVERSION_103_def
  RDPGFX_CAPVERSION_104_def RDPGFX_CAPVERSION_105_def RDPGFX_CAPVERSION_106_def
  RDPGFX_CAPVERSION_107_def RDPGFX_CAPS_FLAG_AVC420_ENABLED_def RDPGFX_CAPS_FLAG_AVC_DISABLED_def

definition ProgressiveCodecContextId :: u32 where "ProgressiveCodecContextId = 1"
definition HighQueueCount :: nat where "HighQueueCount = 3"
definition LowQueueCount :: nat where "LowQueueCount = 1"

record caps_information =
  avcSupported :: bool
  yuv420Supported :: bool

definition caps_of :: "capset \<Rightarrow> caps_information" where
  "caps_of c = (case c of (version, flags) \<Rightarrow>
     if version \<in> {RDPGFX_CAPVERSION_107, RDPGFX_CAPVERSION_106, RDPGFX_CAPVERSION_105,
                   RDPGFX_CAPVERSION_104}
     then \<lparr>avcSupported = (flags AND RDPGFX_CAPS_FLAG_AVC_DISABLED = 0), yuv420Supported = True\<rparr>
     else if version \<in> {RDPGFX_CAPVERSION_103, RDPGFX_CAPVERSION_102, RDPGFX_CAPVERSION_101,
                        RDPGFX_CAPVERSION_10}
     then \<lparr>avcSupported = (flags AND RDPGFX_CAPS_FLAG_AVC_DISABLED = 0), yuv420Supported = False\<rparr>
     else if version = RDPGFX_CAPVERSION_81 \<and> flags AND RDPGFX_CAPS_FLAG_AVC420_ENABLED \<noteq> 0
     then \<lparr>avcSupported = True, yuv420Supported = True\<rparr>
     else \<lparr>avcSupported = False, yuv420Supported = False\<rparr>)"

definition supports_h264 :: "capset \<Rightarrow> bool" where
  "supports_h264 c \<longleftrightarrow> avcSupported (caps_of c) \<and> yuv420Supported (caps_of c)"

section \<open>Surfaces\<close>

definition destroySurface :: "video_stream \<Rightarrow> video_stream" where
  "destroySurface s =
     (let s1 = s\<lparr>pendingFrames := [], frameAcknowledgementSuspended := False\<rparr>;
          sf = surface (surf s1)
      in if surf_id sf = 0 then s1
         else upd_surf (\<lambda>v. v\<lparr>surface := no_surface\<rparr>)
                (vs_emit
                   ((if gfxContext s1 \<and> codecContextId sf \<noteq> 0
                     then [DeleteEncodingContext (surf_id sf) (codecContextId sf)] else []) @
                    (if gfxContext s1 then [DeleteSurface (surf_id sf)] else []) @
                    (if progressive s1 then [ProgressiveDelete (surf_id sf)] else [])) s1))"

text \<open>
  What \<open>ResetGraphics\<close>, \<open>CreateSurface\<close>, \<open>progressive_create_surface_context\<close> and
  \<open>MapSurfaceToOutput\<close> return.
\<close>

record reset_answers =
  resetStatus :: u32
  createStatus :: u32
  progressiveStatus :: int
  mapStatus :: u32

definition map_surface :: "reset_answers \<Rightarrow> u16 \<Rightarrow> video_stream \<Rightarrow> video_stream" where
  "map_surface a surfaceId s =
     (let s1 = vs_emit [MapSurfaceToOutput surfaceId] s
      in if mapStatus a \<noteq> CHANNEL_RC_OK then destroySurface s1 else s1)"

definition performReset :: "reset_answers \<Rightarrow> qsize \<Rightarrow> video_stream \<Rightarrow> video_stream" where
  "performReset a newSize s =
     (let w = width newSize; h = height newSize
      in if \<not> gfxContext s
         then upd_surf (\<lambda>v. v\<lparr>surface := (surface v)\<lparr>surf_size := newSize\<rparr>\<rparr>) (vs_emit [DesktopResize w h] s)
         else
           let s1 = vs_emit [ResetGraphics w h] (destroySurface s)
           in if resetStatus a \<noteq> CHANNEL_RC_OK then s1
              else
                let surfaceId = nextSurfaceId s1;
                    s2 = vs_emit [CreateSurface surfaceId w h (createStatus a = CHANNEL_RC_OK)]
                           (s1\<lparr>nextSurfaceId := surfaceId + 1\<rparr>)
                in if createStatus a \<noteq> CHANNEL_RC_OK then s2
                   else
                     let s3 = upd_surf (\<lambda>v. v\<lparr>surface :=
                                \<lparr>surf_id = surfaceId,
                                 codecContextId = (if activeEncodingMode s2 = Some Progressive
                                                   then ProgressiveCodecContextId else 0),
                                 surf_size = newSize\<rparr>\<rparr>) s2
                     in if activeEncodingMode s3 = Some Progressive
                        then
                          let s4 = vs_emit [ProgressiveCreate surfaceId w h (progressiveStatus a \<ge> 0)] s3
                          in if progressiveStatus a < 0 then destroySurface s4
                             else map_surface a surfaceId s4
                        else map_surface a surfaceId s3)"

section \<open>Quality, size and source\<close>

definition applyQuality :: "video_stream \<Rightarrow> video_stream" where
  "applyQuality s = surface_setVideoQuality (quality (qual s)) s"

text \<open>A quality operation, followed by \<open>applyQuality\<close> where it says so.\<close>

definition on_quality :: "(video_quality \<Rightarrow> bool \<times> video_quality) \<Rightarrow> video_stream \<Rightarrow> video_stream" where
  "on_quality f s =
     (let (applies, q) = f (qual s); s1 = s\<lparr>qual := q\<rparr> in if applies then applyQuality s1 else s1)"

definition stream_seedQuality :: "u8 \<Rightarrow> video_stream \<Rightarrow> video_stream" where
  "stream_seedQuality q s = on_quality (seedQuality (activeEncodingMode s) q) s"

definition stream_updateAdaptiveQuality :: "u32 \<Rightarrow> ticks \<Rightarrow> ticks \<Rightarrow> ticks \<Rightarrow> video_stream \<Rightarrow> video_stream" where
  "stream_updateAdaptiveQuality goodputKbit now averageRTT minimumRTT s =
     on_quality (updateAdaptiveQuality (activeEncodingMode s) goodputKbit now (vsize (surf s))
                   averageRTT minimumRTT) s"

definition stream_setActiveEncodingMode :: "bool \<Rightarrow> qsize \<Rightarrow> encoding_mode \<Rightarrow> video_stream \<Rightarrow> video_stream" where
  "stream_setActiveEncodingMode created sourceSize mode s =
     (if activeEncodingMode s = Some mode then s
      else
        (surface_setActiveEncodingMode created sourceSize mode (quality (qual s))
           (requestedFrameRate (rate s)) (s\<lparr>frameQueue := []\<rparr>))\<lparr>activeEncodingMode := Some mode\<rparr>)"

definition stream_setEnabled :: "bool \<Rightarrow> video_stream \<Rightarrow> video_stream" where
  "stream_setEnabled on s =
     (if vs_enabled s = on then s else vs_emit [EnabledChanged] (s\<lparr>vs_enabled := on\<rparr>))"

definition stream_setStreamingEnabled :: "bool \<Rightarrow> bool \<Rightarrow> video_stream \<Rightarrow> video_stream" where
  "stream_setStreamingEnabled paused on s =
     (if streamingEnabled s = on then s
      else surface_setStreamingEnabled paused on (s\<lparr>streamingEnabled := on\<rparr>))"

definition stream_reset :: "video_stream \<Rightarrow> video_stream" where
  "stream_reset s = upd_surf (\<lambda>v. v\<lparr>pendingReset := True\<rparr>) s"

section \<open>Life cycle\<close>

text \<open>
  Whether \<open>rdpgfx_server_context_new\<close>, the context's \<open>Initialize\<close> and
  \<open>progressive_context_new\<close> succeeded, and the desktop size of the client's settings.
\<close>

definition stream_initialize :: "bool \<Rightarrow> bool \<Rightarrow> bool \<Rightarrow> u32 \<Rightarrow> u32 \<Rightarrow> video_stream \<Rightarrow> bool \<times> video_stream" where
  "stream_initialize context_new gfx_ok progressive_new desktopWidth desktopHeight s =
     (if initialized s then (True, s)
      else if \<not> context_new then (False, s\<lparr>gfxContext := False\<rparr>)
      else
        let s1 = vs_emit [GfxInitialize] (s\<lparr>gfxContext := True\<rparr>)
        in if \<not> gfx_ok then (False, s1\<lparr>gfxContext := False\<rparr>)
           else if \<not> progressive_new then (False, s1\<lparr>progressive := False, gfxContext := False\<rparr>)
           else
             let s2 = s1\<lparr>progressive := True\<rparr>;
                 clientSize = \<lparr>width = to_int32 (uint desktopWidth), height = to_int32 (uint desktopHeight)\<rparr>;
                 s3 = (if \<not> qsize_isValid (requestedSize (surf s2)) \<and> \<not> qsize_isEmpty clientSize
                       then surface_setRequestedSize clientSize s2 else s2)
             in (True, s3\<lparr>initialized := True, frameSubmissionThread := True\<rparr>))"

definition stream_close :: "video_stream \<Rightarrow> video_stream" where
  "stream_close s =
     (let s1 = vs_emit ((if encodedStream (surf s) then [EncStop] else []) @
                        (if sourceStream (surf s) then [SrcStop] else [])) s;
          s2 = destroySurface (s1\<lparr>frameSubmissionThread := False, pendingFrames := [],
                 frameAcknowledgementSuspended := False, frameQueue := []\<rparr>);
          s3 = (if gfxContext s2
                then (vs_emit (if channelOpen s2 then [GfxClose] else []) s2)
                       \<lparr>channelOpen := False, gfxContext := False\<rparr>
                else s2)
      in vs_emit [StreamClosed] (s3\<lparr>activeEncodingMode := None, initialized := False\<rparr>))"

definition openChannel :: "bool \<Rightarrow> video_stream \<Rightarrow> bool \<times> video_stream" where
  "openChannel open_ok s =
     (if \<not> gfxContext s then (False, s)
      else if channelOpen s then (True, s)
      else
        let s1 = vs_emit [GfxOpen] s
        in if \<not> open_ok then (False, s1) else (True, s1\<lparr>channelOpen := True\<rparr>))"

section \<open>Callbacks of the graphics channel\<close>

definition onChannelIdAssigned :: "u32 \<Rightarrow> video_stream \<Rightarrow> bool \<times> video_stream" where
  "onChannelIdAssigned cid s = (True, s\<lparr>channelId := cid\<rparr>)"

definition negotiated_mode :: "bool \<Rightarrow> capset list \<Rightarrow> encoding_mode option" where
  "negotiated_mode h264Disabled capsSets =
     (if \<not> h264Disabled \<and> list_ex supports_h264 capsSets then Some H264
      else if capsSets = [] then None
      else Some Progressive)"

definition onCapsAdvertise ::
  "bool \<Rightarrow> bool \<Rightarrow> qsize \<Rightarrow> u32 \<Rightarrow> capset list \<Rightarrow> video_stream \<Rightarrow> u32 \<times> video_stream" where
  "onCapsAdvertise h264Disabled created sourceSize confirmStatus capsSets s =
     (let s1 = (if capsConfirmed s
                then destroySurface (upd_surf (\<lambda>v. v\<lparr>pendingReset := True\<rparr>) (s\<lparr>capsConfirmed := False\<rparr>))
                else s)
      in case negotiated_mode h264Disabled capsSets of
           None \<Rightarrow> (CHANNEL_RC_INITIALIZATION_ERROR, vs_emit [SessionClose VideoInitFailed] s1)
         | Some mode \<Rightarrow>
             let s2 = stream_setActiveEncodingMode created sourceSize mode s1
             in (case max_element_by (\<lambda>a b. fst a < fst b) capsSets of
                  None \<Rightarrow> (CHANNEL_RC_INITIALIZATION_ERROR, s2)
                | Some maxVersion \<Rightarrow>
                    let s3 = vs_emit [CapsConfirm maxVersion] s2
                    in if confirmStatus \<noteq> CHANNEL_RC_OK then (confirmStatus, s3)
                       else (CHANNEL_RC_OK, s3\<lparr>capsConfirmed := True\<rparr>)))"

definition onFrameAcknowledge :: "u32 \<Rightarrow> u32 \<Rightarrow> video_stream \<Rightarrow> u32 \<times> video_stream" where
  "onFrameAcknowledge fid queueDepth s =
     (let s1 = s\<lparr>frameAcknowledgementSuspended := (queueDepth = SUSPEND_FRAME_ACKNOWLEDGEMENT)\<rparr>
      in if frameAcknowledgementSuspended s1 then (CHANNEL_RC_OK, s1\<lparr>pendingFrames := []\<rparr>)
         else if fid \<notin> set (pendingFrames s1) then (CHANNEL_RC_OK, s1)
         else (CHANNEL_RC_OK, s1\<lparr>pendingFrames := removeAll fid (pendingFrames s1)\<rparr>))"

section \<open>Frames\<close>

text \<open>\<open>encodingPaused\<close> is what \<open>encoderPaused()\<close> returns.\<close>

definition updateBackpressure :: "bool \<Rightarrow> video_stream \<Rightarrow> video_stream" where
  "updateBackpressure encodingPaused s =
     (if \<not> encodedStream (surf s) then s
      else if \<not> encodingPaused \<and> length (frameQueue s) > HighQueueCount
      then vs_emit [EncSetPaused True] s
      else if encodingPaused \<and> length (frameQueue s) < LowQueueCount
      then vs_emit [EncSetPaused False] s
      else s)"

definition enqueue :: "video_frame \<Rightarrow> video_stream \<Rightarrow> video_stream" where
  "enqueue frame s =
     (case activeEncodingMode s of
        Some H264 \<Rightarrow>
          s\<lparr>frameQueue := (if isKeyFrame frame then [] else frameQueue s) @ [frame]\<rparr>
      | Some Progressive \<Rightarrow>
          let lastDamage = (if frameQueue s \<noteq> [] then damage (last (frameQueue s)) else {})
          in s\<lparr>frameQueue := [frame\<lparr>damage := damage frame \<union> lastDamage\<rparr>]\<rparr>
      | None \<Rightarrow> s)"

definition queueFrame :: "conn_state \<Rightarrow> bool \<Rightarrow> video_frame \<Rightarrow> video_stream \<Rightarrow> video_stream" where
  "queueFrame session_state encodingPaused frame s =
     (if session_state \<noteq> Streaming \<or> \<not> vs_enabled s then s
      else updateBackpressure encodingPaused
             (enqueue frame (s\<lparr>rate := frame_produced (rate s)\<rparr>)))"

definition hasInFlightCapacity :: "video_stream \<Rightarrow> bool" where
  "hasInFlightCapacity s \<longleftrightarrow> int (length (pendingFrames s)) < maxInFlight (rate s)"

text \<open>The answers one \<open>sendFrame\<close> gets.\<close>

record 'r send_env =
  writeBlocked :: bool
  resetAnswers1 :: reset_answers
  resetAnswers2 :: reset_answers
  send_time :: time_of_day
  h264Answers :: h264_answers
  qt_rects :: "qregion \<Rightarrow> qrect list"
  region_lib :: "'r region16"
  progressive_compress :: "'r \<Rightarrow> progressive_answers"

text \<open>\<open>sendFrame\<close> up to the frame id: \<open>None\<close> where it gives the frame up.\<close>

definition sendFrame_prepare :: "'r send_env \<Rightarrow> video_frame \<Rightarrow> video_stream \<Rightarrow> video_stream option" where
  "sendFrame_prepare env frame s =
     (if writeBlocked env then None
      else if activeEncodingMode s = None then None
      else if \<not> gfxContext s \<or> \<not> capsConfirmed s then None
      else
        let s1 = (if pendingReset (surf s)
                  then performReset (resetAnswers1 env) (frame_size frame)
                         (upd_surf (\<lambda>v. v\<lparr>pendingReset := False\<rparr>) s)
                  else s)
        in Some (if surf_size (surface (surf s1)) \<noteq> frame_size frame
                 then performReset (resetAnswers2 env) (frame_size frame) s1 else s1))"

text \<open>The first critical section: the frame gets its id and is pending.\<close>

definition register_frame :: "video_stream \<Rightarrow> u32 \<times> video_stream" where
  "register_frame s =
     (let fid = frameId s; s1 = s\<lparr>frameId := fid + 1\<rparr>
      in (fid, if frameAcknowledgementSuspended s1 then s1
               else s1\<lparr>pendingFrames := List.insert fid (pendingFrames s1)\<rparr>))"

definition submit_frame :: "'r send_env \<Rightarrow> u32 \<Rightarrow> video_frame \<Rightarrow> video_stream \<Rightarrow> bool \<times> video_stream" where
  "submit_frame env fid frame s =
     (if activeEncodingMode s = Some H264
      then sendFrameH264 (send_time env) (h264Answers env) fid frame s
      else sendFrameProgressive (qt_rects env) (region_lib env) (progressive_compress env)
             (send_time env) fid frame s)"

text \<open>The second critical section: a frame that was not submitted is not pending.\<close>

definition finish_frame :: "u32 \<Rightarrow> bool \<Rightarrow> video_stream \<Rightarrow> video_stream" where
  "finish_frame fid submitted s =
     vs_emit [QueueUpdateBackpressure]
       (if submitted then s else s\<lparr>pendingFrames := removeAll fid (pendingFrames s)\<rparr>)"

definition sendFrame :: "'r send_env \<Rightarrow> video_frame \<Rightarrow> video_stream \<Rightarrow> video_stream" where
  "sendFrame env frame s =
     (case sendFrame_prepare env frame s of
        None \<Rightarrow> s
      | Some s1 \<Rightarrow>
          let (fid, s2) = register_frame s1; (submitted, s3) = submit_frame env fid frame s2
          in finish_frame fid submitted s3)"

text \<open>One round of the submission thread's loop.\<close>

definition submission_round :: "'r send_env \<Rightarrow> video_stream \<Rightarrow> video_stream" where
  "submission_round env s =
     (if \<not> hasInFlightCapacity s \<or> \<not> gfxContext s \<or> \<not> capsConfirmed s then s
      else case frameQueue s of
             [] \<Rightarrow> s
           | nextFrame # rest \<Rightarrow>
               if qsize_isEmpty (frame_size nextFrame) then s\<lparr>frameQueue := rest\<rparr>
               else sendFrame env nextFrame (s\<lparr>frameQueue := rest\<rparr>))"

section \<open>The stream as a machine\<close>

datatype 'r vs_event =
    VsInitialize bool bool bool u32 u32
  | VsClose
  | VsOpenChannel bool
  | ChannelIdAssigned u32
  | CapsAdvertise bool bool qsize u32 "capset list"
  | FrameAcknowledge u32 u32
  | QueueFrame conn_state bool video_frame
  | VsReset
  | SetEnabled bool
  | SetStreamingEnabled bool bool
  | VsSetVideoQuality u8
  | VsSetAdaptiveQuality bool
  | VsSeedQuality u8
  | SetRequestedSize qsize
  | SetPipeWireSource bool qsize u32 u64 int
  | StreamSizeChanged qsize
  | RttChangedEvent ticks ticks
  | BandwidthChangedEvent u32 ticks ticks ticks
  | UpdateBackpressure bool
  | SubmissionRound "'r send_env"

fun vs_step :: "'r vs_event \<Rightarrow> video_stream \<Rightarrow> video_stream" where
  "vs_step (VsInitialize cn gi pn w h) s = snd (stream_initialize cn gi pn w h s)"
| "vs_step VsClose s = stream_close s"
| "vs_step (VsOpenChannel ok) s = snd (openChannel ok s)"
| "vs_step (ChannelIdAssigned c) s = snd (onChannelIdAssigned c s)"
| "vs_step (CapsAdvertise h264Disabled created sz status caps) s =
     snd (onCapsAdvertise h264Disabled created sz status caps s)"
| "vs_step (FrameAcknowledge fid depth) s = snd (onFrameAcknowledge fid depth s)"
| "vs_step (QueueFrame st paused f) s = queueFrame st paused f s"
| "vs_step VsReset s = stream_reset s"
| "vs_step (SetEnabled on) s = stream_setEnabled on s"
| "vs_step (SetStreamingEnabled paused on) s = stream_setStreamingEnabled paused on s"
| "vs_step (VsSetVideoQuality q) s = on_quality (setVideoQuality q) s"
| "vs_step (VsSetAdaptiveQuality on) s = on_quality (setAdaptiveQuality on) s"
| "vs_step (VsSeedQuality q) s = stream_seedQuality q s"
| "vs_step (SetRequestedSize sz) s = surface_setRequestedSize sz s"
| "vs_step (SetPipeWireSource created sz node serial fd) s =
     surface_setPipeWireSource created sz node serial fd s"
| "vs_step (StreamSizeChanged sz) s = setSize sz s"
| "vs_step (RttChangedEvent now avg) s = s\<lparr>rate := updateInFlightWindow now avg (rate s)\<rparr>"
| "vs_step (BandwidthChangedEvent g now avg mn) s = stream_updateAdaptiveQuality g now avg mn s"
| "vs_step (UpdateBackpressure paused) s = updateBackpressure paused s"
| "vs_step (SubmissionRound env) s = submission_round env s"

section \<open>The client of the graphics channel\<close>

text \<open>
  What the client has: its surfaces, and the frame that is open. \<open>None\<close> is a protocol error: a
  command on a surface that does not exist, a frame inside a frame, an end without a start, a reset
  or a close of the channel with surfaces still there.
\<close>

record gfx_client =
  live :: "u16 set"
  open_frame :: "u32 option"

definition gfx_client_init :: gfx_client where
  "gfx_client_init = \<lparr>live = {}, open_frame = None\<rparr>"

definition guard :: "bool \<Rightarrow> 'a \<Rightarrow> 'a option" where
  "guard b x = (if b then Some x else None)"

fun gfx_command :: "video_out \<Rightarrow> gfx_client \<Rightarrow> gfx_client option" where
  "gfx_command (ResetGraphics w h) c = guard (live c = {} \<and> open_frame c = None) c"
| "gfx_command (CreateSurface sid w h ok) c =
     guard (sid \<noteq> 0 \<and> sid \<notin> live c) (if ok then c\<lparr>live := insert sid (live c)\<rparr> else c)"
| "gfx_command (MapSurfaceToOutput sid) c = guard (sid \<in> live c) c"
| "gfx_command (DeleteEncodingContext sid cid) c = guard (sid \<in> live c) c"
| "gfx_command (DeleteSurface sid) c =
     guard (sid \<in> live c \<and> open_frame c = None) (c\<lparr>live := live c - {sid}\<rparr>)"
| "gfx_command (StartFrame t fid ok) c =
     guard (open_frame c = None) (if ok then c\<lparr>open_frame := Some fid\<rparr> else c)"
| "gfx_command (SurfaceCommand sid codec wh bytes rects) c =
     guard (sid \<in> live c \<and> open_frame c \<noteq> None) c"
| "gfx_command (EndFrame fid) c = guard (open_frame c = Some fid) (c\<lparr>open_frame := None\<rparr>)"
| "gfx_command (SurfaceFrameCommand sid ctx ext wh bytes t fid) c =
     guard (sid \<in> live c \<and> open_frame c = None) c"
| "gfx_command GfxClose c = guard (live c = {} \<and> open_frame c = None) c"
| "gfx_command _ c = Some c"

definition gfx_view :: "video_out list \<Rightarrow> gfx_client option" where
  "gfx_view xs = fold (lift_step gfx_command) xs (Some gfx_client_init)"

fun is_create :: "video_out \<Rightarrow> bool" where
  "is_create (CreateSurface sid w h ok) = True"
| "is_create _ = False"

definition creates :: "video_stream \<Rightarrow> nat" where
  "creates s = length (filter is_create (vs_log s))"

text \<open>Calls the client of the graphics channel does not see.\<close>

definition neutral :: "video_out \<Rightarrow> bool" where
  "neutral x \<longleftrightarrow> \<not> is_create x \<and> (\<forall>c. gfx_command x c = Some c)"

lemma fold_neutral: "list_all neutral xs \<Longrightarrow> fold (lift_step gfx_command) xs o' = o'"
  by (induction xs arbitrary: o') (auto simp: neutral_def lift_step_def split: option.splits bind_splits)

lemma filter_neutral: "list_all neutral xs \<Longrightarrow> filter is_create xs = []"
  by (induction xs) (auto simp: neutral_def)

text \<open>An operation is quiet when it does nothing to the client's surfaces.\<close>

definition quiet :: "video_stream \<Rightarrow> video_stream \<Rightarrow> bool" where
  "quiet s s' \<longleftrightarrow> surface (surf s') = surface (surf s) \<and> gfxContext s' = gfxContext s \<and>
     nextSurfaceId s' = nextSurfaceId s \<and> initialized s' = initialized s \<and>
     (\<exists>xs. vs_log s' = vs_log s @ xs \<and> list_all neutral xs)"

definition live_ids :: "video_stream \<Rightarrow> u16 set" where
  "live_ids s = (if surf_id (surface (surf s)) = 0 then {} else {surf_id (surface (surf s))})"

definition vs_ok :: "video_stream \<Rightarrow> bool" where
  "vs_ok s \<longleftrightarrow> (gfxContext s \<longrightarrow> initialized s) \<and>
     (surf_id (surface (surf s)) \<noteq> 0 \<longrightarrow> gfxContext s) \<and>
     nextSurfaceId s = of_nat (creates s + 1) \<and>
     (creates s \<le> 65535 \<longrightarrow>
        gfx_view (vs_log s) = Some \<lparr>live = live_ids s, open_frame = None\<rparr>)"

lemma quiet_ok: "quiet s s' \<Longrightarrow> vs_ok s \<Longrightarrow> vs_ok s'"
  by (auto simp: quiet_def vs_ok_def creates_def gfx_view_def live_ids_def fold_neutral filter_neutral)

lemma quiet_refl [simp]: "quiet s s"
  by (simp add: quiet_def)

lemma quiet_trans: "quiet s t \<Longrightarrow> quiet t u \<Longrightarrow> quiet s u"
  by (auto simp: quiet_def)

lemma quiet_emit [simp]: "list_all neutral xs \<Longrightarrow> quiet s (vs_emit xs s)"
  by (simp add: quiet_def vs_emit_def)

subsection \<open>Quiet operations\<close>

lemma neutral_simps [simp]:
  "neutral (EncNew q r)" "neutral EncStop" "neutral (EncSetRequestedSize sz)" "neutral (EncSetSource x y)"
  "neutral (EncSetFd i)" "neutral EncStart" "neutral EncResume" "neutral EncPause"
  "neutral (EncSetQuality q)" "neutral (EncSetPaused b)" "neutral (SrcNew n)" "neutral SrcStop"
  "neutral (SrcSetRequestedSize sz)" "neutral (SrcCreateBySerial x i)" "neutral (SrcCreateByNode y i)"
  "neutral (SrcSetActive b)" "neutral (SessionClose cr)" "neutral (SizeChanged sz)"
  "neutral EnabledChanged" "neutral StreamClosed" "neutral QueueUpdateBackpressure"
  "neutral GfxInitialize" "neutral GfxOpen" "neutral (CapsConfirm cs)"
  "neutral (ProgressiveCreate sid w h b)" "neutral (ProgressiveDelete sid)" "neutral (DesktopResize w h)"
  by (simp_all add: neutral_def)

lemma quiet_fields:
  assumes "surface (surf s') = surface (surf s)" "gfxContext s' = gfxContext s"
    "nextSurfaceId s' = nextSurfaceId s" "initialized s' = initialized s" "vs_log s' = vs_log s"
  shows "quiet s s'"
  using assms by (simp add: quiet_def)

lemma quiet_surf: "(\<And>v. surface (f v) = surface v) \<Longrightarrow> quiet s (upd_surf f s)"
  by (simp add: quiet_fields upd_surf_def)

named_theorems quiet_intros

lemma quiet_emitI [quiet_intros]: "quiet s t \<Longrightarrow> list_all neutral xs \<Longrightarrow> quiet s (vs_emit xs t)"
  using quiet_trans quiet_emit by blast

lemma quiet_surfI [quiet_intros]: "quiet s t \<Longrightarrow> (\<And>v. surface (f v) = surface v) \<Longrightarrow> quiet s (upd_surf f t)"
  using quiet_trans quiet_surf by blast

lemma quiet_updates [quiet_intros]:
  "quiet s t \<Longrightarrow> quiet s (t\<lparr>frameQueue := q\<rparr>)" "quiet s t \<Longrightarrow> quiet s (t\<lparr>pendingFrames := fs\<rparr>)"
  "quiet s t \<Longrightarrow> quiet s (t\<lparr>frameAcknowledgementSuspended := b\<rparr>)"
  "quiet s t \<Longrightarrow> quiet s (t\<lparr>rate := r\<rparr>)" "quiet s t \<Longrightarrow> quiet s (t\<lparr>qual := ql\<rparr>)"
  "quiet s t \<Longrightarrow> quiet s (t\<lparr>activeEncodingMode := m\<rparr>)" "quiet s t \<Longrightarrow> quiet s (t\<lparr>frameId := fid\<rparr>)"
  "quiet s t \<Longrightarrow> quiet s (t\<lparr>vs_enabled := b\<rparr>)" "quiet s t \<Longrightarrow> quiet s (t\<lparr>streamingEnabled := b\<rparr>)"
  "quiet s t \<Longrightarrow> quiet s (t\<lparr>channelOpen := b\<rparr>)" "quiet s t \<Longrightarrow> quiet s (t\<lparr>channelId := cid\<rparr>)"
  "quiet s t \<Longrightarrow> quiet s (t\<lparr>capsConfirmed := b\<rparr>)" "quiet s t \<Longrightarrow> quiet s (t\<lparr>progressive := b\<rparr>)"
  "quiet s t \<Longrightarrow> quiet s (t\<lparr>frameSubmissionThread := b\<rparr>)"
  by (simp_all add: quiet_def)

lemma neutral_create_call [simp]: "neutral (create_call v fd)"
  by (simp add: create_call_def)

lemma quiet_setSize [quiet_intros]: "quiet s t \<Longrightarrow> quiet s (setSize sz t)"
  unfolding setSize_def by (auto intro!: quiet_intros)

lemma quiet_fail [quiet_intros]: "quiet s t \<Longrightarrow> quiet s (failVideoInitialization t)"
  unfolding failVideoInitialization_def by (auto intro!: quiet_intros)

lemma quiet_drop_streams [quiet_intros]: "quiet s t \<Longrightarrow> quiet s (drop_streams t)"
  unfolding drop_streams_def Let_def by (auto intro!: quiet_intros)

lemma quiet_setup_encoded [quiet_intros]: "quiet s t \<Longrightarrow> quiet s (setup_encoded q r t)"
  unfolding setup_encoded_def Let_def by (auto intro!: quiet_intros)

lemma quiet_setup_source [quiet_intros]: "quiet s t \<Longrightarrow> quiet s (setup_source created sz r t)"
  unfolding setup_source_def Let_def by (auto intro!: quiet_intros)

lemma quiet_surface_mode [quiet_intros]:
  "quiet s t \<Longrightarrow> quiet s (surface_setActiveEncodingMode created sz mode q r t)"
  unfolding surface_setActiveEncodingMode_def Let_def by (auto intro!: quiet_intros)

lemma quiet_stream_mode [quiet_intros]:
  "quiet s t \<Longrightarrow> quiet s (stream_setActiveEncodingMode created sz mode t)"
  unfolding stream_setActiveEncodingMode_def by (auto intro!: quiet_intros)

lemma quiet_setStreamingEnabled [quiet_intros]:
  "quiet s t \<Longrightarrow> quiet s (surface_setStreamingEnabled paused on t)"
  unfolding surface_setStreamingEnabled_def Let_def by (auto intro!: quiet_intros)

lemma quiet_setRequestedSize [quiet_intros]: "quiet s t \<Longrightarrow> quiet s (surface_setRequestedSize sz t)"
  unfolding surface_setRequestedSize_def Let_def by (auto intro!: quiet_intros)

lemma quiet_setPipeWireSource [quiet_intros]:
  "quiet s t \<Longrightarrow> quiet s (surface_setPipeWireSource created sz node serial fd t)"
  unfolding surface_setPipeWireSource_def Let_def by (auto intro!: quiet_intros)

lemma quiet_on_quality [quiet_intros]: "quiet s t \<Longrightarrow> quiet s (on_quality f t)"
  unfolding on_quality_def Let_def applyQuality_def surface_setVideoQuality_def
  by (auto intro!: quiet_intros split: prod.split)

lemma quiet_updateBackpressure [quiet_intros]: "quiet s t \<Longrightarrow> quiet s (updateBackpressure paused t)"
  unfolding updateBackpressure_def by (auto intro!: quiet_intros)

lemma quiet_enqueue [quiet_intros]: "quiet s t \<Longrightarrow> quiet s (enqueue f t)"
  unfolding enqueue_def Let_def by (auto intro!: quiet_intros split: option.split encoding_mode.split)

lemma quiet_queueFrame [quiet_intros]: "quiet s t \<Longrightarrow> quiet s (queueFrame st paused f t)"
  unfolding queueFrame_def by (auto intro!: quiet_intros)

lemma quiet_onFrameAcknowledge [quiet_intros]:
  "quiet s t \<Longrightarrow> quiet s (snd (onFrameAcknowledge fid depth t))"
  unfolding onFrameAcknowledge_def Let_def by (auto intro!: quiet_intros)

lemma quiet_openChannel [quiet_intros]: "quiet s t \<Longrightarrow> quiet s (snd (openChannel ok t))"
  unfolding openChannel_def Let_def by (auto intro!: quiet_intros)

lemma quiet_finish_frame [quiet_intros]: "quiet s t \<Longrightarrow> quiet s (finish_frame fid submitted t)"
  unfolding finish_frame_def by (auto intro!: quiet_intros)

lemma quiet_register_frame [quiet_intros]: "quiet s t \<Longrightarrow> quiet s (snd (register_frame t))"
  unfolding register_frame_def Let_def by (auto intro!: quiet_intros)

lemma quiet_stream_setters [quiet_intros]:
  "quiet s t \<Longrightarrow> quiet s (stream_setEnabled on t)"
  "quiet s t \<Longrightarrow> quiet s (stream_setStreamingEnabled paused on t)"
  "quiet s t \<Longrightarrow> quiet s (stream_reset t)"
  "quiet s t \<Longrightarrow> quiet s (stream_seedQuality q t)"
  "quiet s t \<Longrightarrow> quiet s (stream_updateAdaptiveQuality g now avg mn t)"
  unfolding stream_setEnabled_def stream_setStreamingEnabled_def stream_reset_def
    stream_seedQuality_def stream_updateAdaptiveQuality_def
  by (auto intro!: quiet_intros)

subsection \<open>Operations the client sees\<close>

lemma gfx_view_append: "gfx_view (xs @ ys) = fold (lift_step gfx_command) ys (gfx_view xs)"
  by (simp add: gfx_view_def)

lemma vs_emit_fields [simp]:
  "activeEncodingMode (vs_emit xs s) = activeEncodingMode s" "surf (vs_emit xs s) = surf s"
  "gfxContext (vs_emit xs s) = gfxContext s" "progressive (vs_emit xs s) = progressive s"
  "nextSurfaceId (vs_emit xs s) = nextSurfaceId s" "initialized (vs_emit xs s) = initialized s"
  "capsConfirmed (vs_emit xs s) = capsConfirmed s" "channelOpen (vs_emit xs s) = channelOpen s"
  "pendingFrames (vs_emit xs s) = pendingFrames s" "frameQueue (vs_emit xs s) = frameQueue s"
  "frameAcknowledgementSuspended (vs_emit xs s) = frameAcknowledgementSuspended s"
  "rate (vs_emit xs s) = rate s" "vs_log (vs_emit xs s) = vs_log s @ xs"
  "frameId (vs_emit xs s) = frameId s"
  by (simp_all add: vs_emit_def)

lemma upd_surf_fields [simp]:
  "activeEncodingMode (upd_surf f s) = activeEncodingMode s" "surf (upd_surf f s) = f (surf s)"
  "gfxContext (upd_surf f s) = gfxContext s" "progressive (upd_surf f s) = progressive s"
  "nextSurfaceId (upd_surf f s) = nextSurfaceId s" "initialized (upd_surf f s) = initialized s"
  "capsConfirmed (upd_surf f s) = capsConfirmed s" "channelOpen (upd_surf f s) = channelOpen s"
  "pendingFrames (upd_surf f s) = pendingFrames s" "frameQueue (upd_surf f s) = frameQueue s"
  "frameAcknowledgementSuspended (upd_surf f s) = frameAcknowledgementSuspended s"
  "rate (upd_surf f s) = rate s" "vs_log (upd_surf f s) = vs_log s" "frameId (upd_surf f s) = frameId s"
  by (simp_all add: upd_surf_def)

lemma no_surface_id [simp]: "surf_id no_surface = 0" "surf_size no_surface = qsize_default"
  by (simp_all add: no_surface_def)

lemma destroySurface_fields [simp]:
  "surf_id (surface (surf (destroySurface s))) = 0"
  "gfxContext (destroySurface s) = gfxContext s" "initialized (destroySurface s) = initialized s"
  "nextSurfaceId (destroySurface s) = nextSurfaceId s" "progressive (destroySurface s) = progressive s"
  "activeEncodingMode (destroySurface s) = activeEncodingMode s"
  "capsConfirmed (destroySurface s) = capsConfirmed s" "channelOpen (destroySurface s) = channelOpen s"
  "frameQueue (destroySurface s) = frameQueue s" "pendingFrames (destroySurface s) = []"
  "frameAcknowledgementSuspended (destroySurface s) = False" "rate (destroySurface s) = rate s"
  by (simp_all add: destroySurface_def Let_def)

lemma destroySurface_ok:
  assumes "vs_ok s" shows "vs_ok (destroySurface s)"
proof (cases "surf_id (surface (surf s)) = 0")
  case True
  then have "quiet s (destroySurface s)"
    by (simp add: destroySurface_def Let_def quiet_updates)
  then show ?thesis using assms by (rule quiet_ok)
next
  case False
  then have gfx: "gfxContext s" using assms by (simp add: vs_ok_def)
  have "creates (destroySurface s) = creates s"
    using False gfx by (simp add: creates_def destroySurface_def Let_def)
  moreover have "gfx_view (vs_log (destroySurface s)) = Some \<lparr>live = {}, open_frame = None\<rparr>"
    if "gfx_view (vs_log s) = Some \<lparr>live = live_ids s, open_frame = None\<rparr>"
    using False gfx that
    by (simp add: destroySurface_def Let_def gfx_view_append live_ids_def guard_def lift_step_def)
  ultimately show ?thesis
    using assms by (simp add: vs_ok_def live_ids_def)
qed

lemma fresh_id:
  assumes ok: "vs_ok s" and few: "creates s < 65535"
  shows "nextSurfaceId s \<noteq> 0"
proof -
  have "creates s + 1 < 2 ^ 16" using few by simp
  then have "unat (of_nat (creates s + 1) :: u16) = creates s + 1"
    by (simp only: unsigned_of_nat) (simp add: take_bit_nat_eq_self)
  moreover have "nextSurfaceId s = of_nat (creates s + 1)" using ok by (simp add: vs_ok_def)
  ultimately show ?thesis by (metis Suc_eq_plus1 nat.simps(3) unsigned_0)
qed

text \<open>Creating a surface: the id is fresh as long as the 16-bit counter has not wrapped.\<close>

lemma created_ok:
  assumes ok: "vs_ok s" and none: "surf_id (surface (surf s)) = 0" and gfx: "gfxContext s"
    and s': "s' = upd_surf (\<lambda>v. v\<lparr>surface := \<lparr>surf_id = nextSurfaceId s, codecContextId = c, surf_size = sz\<rparr>\<rparr>)
      (vs_emit [CreateSurface (nextSurfaceId s) w h True] (s\<lparr>nextSurfaceId := nextSurfaceId s + 1\<rparr>))"
  shows "vs_ok s'"
proof -
  have c: "creates s' = creates s + 1" by (simp add: s' creates_def)
  have "gfx_view (vs_log s') = Some \<lparr>live = live_ids s', open_frame = None\<rparr>" if "creates s' \<le> 65535"
    using ok that c none fresh_id [OF ok]
    by (simp add: vs_ok_def s' gfx_view_append live_ids_def guard_def)
  moreover have "nextSurfaceId s' = of_nat (creates s' + 1)"
    using ok by (simp add: s' vs_ok_def creates_def)
  ultimately show ?thesis using ok gfx by (simp add: vs_ok_def s')
qed

lemma create_failed_ok:
  assumes ok: "vs_ok s" and none: "surf_id (surface (surf s)) = 0"
    and s': "s' = vs_emit [CreateSurface (nextSurfaceId s) w h False] (s\<lparr>nextSurfaceId := nextSurfaceId s + 1\<rparr>)"
  shows "vs_ok s'"
proof -
  have c: "creates s' = creates s + 1" by (simp add: s' creates_def)
  have "gfx_view (vs_log s') = Some \<lparr>live = live_ids s', open_frame = None\<rparr>" if "creates s' \<le> 65535"
    using ok that c none fresh_id [OF ok]
    by (simp add: vs_ok_def s' gfx_view_append live_ids_def guard_def)
  moreover have "nextSurfaceId s' = of_nat (creates s' + 1)"
    using ok by (simp add: s' vs_ok_def creates_def)
  ultimately show ?thesis using ok none by (simp add: vs_ok_def s')
qed

lemma map_surface_ok:
  assumes "vs_ok s" and "surf_id (surface (surf s)) = sid"
    and "sid \<noteq> 0 \<or> 65535 < creates s"
  shows "vs_ok (map_surface a sid s)"
proof -
  have "vs_ok (vs_emit [MapSurfaceToOutput sid] s)"
    using assms by (auto simp: vs_ok_def creates_def gfx_view_append live_ids_def guard_def)
  then show ?thesis by (simp add: map_surface_def Let_def destroySurface_ok)
qed

lemma performReset_ok:
  assumes ok: "vs_ok s" shows "vs_ok (performReset a sz s)"
proof (cases "gfxContext s")
  case False
  then show ?thesis
    using ok
    by (simp add: performReset_def Let_def vs_ok_def creates_def gfx_view_append live_ids_def)
next
  case gfx: True
  let ?w = "width sz" and ?h = "height sz"
  let ?s1 = "vs_emit [ResetGraphics ?w ?h] (destroySurface s)"
  have ok1: "vs_ok ?s1"
    using destroySurface_ok [OF ok]
    by (simp add: vs_ok_def creates_def gfx_view_append live_ids_def guard_def)
  have none: "surf_id (surface (surf ?s1)) = 0" and gfx1: "gfxContext ?s1" using gfx by simp_all
  let ?id = "nextSurfaceId ?s1"
  let ?s2 = "\<lambda>b. vs_emit [CreateSurface ?id ?w ?h b] (?s1\<lparr>nextSurfaceId := ?id + 1\<rparr>)"
  show ?thesis
  proof (cases "resetStatus a = CHANNEL_RC_OK \<and> createStatus a = CHANNEL_RC_OK")
    case False
    then show ?thesis
      using gfx ok1 create_failed_ok [OF ok1 none refl, of ?w ?h]
      by (auto simp: performReset_def Let_def)
  next
    case True
    define s3 where "s3 = upd_surf (\<lambda>v. v\<lparr>surface := \<lparr>surf_id = ?id,
      codecContextId = (if activeEncodingMode (?s2 True) = Some Progressive then ProgressiveCodecContextId else 0),
      surf_size = sz\<rparr>\<rparr>) (?s2 True)"
    have ok3: "vs_ok s3" using created_ok [OF ok1 none gfx1] by (simp only: s3_def)
    have id: "surf_id (surface (surf s3)) = ?id" by (simp add: s3_def)
    have wrap: "?id \<noteq> 0 \<or> 65535 < creates s3"
      using fresh_id [OF ok1] by (cases "creates ?s1 < 65535") (simp_all add: s3_def creates_def)
    define s4 where "s4 = vs_emit [ProgressiveCreate ?id ?w ?h (progressiveStatus a \<ge> 0)] s3"
    have "quiet s3 s4" by (simp add: s4_def)
    then have ok4: "vs_ok s4" using ok3 by (rule quiet_ok)
    have id4: "surf_id (surface (surf s4)) = ?id" and wrap4: "?id \<noteq> 0 \<or> 65535 < creates s4"
      using id wrap by (simp_all add: s4_def creates_def)
    have "performReset a sz s =
        (if activeEncodingMode s3 = Some Progressive
         then if progressiveStatus a < 0 then destroySurface s4 else map_surface a ?id s4
         else map_surface a ?id s3)"
      using gfx True unfolding performReset_def Let_def s3_def s4_def by simp
    then show ?thesis
      using map_surface_ok [OF ok3 id wrap] map_surface_ok [OF ok4 id4 wrap4] destroySurface_ok [OF ok4]
      by simp
  qed
qed

lemma sendFrameH264_ok:
  assumes ok: "vs_ok s" shows "vs_ok (snd (sendFrameH264 now a fid frame s))"
  using ok
  by (auto simp: sendFrameH264_def Let_def vs_ok_def creates_def gfx_view_append live_ids_def
      guard_def)

lemma sendFrameProgressive_ok:
  assumes ok: "vs_ok s" shows "vs_ok (snd (sendFrameProgressive rects lib compress now fid frame s))"
  using ok
  by (auto simp: sendFrameProgressive_def Let_def vs_ok_def creates_def gfx_view_append live_ids_def
      guard_def split: option.splits)

lemma submit_frame_ok: "vs_ok s \<Longrightarrow> vs_ok (snd (submit_frame env fid frame s))"
  by (simp add: submit_frame_def sendFrameH264_ok sendFrameProgressive_ok)

lemma sendFrame_prepare_ok:
  assumes "vs_ok s" and "sendFrame_prepare env frame s = Some s'"
  shows "vs_ok s'"
proof -
  have "vs_ok (upd_surf (\<lambda>v. v\<lparr>pendingReset := False\<rparr>) s)"
    by (rule quiet_ok [OF _ assms(1)]) (simp add: quiet_surf)
  then show ?thesis
    using assms performReset_ok by (auto simp: sendFrame_prepare_def Let_def split: if_splits)
qed

lemma sendFrame_ok:
  assumes "vs_ok s" shows "vs_ok (sendFrame env frame s)"
proof (cases "sendFrame_prepare env frame s")
  case (Some s1)
  obtain fid s2 where r: "register_frame s1 = (fid, s2)" by (cases "register_frame s1")
  have "quiet s1 s2" using quiet_register_frame [OF quiet_refl, of s1] r by simp
  then have "vs_ok s2" using sendFrame_prepare_ok [OF assms Some] by (rule quiet_ok)
  then have "vs_ok (snd (submit_frame env fid frame s2))" by (rule submit_frame_ok)
  then show ?thesis
    using Some r quiet_ok [OF quiet_finish_frame [OF quiet_refl]]
    by (auto simp: sendFrame_def Let_def split: prod.split)
qed (use assms in \<open>simp add: sendFrame_def\<close>)

lemma submission_round_ok:
  assumes "vs_ok s" shows "vs_ok (submission_round env s)"
proof -
  have "vs_ok (s\<lparr>frameQueue := q\<rparr>)" for q
    by (rule quiet_ok [OF _ assms]) (simp add: quiet_updates)
  then show ?thesis
    using assms sendFrame_ok by (auto simp: submission_round_def split: list.split)
qed

lemma stream_close_ok:
  assumes ok: "vs_ok s" shows "vs_ok (stream_close s)"
proof -
  define s1 where "s1 = vs_emit ((if encodedStream (surf s) then [EncStop] else []) @
      (if sourceStream (surf s) then [SrcStop] else [])) s"
  define s2 where "s2 = destroySurface (s1\<lparr>frameSubmissionThread := False, pendingFrames := [],
      frameAcknowledgementSuspended := False, frameQueue := []\<rparr>)"
  have "quiet s (s1\<lparr>frameSubmissionThread := False, pendingFrames := [],
      frameAcknowledgementSuspended := False, frameQueue := []\<rparr>)"
    by (auto simp: s1_def intro!: quiet_intros)
  then have ok2: "vs_ok s2" unfolding s2_def by (rule destroySurface_ok [OF quiet_ok [OF _ ok]])
  have none: "surf_id (surface (surf s2)) = 0" by (simp add: s2_def)
  show ?thesis
    using ok2 none
    unfolding stream_close_def Let_def s1_def [symmetric] s2_def [symmetric]
    by (auto simp: vs_ok_def creates_def gfx_view_append live_ids_def guard_def)
qed

lemma stream_initialize_ok:
  assumes ok: "vs_ok s" shows "vs_ok (snd (stream_initialize cn gi pn w h s))"
proof (cases "initialized s")
  case False
  then have none: "\<not> gfxContext s" "surf_id (surface (surf s)) = 0" using ok by (auto simp: vs_ok_def)
  have same: "quiet s (s\<lparr>gfxContext := False\<rparr>)" using none by (simp add: quiet_def)
  define s2 where "s2 = (vs_emit [GfxInitialize] (s\<lparr>gfxContext := True\<rparr>))\<lparr>progressive := True\<rparr>"
  define sz where "sz = \<lparr>width = to_int32 (uint w), height = to_int32 (uint h)\<rparr>"
  define s3 where "s3 = (if \<not> qsize_isValid (requestedSize (surf s2)) \<and> \<not> qsize_isEmpty sz
      then surface_setRequestedSize sz s2 else s2)"
  have "vs_ok (s\<lparr>gfxContext := True, initialized := True\<rparr>)"
    using ok none by (simp add: vs_ok_def creates_def live_ids_def)
  moreover have "quiet (s\<lparr>gfxContext := True, initialized := True\<rparr>)
      (s3\<lparr>initialized := True, frameSubmissionThread := True\<rparr>)"
  proof -
    have "quiet (s\<lparr>gfxContext := True\<rparr>) s3"
      unfolding s3_def s2_def by (auto intro!: quiet_intros)
    then show ?thesis by (simp add: quiet_def)
  qed
  ultimately have 3: "vs_ok (s3\<lparr>initialized := True, frameSubmissionThread := True\<rparr>)"
    using quiet_ok by blast
  have "quiet s ((vs_emit [GfxInitialize] (s\<lparr>gfxContext := True\<rparr>))\<lparr>gfxContext := False\<rparr>)"
    "quiet s ((vs_emit [GfxInitialize] (s\<lparr>gfxContext := True\<rparr>))\<lparr>progressive := False, gfxContext := False\<rparr>)"
    using none by (simp_all add: quiet_def)
  then have 12: "vs_ok ((vs_emit [GfxInitialize] (s\<lparr>gfxContext := True\<rparr>))\<lparr>gfxContext := False\<rparr>)"
    "vs_ok ((vs_emit [GfxInitialize] (s\<lparr>gfxContext := True\<rparr>))\<lparr>progressive := False, gfxContext := False\<rparr>)"
    using ok by (auto intro: quiet_ok)
  show ?thesis
    using False 3 12 quiet_ok [OF same ok]
    unfolding stream_initialize_def Let_def s2_def [symmetric] sz_def [symmetric] s3_def [symmetric]
    by (simp only: if_False snd_conv split: if_split) blast
qed (use ok in \<open>simp add: stream_initialize_def\<close>)

lemma onCapsAdvertise_ok:
  assumes ok: "vs_ok s" shows "vs_ok (snd (onCapsAdvertise no_avc created sz st caps s))"
proof -
  define s1 where "s1 = (if capsConfirmed s
      then destroySurface (upd_surf (\<lambda>v. v\<lparr>pendingReset := True\<rparr>) (s\<lparr>capsConfirmed := False\<rparr>)) else s)"
  have "quiet s (upd_surf (\<lambda>v. v\<lparr>pendingReset := True\<rparr>) (s\<lparr>capsConfirmed := False\<rparr>))"
    by (auto intro!: quiet_intros)
  then have ok1: "vs_ok s1" unfolding s1_def using ok quiet_ok destroySurface_ok by auto
  have "quiet s1 (snd (onCapsAdvertise no_avc created sz st caps s))"
    unfolding onCapsAdvertise_def Let_def s1_def [symmetric]
    by (auto intro!: quiet_intros split: option.split)
  then show ?thesis using ok1 by (rule quiet_ok)
qed

lemma vs_step_ok:
  assumes ok: "vs_ok s" shows "vs_ok (vs_step e s)"
proof (cases e)
  case (VsInitialize cn gi pn w h)
  then show ?thesis using stream_initialize_ok [OF ok] by simp
next
  case VsClose
  then show ?thesis using stream_close_ok [OF ok] by simp
next
  case (CapsAdvertise no_avc created sz st caps)
  then show ?thesis using onCapsAdvertise_ok [OF ok] by simp
next
  case (SubmissionRound env)
  then show ?thesis using submission_round_ok [OF ok] by simp
qed (auto simp: onChannelIdAssigned_def intro!: quiet_ok [OF _ ok] quiet_intros)

lemma stream_init_ok: "vs_ok stream_init"
  by (simp add: vs_ok_def stream_init_def surface_init_def creates_def gfx_view_def live_ids_def
      gfx_client_init_def)

interpretation gfx: machine vs_step stream_init "\<lambda>e. True" vs_ok
  by unfold_locales (auto simp: stream_init_ok intro: vs_step_ok)


text \<open>A short session: one H.264 frame, then a second one of another size, then the end.\<close>

definition ok_answers :: reset_answers where
  "ok_answers = \<lparr>resetStatus = 0, createStatus = 0, progressiveStatus = 0, mapStatus = 0\<rparr>"

definition demo_env :: "rect16 list send_env" where
  "demo_env = \<lparr>writeBlocked = False, resetAnswers1 = ok_answers, resetAnswers2 = ok_answers,
     send_time = (1, 2, 3, 4), h264Answers = \<lparr>startStatus = 0, commandStatus = 0, endStatus = 0\<rparr>,
     qt_rects = pixel_rects 4 4, region_lib = rect_list_lib,
     progressive_compress = (\<lambda>r. \<lparr>compressionStatus = 0, encodedData = Some [1], frameCommandStatus = 0\<rparr>)\<rparr>"

definition demo_frame :: "int \<Rightarrow> bool \<Rightarrow> video_frame" where
  "demo_frame w key = \<lparr>frame_size = \<lparr>width = w, height = 4\<rparr>, frame_data = [1, 2, 3],
     frame_image = \<lparr>img_format = 0, img_width = 0, img_height = 0, img_argb32 = []\<rparr>, damage = {},
     isKeyFrame = key, presentationTimeStamp = 0\<rparr>"

definition demo_events :: "rect16 list vs_event list" where
  "demo_events = [VsInitialize True True True 640 480,
     CapsAdvertise False True qsize_default 0 [(0x00080004, 0), (0x000A0400, 0)], SetEnabled True,
     QueueFrame Streaming False (demo_frame 4 True), SubmissionRound demo_env,
     QueueFrame Streaming False (demo_frame 8 False), SubmissionRound demo_env, VsClose]"

lemmas vs_eval = stream_init_def surface_init_def demo_events_def demo_env_def demo_frame_def ok_answers_def
  stream_initialize_def onCapsAdvertise_def negotiated_mode_def supports_h264_def caps_of_def caps_versions
  max_element_by_def stream_setActiveEncodingMode_def surface_setActiveEncodingMode_def drop_streams_def
  setup_encoded_def surface_setRequestedSize_def qsize_isValid_def qsize_isEmpty_def qsize_default_def
  stream_setEnabled_def queueFrame_def enqueue_def updateBackpressure_def HighQueueCount_def LowQueueCount_def
  frame_produced_def submission_round_def hasInFlightCapacity_def rate_init_def quality_init_def
  MaximumInFlightFrames_def sendFrame_def sendFrame_prepare_def register_frame_def submit_frame_def
  finish_frame_def performReset_def destroySurface_def map_surface_def sendFrameH264_def no_surface_def
  stream_close_def CHANNEL_RC_OK_def vs_emit_def upd_surf_def Let_def

lemma demo_log:
  "filter is_create (vs_log (fold vs_step demo_events stream_init)) =
     [CreateSurface 1 4 4 True, CreateSurface 2 8 4 True]"
  "surf_id (surface (surf (fold vs_step demo_events stream_init))) = 0"
  by (simp_all add: vs_eval)


section \<open>Negotiation\<close>

lemma vs_emit_more [simp]:
  "qual (vs_emit xs s) = qual s" "streamingEnabled (vs_emit xs s) = streamingEnabled s"
  "vs_enabled (vs_emit xs s) = vs_enabled s"
  "qual (upd_surf f s) = qual s" "streamingEnabled (upd_surf f s) = streamingEnabled s"
  "vs_enabled (upd_surf f s) = vs_enabled s"
  by (simp_all add: vs_emit_def upd_surf_def)

lemma stream_mode_frame [simp]:
  "activeEncodingMode (stream_setActiveEncodingMode created sz mode s) = Some mode"
  "capsConfirmed (stream_setActiveEncodingMode created sz mode s) = capsConfirmed s"
  "pendingFrames (stream_setActiveEncodingMode created sz mode s) = pendingFrames s"
  "frameAcknowledgementSuspended (stream_setActiveEncodingMode created sz mode s) =
     frameAcknowledgementSuspended s"
  "rate (stream_setActiveEncodingMode created sz mode s) = rate s"
  "surface (surf (stream_setActiveEncodingMode created sz mode s)) = surface (surf s)"
  "pendingReset (surf (stream_setActiveEncodingMode created sz mode s)) = pendingReset (surf s)"
  by (simp_all add: stream_setActiveEncodingMode_def surface_setActiveEncodingMode_def drop_streams_def
      setup_encoded_def setup_source_def failVideoInitialization_def Let_def)

lemma destroySurface_reset [simp]: "pendingReset (surf (destroySurface s)) = pendingReset (surf s)"
  by (simp add: destroySurface_def Let_def)



text \<open>
The set that is confirmed need not be the one that made the server choose H.264: for a client
that offers AVC420 in a version 8.1 set and a version 10.7 set with AVC disabled, the server
switches to H.264 and confirms the set that says AVC is disabled.
\<close>

theorem h264_with_avc_disabled_set:
  "\<exists>caps s'. onCapsAdvertise False True qsize_default CHANNEL_RC_OK caps stream_init = (CHANNEL_RC_OK, s') \<and>
     activeEncodingMode s' = Some H264 \<and> capsConfirmed s' \<and>
     (\<exists>c. last (vs_log s') = CapsConfirm c \<and> \<not> supports_h264 c \<and>
        snd c AND RDPGFX_CAPS_FLAG_AVC_DISABLED \<noteq> 0)"
  by (rule exI [of _ "[(RDPGFX_CAPVERSION_81, RDPGFX_CAPS_FLAG_AVC420_ENABLED),
        (RDPGFX_CAPVERSION_107, RDPGFX_CAPS_FLAG_AVC_DISABLED)]"])
     (simp add: onCapsAdvertise_def negotiated_mode_def supports_h264_def caps_of_def caps_versions
       max_element_by_def Let_def stream_init_def)

end
