(* ===== verification/VideoSubmission.thy ===== *)
theory VideoSubmission
  imports VideoStream
begin

text \<open>
  What the pieces of \<open>src/VideoStream.cpp\<close> do together: what the frame queue holds between two
  sends, how the encoder is paused and resumed, and the submission thread interleaved with the main
  thread and the channel's callbacks at its critical sections.
\<close>

section \<open>The frame queue\<close>

lemma updateBackpressure_queue [simp]: "frameQueue (updateBackpressure p s) = frameQueue s"
  by (simp add: updateBackpressure_def)

lemma queueFrame_fields:
  assumes "vs_enabled s"
  shows "frameQueue (queueFrame Streaming p f s) = frameQueue (enqueue f s)"
    and "activeEncodingMode (queueFrame Streaming p f s) = activeEncodingMode s"
    and "vs_enabled (queueFrame Streaming p f s)"
  using assms
  by (auto simp: queueFrame_def enqueue_def updateBackpressure_def Let_def
      split: option.split encoding_mode.split)

definition h264_add :: "video_frame \<Rightarrow> video_frame list \<Rightarrow> video_frame list" where
  "h264_add f q = (if isKeyFrame f then [] else q) @ [f]"

definition queue_all :: "(bool \<times> video_frame) list \<Rightarrow> video_stream \<Rightarrow> video_stream" where
  "queue_all fs = fold (\<lambda>(paused, f). queueFrame Streaming paused f) fs"

lemma queue_all_h264:
  assumes "vs_enabled s" and "activeEncodingMode s = Some H264"
  shows "frameQueue (queue_all fs s) =
    fold h264_add (map snd fs) (frameQueue s)"
  using assms
proof (induction fs arbitrary: s)
  case (Cons pf fs)
  obtain p f where pf: "pf = (p, f)" by (cases pf)
  show ?case
    using Cons.IH [of "queueFrame Streaming p f s"] queueFrame_fields [OF Cons.prems(1), of p f] Cons.prems
    by (simp add: queue_all_def pf enqueue_def h264_add_def)
qed (simp add: queue_all_def)

lemma queue_all_progressive:
  assumes "vs_enabled s" and "activeEncodingMode s = Some Progressive" and "fs \<noteq> []"
  shows "frameQueue (queue_all fs s) = [(snd (last fs))\<lparr>damage :=
    (\<Union>f\<in>set (map snd fs). damage f) \<union> (if frameQueue s = [] then {} else damage (last (frameQueue s)))\<rparr>]"
  using assms
proof (induction fs arbitrary: s)
  case (Cons pf fs)
  obtain p f where pf: "pf = (p, f)" by (cases pf)
  let ?s = "queueFrame Streaming p f s"
  have q: "frameQueue ?s = [f\<lparr>damage := damage f \<union> (if frameQueue s = [] then {} else damage (last (frameQueue s)))\<rparr>]"
    using queueFrame_fields [OF Cons.prems(1), of p f] Cons.prems by (simp add: enqueue_def Let_def)
  show ?case
  proof (cases "fs = []")
    case True
    then show ?thesis using q by (simp add: queue_all_def pf)
  next
    case False
    have "frameQueue (queue_all (pf # fs) s) = frameQueue (queue_all fs ?s)"
      by (simp add: queue_all_def pf)
    also have "\<dots> = [(snd (last fs))\<lparr>damage := (\<Union>f\<in>set (map snd fs). damage f) \<union> damage (last (frameQueue ?s))\<rparr>]"
      using Cons.IH [of ?s] queueFrame_fields(2,3) [OF Cons.prems(1), of p f] Cons.prems False q
      by (simp del: queueFrame_fields)
    finally show ?thesis using False by (simp add: q pf Un_ac)
  qed
qed simp

lemma fold_key_suffix:
  "\<forall>f\<in>set ys. \<not> isKeyFrame f \<Longrightarrow> fold h264_add ys q = q @ ys"
  by (induction ys arbitrary: q) (auto simp: h264_add_def)



section \<open>Backpressure\<close>

text \<open>The pause flag of the encoder: what was last set.\<close>

fun paused_flag :: "video_out list \<Rightarrow> bool \<Rightarrow> bool" where
  "paused_flag [] b = b"
| "paused_flag (EncSetPaused x # xs) b = paused_flag xs x"
| "paused_flag (_ # xs) b = paused_flag xs b"

lemma paused_flag_append: "paused_flag (xs @ ys) b = paused_flag ys (paused_flag xs b)"
  by (induction xs b rule: paused_flag.induct) auto

text \<open>
Backpressure has hysteresis: with an encoder that reports the pause flag last set, it is paused
after an update exactly when more than three frames wait, or when it was paused and any frame still
waits; and the flag is set only when it changes.
\<close>

theorem backpressure_hysteresis:
  assumes "encodedStream (surf s)" and "flag = paused_flag (vs_log s) False"
  shows "paused_flag (vs_log (updateBackpressure flag s)) False =
      (3 < length (frameQueue s) \<or> flag \<and> 0 < length (frameQueue s)) \<and>
    (vs_log (updateBackpressure flag s) = vs_log s \<or>
     vs_log (updateBackpressure flag s) = vs_log s @ [EncSetPaused (\<not> flag)])"
  using assms
  by (auto simp: updateBackpressure_def HighQueueCount_def LowQueueCount_def paused_flag_append)

theorem backpressure_hysteresis_witness:
  "paused_flag (vs_log (updateBackpressure False
     (upd_surf (\<lambda>v. v\<lparr>encodedStream := True\<rparr>) (stream_init\<lparr>frameQueue := replicate 4 (demo_frame 4 False)\<rparr>)))) False"
  using backpressure_hysteresis
    [of "upd_surf (\<lambda>v. v\<lparr>encodedStream := True\<rparr>) (stream_init\<lparr>frameQueue := replicate 4 (demo_frame 4 False)\<rparr>)" False]
  by (simp add: stream_init_def)

section \<open>The submission thread among the others\<close>

text \<open>
  Where the submission thread is in its loop. It looks at the capacity under the lock, takes a frame
  under the queue's lock, prepares it, registers it under the lock, submits it, and takes it back
  under the lock when that failed; between any two of these the main thread and the callbacks run.
\<close>

datatype thread_pc =
    Looping
  | SawCapacity
  | TookFrame video_frame
  | Prepared video_frame
  | Registered u32 video_frame
  | Submitted u32 bool

fun is_submission :: "'r vs_event \<Rightarrow> bool" where
  "is_submission (SubmissionRound env) = True"
| "is_submission _ = False"

inductive thread_step :: "thread_pc \<times> video_stream \<Rightarrow> thread_pc \<times> video_stream \<Rightarrow> bool" where
  see: "hasInFlightCapacity s \<Longrightarrow> gfxContext s \<Longrightarrow> capsConfirmed s \<Longrightarrow>
    thread_step (Looping, s) (SawCapacity, s)"
| idle: "frameQueue s = [] \<Longrightarrow> thread_step (SawCapacity, s) (Looping, s)"
| skip: "frameQueue s = f # q \<Longrightarrow> qsize_isEmpty (frame_size f) \<Longrightarrow>
    thread_step (SawCapacity, s) (Looping, s\<lparr>frameQueue := q\<rparr>)"
| take: "frameQueue s = f # q \<Longrightarrow> \<not> qsize_isEmpty (frame_size f) \<Longrightarrow>
    thread_step (SawCapacity, s) (TookFrame f, s\<lparr>frameQueue := q\<rparr>)"
| give_up: "sendFrame_prepare (env :: rect16 list send_env) f s = None \<Longrightarrow> thread_step (TookFrame f, s) (Looping, s)"
| prepare: "sendFrame_prepare (env :: rect16 list send_env) f s = Some s' \<Longrightarrow>
    thread_step (TookFrame f, s) (Prepared f, s')"
| register: "register_frame s = (fid, s') \<Longrightarrow> thread_step (Prepared f, s) (Registered fid f, s')"
| submit: "submit_frame (env :: rect16 list send_env) fid f s = (ok, s') \<Longrightarrow>
    thread_step (Registered fid f, s) (Submitted fid ok, s')"
| finish: "thread_step (Submitted fid ok, s) (Looping, finish_frame fid ok s)"
| others: "\<not> is_submission (e :: rect16 list vs_event) \<Longrightarrow> thread_step (pc, s) (pc, vs_step e s)"

inductive_cases thread_stepE: "thread_step (pc, s) (pc', s')"

text \<open>What an operation may do to the pending frames: nothing, take some away, or drop them all.\<close>

definition pending_shrinks :: "video_stream \<Rightarrow> video_stream \<Rightarrow> bool" where
  "pending_shrinks s s' \<longleftrightarrow> set (pendingFrames s') \<subseteq> set (pendingFrames s) \<and>
     length (pendingFrames s') \<le> length (pendingFrames s) \<and>
     (distinct (pendingFrames s) \<longrightarrow> distinct (pendingFrames s')) \<and>
     (frameAcknowledgementSuspended s' \<longrightarrow> pendingFrames s' = [] \<or>
        frameAcknowledgementSuspended s) \<and>
     (rate_inv (rate s) \<longrightarrow> rate_inv (rate s'))"

lemma shrinks_same:
  "pendingFrames s' = pendingFrames s \<Longrightarrow>
   frameAcknowledgementSuspended s' = frameAcknowledgementSuspended s \<Longrightarrow>
   (rate_inv (rate s) \<Longrightarrow> rate_inv (rate s')) \<Longrightarrow> pending_shrinks s s'"
  by (simp add: pending_shrinks_def)

lemma shrinks_none:
  "pendingFrames s' = [] \<Longrightarrow> rate s' = rate s \<Longrightarrow> pending_shrinks s s'"
  by (simp add: pending_shrinks_def)

lemma shrinks_trans: "pending_shrinks s t \<Longrightarrow> pending_shrinks t u \<Longrightarrow> pending_shrinks s u"
  unfolding pending_shrinks_def by (elim conjE, intro conjI) auto

definition keeps_pending :: "video_stream \<Rightarrow> video_stream \<Rightarrow> bool" where
  "keeps_pending s s' \<longleftrightarrow> pendingFrames s' = pendingFrames s \<and>
     frameAcknowledgementSuspended s' = frameAcknowledgementSuspended s \<and>
     (rate_inv (rate s) \<longrightarrow> rate_inv (rate s'))"

lemma keeps_shrinks: "keeps_pending s s' \<Longrightarrow> pending_shrinks s s'"
  by (simp add: keeps_pending_def shrinks_same)

named_theorems keeps_intros

lemma frame_produced_inv: "rate_inv (frame_produced r) = rate_inv r"
  by (simp add: rate_inv_def frame_produced_def)

lemma keeps_basic [keeps_intros]:
  "keeps_pending s s"
  "keeps_pending s t \<Longrightarrow> keeps_pending s (vs_emit xs t)"
  "keeps_pending s t \<Longrightarrow> keeps_pending s (upd_surf f t)"
  "keeps_pending s t \<Longrightarrow> keeps_pending s (t\<lparr>frameQueue := q\<rparr>)"
  "keeps_pending s t \<Longrightarrow> keeps_pending s (t\<lparr>qual := ql\<rparr>)"
  "keeps_pending s t \<Longrightarrow> keeps_pending s (t\<lparr>rate := frame_produced (rate t)\<rparr>)"
  "keeps_pending s t \<Longrightarrow> keeps_pending s (t\<lparr>rate := updateInFlightWindow now avg (rate t)\<rparr>)"
  "keeps_pending s t \<Longrightarrow> keeps_pending s (t\<lparr>activeEncodingMode := m\<rparr>)"
  "keeps_pending s t \<Longrightarrow> keeps_pending s (t\<lparr>frameId := fid\<rparr>)"
  "keeps_pending s t \<Longrightarrow> keeps_pending s (t\<lparr>vs_enabled := b\<rparr>)"
  "keeps_pending s t \<Longrightarrow> keeps_pending s (t\<lparr>streamingEnabled := b\<rparr>)"
  "keeps_pending s t \<Longrightarrow> keeps_pending s (t\<lparr>channelOpen := b\<rparr>)"
  "keeps_pending s t \<Longrightarrow> keeps_pending s (t\<lparr>channelId := cid\<rparr>)"
  "keeps_pending s t \<Longrightarrow> keeps_pending s (t\<lparr>capsConfirmed := b\<rparr>)"
  "keeps_pending s t \<Longrightarrow> keeps_pending s (t\<lparr>progressive := b\<rparr>)"
  "keeps_pending s t \<Longrightarrow> keeps_pending s (t\<lparr>gfxContext := b\<rparr>)"
  "keeps_pending s t \<Longrightarrow> keeps_pending s (t\<lparr>initialized := b\<rparr>)"
  "keeps_pending s t \<Longrightarrow> keeps_pending s (t\<lparr>nextSurfaceId := i\<rparr>)"
  "keeps_pending s t \<Longrightarrow> keeps_pending s (t\<lparr>frameSubmissionThread := b\<rparr>)"
  unfolding keeps_pending_def by (simp_all add: updateInFlightWindow_inv frame_produced_inv)

lemma keeps_surface [keeps_intros]:
  "keeps_pending s t \<Longrightarrow> keeps_pending s (setSize sz t)"
  "keeps_pending s t \<Longrightarrow> keeps_pending s (surface_setRequestedSize sz t)"
  "keeps_pending s t \<Longrightarrow> keeps_pending s (surface_setStreamingEnabled p on t)"
  "keeps_pending s t \<Longrightarrow> keeps_pending s (failVideoInitialization t)"
  "keeps_pending s t \<Longrightarrow> keeps_pending s (drop_streams t)"
  "keeps_pending s t \<Longrightarrow> keeps_pending s (setup_encoded q r t)"
  unfolding setSize_def surface_setRequestedSize_def surface_setStreamingEnabled_def
    failVideoInitialization_def drop_streams_def setup_encoded_def Let_def
  by (auto intro!: keeps_basic)

lemma keeps_source [keeps_intros]:
  "keeps_pending s t \<Longrightarrow> keeps_pending s (setup_source created sz r t)"
  "keeps_pending s t \<Longrightarrow> keeps_pending s (surface_setPipeWireSource created sz node serial fd t)"
  unfolding setup_source_def surface_setPipeWireSource_def Let_def
  by (auto intro!: keeps_basic keeps_surface)

lemma keeps_mode [keeps_intros]:
  "keeps_pending s t \<Longrightarrow> keeps_pending s (surface_setActiveEncodingMode created sz mode q r t)"
  "keeps_pending s t \<Longrightarrow> keeps_pending s (on_quality f t)"
  "keeps_pending s t \<Longrightarrow> keeps_pending s (updateBackpressure p t)"
  "keeps_pending s t \<Longrightarrow> keeps_pending s (enqueue fr t)"
  "keeps_pending s t \<Longrightarrow> keeps_pending s (snd (openChannel ok t))"
  unfolding surface_setActiveEncodingMode_def on_quality_def applyQuality_def
    surface_setVideoQuality_def updateBackpressure_def enqueue_def openChannel_def Let_def
  by (auto intro!: keeps_basic keeps_surface keeps_source split: prod.split option.split encoding_mode.split)

lemma keeps_stream [keeps_intros]:
  "keeps_pending s t \<Longrightarrow> keeps_pending s (stream_setActiveEncodingMode created sz mode t)"
  "keeps_pending s t \<Longrightarrow> keeps_pending s (queueFrame st p fr t)"
  "keeps_pending s t \<Longrightarrow> keeps_pending s (stream_setEnabled on t)"
  "keeps_pending s t \<Longrightarrow> keeps_pending s (stream_setStreamingEnabled p on t)"
  "keeps_pending s t \<Longrightarrow> keeps_pending s (stream_reset t)"
  "keeps_pending s t \<Longrightarrow> keeps_pending s (stream_seedQuality q t)"
  "keeps_pending s t \<Longrightarrow> keeps_pending s (stream_updateAdaptiveQuality g now avg mn t)"
  "keeps_pending s t \<Longrightarrow> keeps_pending s (snd (onChannelIdAssigned cid t))"
  "keeps_pending s t \<Longrightarrow> keeps_pending s (snd (stream_initialize cn gi pn w h t))"
  "keeps_pending s t \<Longrightarrow> keeps_pending s (snd (sendFrameH264 tod a fid fr t))"
  "keeps_pending s t \<Longrightarrow> keeps_pending s (snd (sendFrameProgressive rects lib compress tod fid fr t))"
  unfolding stream_setActiveEncodingMode_def queueFrame_def stream_setEnabled_def
    stream_setStreamingEnabled_def stream_reset_def stream_seedQuality_def
    stream_updateAdaptiveQuality_def onChannelIdAssigned_def stream_initialize_def sendFrameH264_def
    sendFrameProgressive_def Let_def
  by (auto intro!: keeps_basic keeps_surface keeps_mode split: option.split)

lemma performReset_pending:
  "pendingFrames (performReset a sz s) = [] \<or> pendingFrames (performReset a sz s) = pendingFrames s \<and>
     frameAcknowledgementSuspended (performReset a sz s) = frameAcknowledgementSuspended s"
  "rate (performReset a sz s) = rate s"
  by (auto simp: performReset_def map_surface_def Let_def)

lemma performReset_shrinks: "pending_shrinks s (performReset a sz s)"
  using performReset_pending(1) [of a sz s] performReset_pending(2) [of a sz s]
  by (auto intro: shrinks_same shrinks_none)

lemma onFrameAcknowledge_shrinks: "pending_shrinks s (snd (onFrameAcknowledge fid depth s))"
  by (auto simp: onFrameAcknowledge_def Let_def pending_shrinks_def distinct_removeAll
      removeAll_filter_not_eq)

lemma onCapsAdvertise_shrinks:
  "pending_shrinks s (snd (onCapsAdvertise no_avc created sz status caps s))"
proof (cases "capsConfirmed s")
  case True
  then show ?thesis
    by (intro shrinks_none) (simp_all add: onCapsAdvertise_def Let_def split: option.split)
next
  case False
  then have "keeps_pending s (snd (onCapsAdvertise no_avc created sz status caps s))"
    by (auto simp: onCapsAdvertise_def Let_def split: option.split intro!: keeps_intros)
  then show ?thesis by (rule keeps_shrinks)
qed

lemma stream_close_shrinks: "pending_shrinks s (stream_close s)"
  by (rule shrinks_none) (simp_all add: stream_close_def Let_def)

text \<open>Every step of another thread only takes pending frames away, and keeps the window below 60.\<close>

lemma other_step_shrinks:
  assumes "\<not> is_submission e"
  shows "pending_shrinks s (vs_step e s)"
proof -
  consider "keeps_pending s (vs_step e s)" | "pending_shrinks s (vs_step e s)"
  proof (cases e)
    case VsClose
    then show ?thesis using that(2) stream_close_shrinks by simp
  next
    case (CapsAdvertise na cr sz st caps)
    then show ?thesis using that(2) onCapsAdvertise_shrinks by simp
  next
    case (FrameAcknowledge fid d)
    then show ?thesis using that(2) onFrameAcknowledge_shrinks by simp
  next
    case (SubmissionRound env)
    then show ?thesis using assms by simp
  qed (rule that(1), simp, rule keeps_intros, rule keeps_intros)+
  then show ?thesis by cases (auto intro: keeps_shrinks)
qed

text \<open>
  Between seeing the capacity and registering the frame, one place of the window is still free.
\<close>

fun room_needed :: "thread_pc \<Rightarrow> nat" where
  "room_needed SawCapacity = 1"
| "room_needed (TookFrame f) = 1"
| "room_needed (Prepared f) = 1"
| "room_needed _ = 0"

definition thread_inv :: "thread_pc \<times> video_stream \<Rightarrow> bool" where
  "thread_inv ps \<longleftrightarrow> (let s = snd ps in rate_inv (rate s) \<and> distinct (pendingFrames s) \<and>
     (frameAcknowledgementSuspended s \<longrightarrow> pendingFrames s = []) \<and>
     length (pendingFrames s) + room_needed (fst ps) \<le> 60)"

lemma thread_inv_shrinks:
  "thread_inv (pc, s) \<Longrightarrow> pending_shrinks s s' \<Longrightarrow> room_needed pc' \<le> room_needed pc \<Longrightarrow> thread_inv (pc', s')"
  by (auto simp: thread_inv_def pending_shrinks_def Let_def)

lemma queue_update_shrinks: "pending_shrinks s (s\<lparr>frameQueue := q\<rparr>)"
  by (rule shrinks_same) simp_all

lemma prepare_shrinks:
  assumes "sendFrame_prepare env f s = Some s'" shows "pending_shrinks s s'"
proof -
  have same: "pending_shrinks t t" and upd: "pending_shrinks s (upd_surf (\<lambda>v. v\<lparr>pendingReset := False\<rparr>) s)"
    for t by (rule shrinks_same; simp)+
  have reset: "pending_shrinks s (performReset a sz t)" if "pending_shrinks s t" for a sz t
    using that performReset_shrinks by (rule shrinks_trans)
  show ?thesis
    using assms by (auto simp: sendFrame_prepare_def Let_def split: if_splits intro!: reset upd same)
qed

lemma register_inv:
  assumes "thread_inv (Prepared f, s)" and "register_frame s = (fid, s')"
  shows "thread_inv (Registered fid f, s')"
proof -
  have "length (List.insert (frameId s) (pendingFrames s)) \<le> length (pendingFrames s) + 1"
    by (simp add: List.insert_def)
  then show ?thesis
    using assms
    by (cases "frameAcknowledgementSuspended s") (auto simp: thread_inv_def register_frame_def Let_def)
qed

lemma submit_shrinks: "submit_frame env fid f s = (ok, s') \<Longrightarrow> pending_shrinks s s'"
  using keeps_shrinks [OF keeps_stream(10) [OF keeps_basic(1)]]
    keeps_shrinks [OF keeps_stream(11) [OF keeps_basic(1)]]
  by (metis submit_frame_def snd_conv)

lemma finish_shrinks: "pending_shrinks s (finish_frame fid ok s)"
  by (simp add: finish_frame_def pending_shrinks_def distinct_removeAll removeAll_filter_not_eq)

lemma thread_step_inv:
  assumes "thread_step ps ps'" and "thread_inv ps" shows "thread_inv ps'"
  using assms
proof (induction rule: thread_step.induct)
  case (see s)
  then have "length (pendingFrames s) < 60"
    by (simp add: thread_inv_def Let_def hasInFlightCapacity_def rate_inv_def)
  then show ?case using see by (simp add: thread_inv_def Let_def)
next
  case (others e pc s)
  then show ?case using thread_inv_shrinks [OF others(2) other_step_shrinks [OF others(1)]] by simp
next
  case (register s fid s' f)
  then show ?case using register_inv [OF register(2,1)] by simp
next
  case (finish fid ok s)
  then show ?case using thread_inv_shrinks [OF finish finish_shrinks] by simp
next
  case (submit env fid f s ok s')
  then show ?case using thread_inv_shrinks [OF submit(2) submit_shrinks [OF submit(1)]] by simp
next
  case (prepare env f s s')
  then show ?case using thread_inv_shrinks [OF prepare(2) prepare_shrinks [OF prepare(1)]] by simp
next
  case (skip s f q)
  then show ?case using thread_inv_shrinks [OF skip(3) queue_update_shrinks] by simp
next
  case (take s f q)
  then show ?case using thread_inv_shrinks [OF take(3) queue_update_shrinks] by simp
qed (simp_all add: thread_inv_def Let_def)

lemma thread_init_inv: "thread_inv (Looping, stream_init)"
  by (simp add: thread_inv_def Let_def stream_init_def rate_inv_def rate_init_def MaximumInFlightFrames_def)

text \<open>
C7. However the submission thread, the main thread and the callbacks of the graphics channel
interleave, there are never more unacknowledged frames than one second of video (60), no frame is
counted twice, and none is pending while the client has suspended acknowledgements. The reason is in
the steps: only the submission thread adds a frame, and between its look at the capacity and the
registration of the frame the other threads can only take frames away.
\<close>

theorem pending_frames_bounded:
  assumes "thread_step\<^sup>*\<^sup>* (Looping, stream_init) (pc, s)"
  shows "length (pendingFrames s) \<le> 60 \<and> distinct (pendingFrames s) \<and>
    (frameAcknowledgementSuspended s \<longrightarrow> pendingFrames s = [])"
proof -
  have "thread_inv (pc, s)"
    using assms thread_init_inv by (induction rule: rtranclp_induct) (auto intro: thread_step_inv)
  then show ?thesis by (simp add: thread_inv_def Let_def)
qed

theorem pending_frames_bounded_witness:
  "length (pendingFrames (vs_step (FrameAcknowledge 7 SUSPEND_FRAME_ACKNOWLEDGEMENT :: rect16 list vs_event)
     stream_init)) \<le> 60"
proof -
  have "thread_step (Looping, stream_init)
      (Looping, vs_step (FrameAcknowledge 7 SUSPEND_FRAME_ACKNOWLEDGEMENT :: rect16 list vs_event) stream_init)"
    by (rule others) simp
  then have "thread_step\<^sup>*\<^sup>* (Looping, stream_init)
      (Looping, vs_step (FrameAcknowledge 7 SUSPEND_FRAME_ACKNOWLEDGEMENT :: rect16 list vs_event) stream_init)"
    by (rule r_into_rtranclp)
  from pending_frames_bounded [OF this] show ?thesis by (rule conjunct1)
qed

end
