(* ===== verification/VideoSteady.thy ===== *)
theory VideoSteady
  imports VideoSubmission
begin

text \<open>
  What the video stream's threads leave alone: between the calls of the session (\<open>initialize\<close>,
  \<open>openChannel\<close>, \<open>close\<close>) and the capability negotiation, nothing changes the encoding mode
  or opens or closes the channel, and the log only grows.
\<close>

definition steady :: "video_stream \<Rightarrow> video_stream \<Rightarrow> bool" where
  "steady s s' \<longleftrightarrow> activeEncodingMode s' = activeEncodingMode s \<and> channelOpen s' = channelOpen s \<and>
     (\<exists>xs. vs_log s' = vs_log s @ xs)"

named_theorems steady_intros

lemma steady_basic [steady_intros]:
  "steady s s"
  "steady s t \<Longrightarrow> steady s (vs_emit xs t)"
  "steady s t \<Longrightarrow> steady s (upd_surf f t)"
  "steady s t \<Longrightarrow> steady s (t\<lparr>frameQueue := q\<rparr>)"
  "steady s t \<Longrightarrow> steady s (t\<lparr>pendingFrames := p\<rparr>)"
  "steady s t \<Longrightarrow> steady s (t\<lparr>frameAcknowledgementSuspended := b\<rparr>)"
  "steady s t \<Longrightarrow> steady s (t\<lparr>qual := ql\<rparr>)"
  "steady s t \<Longrightarrow> steady s (t\<lparr>rate := r\<rparr>)"
  "steady s t \<Longrightarrow> steady s (t\<lparr>frameId := fid\<rparr>)"
  "steady s t \<Longrightarrow> steady s (t\<lparr>vs_enabled := b\<rparr>)"
  "steady s t \<Longrightarrow> steady s (t\<lparr>streamingEnabled := b\<rparr>)"
  "steady s t \<Longrightarrow> steady s (t\<lparr>channelId := cid\<rparr>)"
  "steady s t \<Longrightarrow> steady s (t\<lparr>capsConfirmed := b\<rparr>)"
  "steady s t \<Longrightarrow> steady s (t\<lparr>progressive := b\<rparr>)"
  "steady s t \<Longrightarrow> steady s (t\<lparr>gfxContext := b\<rparr>)"
  "steady s t \<Longrightarrow> steady s (t\<lparr>initialized := b\<rparr>)"
  "steady s t \<Longrightarrow> steady s (t\<lparr>nextSurfaceId := i\<rparr>)"
  "steady s t \<Longrightarrow> steady s (t\<lparr>frameSubmissionThread := b\<rparr>)"
  unfolding steady_def by (auto simp: vs_emit_def upd_surf_def)

lemma steady_surface [steady_intros]:
  "steady s t \<Longrightarrow> steady s (setSize sz t)"
  "steady s t \<Longrightarrow> steady s (surface_setRequestedSize sz t)"
  "steady s t \<Longrightarrow> steady s (surface_setStreamingEnabled p on t)"
  "steady s t \<Longrightarrow> steady s (failVideoInitialization t)"
  "steady s t \<Longrightarrow> steady s (drop_streams t)"
  "steady s t \<Longrightarrow> steady s (setup_encoded q r t)"
  unfolding setSize_def surface_setRequestedSize_def surface_setStreamingEnabled_def
    failVideoInitialization_def drop_streams_def setup_encoded_def Let_def
  by (auto intro!: steady_basic)

lemma steady_source [steady_intros]:
  "steady s t \<Longrightarrow> steady s (setup_source created sz r t)"
  "steady s t \<Longrightarrow> steady s (surface_setPipeWireSource created sz node serial fd t)"
  "steady s t \<Longrightarrow> steady s (destroySurface t)"
  "steady s t \<Longrightarrow> steady s (map_surface a sid t)"
  unfolding setup_source_def surface_setPipeWireSource_def destroySurface_def map_surface_def Let_def
  by (auto intro!: steady_basic steady_surface)

lemma steady_reset [steady_intros]:
  "steady s t \<Longrightarrow> steady s (performReset a sz t)"
  unfolding performReset_def Let_def by (auto intro!: steady_basic steady_source)

lemma steady_mode [steady_intros]:
  "steady s t \<Longrightarrow> steady s (surface_setActiveEncodingMode created sz mode q r t)"
  "steady s t \<Longrightarrow> steady s (on_quality f t)"
  "steady s t \<Longrightarrow> steady s (updateBackpressure p t)"
  "steady s t \<Longrightarrow> steady s (enqueue fr t)"
  unfolding surface_setActiveEncodingMode_def on_quality_def applyQuality_def
    surface_setVideoQuality_def updateBackpressure_def enqueue_def Let_def
  by (auto intro!: steady_basic steady_surface steady_source
      split: prod.split option.split encoding_mode.split)

lemma steady_stream [steady_intros]:
  "steady s t \<Longrightarrow> steady s (queueFrame st p fr t)"
  "steady s t \<Longrightarrow> steady s (stream_setEnabled on t)"
  "steady s t \<Longrightarrow> steady s (stream_setStreamingEnabled p on t)"
  "steady s t \<Longrightarrow> steady s (stream_reset t)"
  "steady s t \<Longrightarrow> steady s (stream_seedQuality q t)"
  "steady s t \<Longrightarrow> steady s (stream_updateAdaptiveQuality g now avg mn t)"
  "steady s t \<Longrightarrow> steady s (snd (onChannelIdAssigned cid t))"
  "steady s t \<Longrightarrow> steady s (snd (onFrameAcknowledge fid depth t))"
  "steady s t \<Longrightarrow> steady s (snd (stream_initialize cn gi pn w h t))"
  "steady s t \<Longrightarrow> steady s (snd (sendFrameH264 tod ha fid fr t))"
  "steady s t \<Longrightarrow> steady s (snd (sendFrameProgressive rects lib compress tod fid fr t))"
  unfolding queueFrame_def stream_setEnabled_def
    stream_setStreamingEnabled_def stream_reset_def stream_seedQuality_def
    stream_updateAdaptiveQuality_def onChannelIdAssigned_def onFrameAcknowledge_def
    stream_initialize_def sendFrameH264_def sendFrameProgressive_def Let_def
  by (auto intro!: steady_basic steady_surface steady_mode split: option.split)

lemma steady_trans: "steady s t \<Longrightarrow> steady t u \<Longrightarrow> steady s u"
  by (auto simp: steady_def)

lemma steady_sendFrame [steady_intros]:
  assumes "steady s t"
  shows "steady s (sendFrame env frame t)"
proof (cases "sendFrame_prepare env frame t")
  case None
  with assms show ?thesis by (simp add: sendFrame_def)
next
  case (Some s1)
  have "steady t s1" using Some
    by (auto simp: sendFrame_prepare_def Let_def split: if_splits intro!: steady_basic steady_reset)
  moreover have "steady s1 (snd (register_frame s1))"
    by (auto simp: register_frame_def Let_def intro!: steady_basic)
  moreover have "steady u (snd (submit_frame env fid frame u))" for fid u
    by (auto simp: submit_frame_def intro!: steady_basic(1) steady_stream)
  moreover have "steady u (finish_frame fid sub u)" for fid sub u
    by (auto simp: finish_frame_def intro!: steady_basic)
  ultimately have "steady t (sendFrame env frame t)"
    using Some by (auto simp: sendFrame_def Let_def split: prod.split)
      (metis snd_conv steady_trans)
  with assms show ?thesis by (rule steady_trans)
qed

lemma steady_round [steady_intros]: "steady s (submission_round env s)"
  by (auto simp: submission_round_def split: list.split intro!: steady_basic steady_sendFrame)

text \<open>The events that are neither calls of the session nor the capability negotiation.\<close>

fun is_session_call :: "'r vs_event \<Rightarrow> bool" where
  "is_session_call (VsInitialize cn gi pn w h) = True"
| "is_session_call VsClose = True"
| "is_session_call (VsOpenChannel ok) = True"
| "is_session_call (CapsAdvertise no_avc created sz status caps) = True"
| "is_session_call _ = False"

lemma steady_step:
  assumes "\<not> is_session_call e"
  shows "steady s (vs_step e s)"
  using assms by (cases e) (simp_all add: steady_intros)

section \<open>The log only grows\<close>

definition grows :: "video_stream \<Rightarrow> video_stream \<Rightarrow> bool" where
  "grows s s' \<longleftrightarrow> (\<exists>xs. vs_log s' = vs_log s @ xs)"

named_theorems grows_intros

lemma grows_basic [grows_intros]:
  "grows s s"
  "grows s t \<Longrightarrow> grows s (vs_emit xs t)"
  "grows s t \<Longrightarrow> grows s (t\<lparr>frameQueue := q\<rparr>)"
  "grows s t \<Longrightarrow> grows s (t\<lparr>pendingFrames := p\<rparr>)"
  "grows s t \<Longrightarrow> grows s (t\<lparr>frameAcknowledgementSuspended := b\<rparr>)"
  "grows s t \<Longrightarrow> grows s (t\<lparr>frameSubmissionThread := b\<rparr>)"
  "grows s t \<Longrightarrow> grows s (t\<lparr>activeEncodingMode := m\<rparr>)"
  "grows s t \<Longrightarrow> grows s (t\<lparr>channelOpen := b\<rparr>)"
  "grows s t \<Longrightarrow> grows s (t\<lparr>gfxContext := b\<rparr>)"
  "grows s t \<Longrightarrow> grows s (t\<lparr>capsConfirmed := b\<rparr>)"
  "grows s t \<Longrightarrow> grows s (t\<lparr>initialized := b\<rparr>)"
  by (auto simp: grows_def vs_emit_def)

lemma steady_grows: "grows s t \<Longrightarrow> steady t u \<Longrightarrow> grows s u"
  by (auto simp: steady_def grows_def)

lemma grows_surface [grows_intros]:
  "grows s t \<Longrightarrow> grows s (destroySurface t)"
  "grows s t \<Longrightarrow> grows s (upd_surf f t)"
  "grows s t \<Longrightarrow> grows s (surface_setActiveEncodingMode created sz mode q r t)"
  by (erule steady_grows, intro steady_intros)+

lemma grows_calls [grows_intros]:
  "grows s t \<Longrightarrow> grows s (snd (openChannel ok t))"
  "grows s t \<Longrightarrow> grows s (stream_close t)"
  "grows s t \<Longrightarrow> grows s (stream_setActiveEncodingMode created sz mode t)"
  unfolding openChannel_def stream_close_def stream_setActiveEncodingMode_def Let_def
  by (auto intro!: grows_intros)

lemma grows_caps [grows_intros]:
  "grows s t \<Longrightarrow> grows s (snd (onCapsAdvertise no_avc created sz status caps t))"
  unfolding onCapsAdvertise_def Let_def by (auto intro!: grows_intros split: option.split)

lemma grows_step: "grows s (vs_step e s)"
proof (cases "is_session_call e")
  case True
  then show ?thesis
    by (cases e) (auto intro!: grows_intros intro: steady_grows [OF grows_basic(1)] steady_stream(9)
        [OF steady_basic(1)])
next
  case False
  then show ?thesis by (rule steady_grows [OF grows_basic(1) steady_step])
qed

interpretation sent: logging_machine vs_step stream_init "\<lambda>e. True" vs_ok vs_log
  by unfold_locales (use grows_step in \<open>simp add: grows_def\<close>)

end
