(* ===== verification/RdpConnection.thy ===== *)
theory RdpConnection
  imports ConnectionSettings NetworkDetection InputHandler Clipboard DisplayControl VideoSteady
begin

text \<open>
  A connection, \<open>src/RdpConnection.cpp\<close>: the main thread that creates, closes and destroys it, the
  run thread that owns the peer, and the parts both of them drive. The run thread is cut where another
  thread can come in between: at its waits and between the statements of one pass of its loop. A
  result \<open>None\<close> is a null pointer that is followed, or a call that never returns.
\<close>

section \<open>State\<close>

text \<open>
  Where the run thread is: before and after its start, at the head of the loop, in
  \<open>WaitForMultipleObjects\<close>, before each of the four stages of a pass, before the two stages of its
  end, and gone.
\<close>

datatype run_pc =
    NoThread | Begin | LoopHead | Waiting | Channels | InitChannels | OpenVideo | Detect
  | ClosingPeer | ClosingParts | Finished

datatype drdynvc_state = DrdynvcNone | DrdynvcInitialized | DrdynvcReady | DrdynvcFailed

text \<open>What waits in the main thread's event queue for this connection.\<close>

datatype task = SeedTask u8 | VideoClosedTask

datatype conn_out =
    StateChanged conn_state
  | PeerNew
  | ContextNew
  | PeerInitialize bool
  | GetEventHandles
  | CheckFileDescriptor
  | ManagerOpen
  | CheckManager
  | PeerClose
  | SetErrorInfo close_reason
  | ContextFree
  | PeerFree
  | Fatal

record connection =
  c_state :: conn_state
  qualitySeeded :: bool
  c_input :: input_handler
  c_disp :: display_control
  c_video :: video_stream
  c_net :: network_detection
  c_clip :: clipboard
  has_peer :: bool
  has_context :: bool
  c_settings :: rdp_settings
  c_pc :: run_pc
  stop_requested :: bool
  has_stopEvent :: bool
  stop_signalled :: bool
  cliprdrJoined :: bool
  drdynvcJoined :: bool
  drdynvcState :: drdynvc_state
  tasks :: "task list"
  destroying :: bool
  destroyed :: bool
  aborted :: bool
  c_log :: "conn_out list"

definition conn_init :: "rdp_settings \<Rightarrow> connection" where
  "conn_init settings = \<lparr>c_state = Initial, qualitySeeded = False, c_input = input_init,
     c_disp = display_init, c_video = stream_init, c_net = nd_init, c_clip = clip_init,
     has_peer = False, has_context = False, c_settings = settings, c_pc = NoThread,
     stop_requested = False, has_stopEvent = False, stop_signalled = False,
     cliprdrJoined = False, drdynvcJoined = False, drdynvcState = DrdynvcNone, tasks = [],
     destroying = False, destroyed = False, aborted = False, c_log = []\<rparr>"

definition conn_emit :: "conn_out list \<Rightarrow> connection \<Rightarrow> connection" where
  "conn_emit xs c = c\<lparr>c_log := c_log c @ xs\<rparr>"

section \<open>State changes and closing\<close>

definition conn_setState :: "conn_state \<Rightarrow> connection \<Rightarrow> connection" where
  "conn_setState newState c =
     (if newState = c_state c then c else conn_emit [StateChanged newState] (c\<lparr>c_state := newState\<rparr>))"

text \<open>\<open>thread.request_stop()\<close> does nothing while there is no thread.\<close>

definition requestStop :: "connection \<Rightarrow> connection" where
  "requestStop c = c\<lparr>stop_requested := stop_requested c \<or> c_pc c \<noteq> NoThread,
                     stop_signalled := stop_signalled c \<or> has_stopEvent c\<rparr>"

definition conn_close :: "close_reason \<Rightarrow> connection \<Rightarrow> connection option" where
  "conn_close reason c =
     (if c_state c = Closed then Some c
      else case reason of
             NoReason \<Rightarrow> Some (requestStop c)
           | _ \<Rightarrow> if \<not> has_context c then None
                   else Some (requestStop (conn_emit [SetErrorInfo reason] c)))"

text \<open>
  What the video stream calls on its session, and the slot on its \<open>closed\<close> signal, which goes
  through the main thread's queue.
\<close>

fun react :: "video_out \<Rightarrow> connection \<Rightarrow> connection option" where
  "react (SessionClose reason) c = conn_close reason c"
| "react StreamClosed c = Some (c\<lparr>tasks := tasks c @ [VideoClosedTask]\<rparr>)"
| "react _ c = Some c"

definition video_do :: "(video_stream \<Rightarrow> video_stream) \<Rightarrow> connection \<Rightarrow> connection option" where
  "video_do f c =
     (let v = f (c_video c)
      in fold (lift_step react) (drop (length (vs_log (c_video c))) (vs_log v)) (Some (c\<lparr>c_video := v\<rparr>)))"

fun run_task :: "task \<Rightarrow> connection \<Rightarrow> connection option" where
  "run_task (SeedTask seed) c = video_do (stream_seedQuality seed) c"
| "run_task VideoClosedTask c =
     (if c_state c = Running \<or> c_state c = Streaming then Some (requestStop c) else Some c)"

definition run_next_task :: "connection \<Rightarrow> connection option" where
  "run_next_task c = (case tasks c of [] \<Rightarrow> Some c | t # ts \<Rightarrow> run_task t (c\<lparr>tasks := ts\<rparr>))"

definition run_all_tasks :: "connection \<Rightarrow> connection option" where
  "run_all_tasks c = fold (lift_step run_task) (tasks c) (Some (c\<lparr>tasks := []\<rparr>))"

text \<open>
  The capability negotiation runs on the channel's thread and waits for the main thread to set the
  encoding mode (\<open>BlockingQueuedConnection\<close>); by then the main thread has run what was queued
  before.
\<close>

definition caps_callback ::
  "bool \<Rightarrow> bool \<Rightarrow> qsize \<Rightarrow> u32 \<Rightarrow> capset list \<Rightarrow> connection \<Rightarrow> connection option" where
  "caps_callback h264Disabled created sourceSize status caps c =
     (let negotiate = video_do (\<lambda>v. snd (onCapsAdvertise h264Disabled created sourceSize status caps v))
      in if negotiated_mode h264Disabled caps = None then negotiate c
         else Option.bind (run_all_tasks c) negotiate)"

section \<open>Initialization\<close>

text \<open>What the libraries answer, and the hash function of the SAM file.\<close>

record init_env =
  peer_new_ok :: bool
  manager_ok :: bool
  sam_opened :: bool
  sam_set :: bool
  certificate_ok :: bool
  key_ok :: bool
  peer_initialize_ok :: bool
  h264_disabled :: bool
  nt_hash :: "qstring \<Rightarrow> u8 list"
  sam_name :: qstring

text \<open>\<open>newPeerContext\<close>: without a channel manager the context is freed again.\<close>

definition newPeerContext :: "bool \<Rightarrow> connection \<Rightarrow> bool \<times> connection" where
  "newPeerContext manager c =
     (if manager then (True, conn_emit [ContextNew] (c\<lparr>has_context := True\<rparr>))
      else (False, conn_emit [ContextNew, ContextFree] c))"

definition use_sam :: "init_env \<Rightarrow> server \<Rightarrow> connection \<Rightarrow> bool \<times> connection" where
  "use_sam env srv c =
     (if usePamAuthentication srv then (True, c)
      else case createSamFile (nt_hash env) (sam_opened env) (users srv) of
             None \<Rightarrow> (False, conn_emit [Fatal] (c\<lparr>aborted := True\<rparr>))
           | Some content \<Rightarrow>
               if \<not> sam_set env then (False, conn_emit [Fatal] (c\<lparr>aborted := True\<rparr>))
               else (True, c\<lparr>c_settings := (c_settings c)\<lparr>NtlmSamFile := Some (sam_name env)\<rparr>\<rparr>))"

definition conn_initialize :: "init_env \<Rightarrow> server \<Rightarrow> connection \<Rightarrow> connection" where
  "conn_initialize env srv c =
     (let c1 = conn_setState Starting c
      in if \<not> peer_new_ok env then c1
         else
           let (context_ok, c2) = newPeerContext (manager_ok env) (conn_emit [PeerNew] (c1\<lparr>has_peer := True\<rparr>))
           in if \<not> context_ok then c2
              else
                let (sam_ok, c3) = use_sam env srv c2
                in if \<not> sam_ok then c3
                   else if \<not> certificate_ok env then c3
                   else
                     let c4 = c3\<lparr>c_settings := (c_settings c3)\<lparr>has_certificate := True\<rparr>\<rparr>
                     in if \<not> key_ok env then c4
                        else
                          let c5 = conn_emit [PeerInitialize (peer_initialize_ok env)]
                                     (c4\<lparr>c_settings := setup_settings (usePamAuthentication srv) (h264_disabled env)
                                           ((c_settings c4)\<lparr>has_key := True\<rparr>)\<rparr>)
                          in if \<not> peer_initialize_ok env then c5
                             else c5\<lparr>has_stopEvent := True, c_pc := Begin\<rparr>)"

section \<open>Callbacks of the peer\<close>

definition onActivate :: "connection \<Rightarrow> connection" where
  "onActivate c =
     (let c1 = conn_setState Activated c
      in if qualitySeeded c1 then c1
         else
           let c2 = c1\<lparr>qualitySeeded := True\<rparr>
           in case qualitySeedForConnectionType (num_of (c_settings c2) ConnectionType) of
                None \<Rightarrow> c2
              | Some seed \<Rightarrow> c2\<lparr>tasks := tasks c2 @ [SeedTask seed]\<rparr>)"

definition onSuppressOutput :: "u8 \<Rightarrow> connection \<Rightarrow> connection option" where
  "onSuppressOutput allow c =
     (if allow \<noteq> 0 then video_do (stream_setEnabled True) c else video_do (stream_setEnabled False) c)"

text \<open>
  The callbacks FreeRDP makes from \<open>CheckFileDescriptor\<close>. The settings of \<open>CbCapabilities\<close> are
  those with the client's capabilities in.
\<close>

datatype peer_callback =
    CbCapabilities rdp_settings
  | CbPostConnect pam_lib bool qstring credentials
  | CbActivate
  | CbSuppressOutput u8
  | CbInput input_tables input_pdu
  | CbRttResponse u16 ticks ticks
  | CbBandwidthResults u32 u32 ticks

definition returning :: "connection option \<Rightarrow> (bool \<times> connection) option" where
  "returning = map_option (Pair True)"

definition net_do :: "nd_event \<Rightarrow> connection \<Rightarrow> connection option" where
  "net_do e c = map_option (\<lambda>n. c\<lparr>c_net := n\<rparr>) (nd_step e (c_net c))"

fun peer_call :: "server \<Rightarrow> peer_callback \<Rightarrow> connection \<Rightarrow> (bool \<times> connection) option" where
  "peer_call srv (CbCapabilities client) c =
     (let (ok, s) = onCapabilities client in Some (ok, c\<lparr>c_settings := s\<rparr>))"
| "peer_call srv (CbPostConnect lib autologon_set loginName cred) c =
     Some (fst (onPostConnect lib autologon_set loginName srv cred),
           if usePamAuthentication srv \<and> autologon_set
           then c\<lparr>c_settings := set_bool AutoLogonEnabled True (c_settings c)\<rparr> else c)"
| "peer_call srv CbActivate c = Some (True, onActivate c)"
| "peer_call srv (CbSuppressOutput allow) c = returning (onSuppressOutput allow c)"
| "peer_call srv (CbInput tables pdu) c =
     (let (ok, i) = input_pdu_step tables pdu (c_input c) in Some (ok, c\<lparr>c_input := i\<rparr>))"
| "peer_call srv (CbRttResponse sequence now now_avg) c =
     returning (net_do (NdRttResponse sequence now now_avg) c)"
| "peer_call srv (CbBandwidthResults delta bytes now) c =
     returning (net_do (NdBandwidthResults delta bytes now) c)"

text \<open>A callback that returns false makes FreeRDP give up the rest.\<close>

fun peer_calls :: "server \<Rightarrow> peer_callback list \<Rightarrow> connection \<Rightarrow> (bool \<times> connection) option" where
  "peer_calls srv [] c = Some (True, c)"
| "peer_calls srv (cb # cbs) c =
     (case peer_call srv cb c of
        None \<Rightarrow> None
      | Some (ok, c1) \<Rightarrow> if ok then peer_calls srv cbs c1 else Some (False, c1))"

section \<open>The run thread\<close>

text \<open>What one pass of the loop meets.\<close>

record run_env =
  handleCount :: int
  callbacks :: "peer_callback list"
  check_ok :: bool
  channel_joined :: "bool \<times> bool"
  channel_state :: drdynvc_state
  connected :: bool
  manager_open_ok :: bool
  manager_check_ok :: bool
  clip_answers :: "bool \<times> u32"
  disp_answers :: "bool \<times> u32 \<times> u32"
  video_answers :: "bool \<times> bool \<times> bool"
  channel_open_ok :: bool
  clocks :: "ticks \<times> ticks"
  clip_stop :: u32

definition run_begin :: "connection \<Rightarrow> connection" where
  "run_begin c = (conn_setState Running c)\<lparr>c_pc := LoopHead\<rparr>"

definition run_head :: "run_env \<Rightarrow> connection \<Rightarrow> connection" where
  "run_head env c =
     (if stop_requested c then c\<lparr>c_pc := ClosingPeer\<rparr>
      else
        let c1 = conn_emit [GetEventHandles] c
        in if handleCount env \<le> 0 then c1\<lparr>c_pc := ClosingPeer\<rparr> else c1\<lparr>c_pc := Waiting\<rparr>)"

definition run_woken :: "server \<Rightarrow> run_env \<Rightarrow> connection \<Rightarrow> connection option" where
  "run_woken srv env c =
     (if stop_requested c then Some (c\<lparr>c_pc := ClosingPeer\<rparr>)
      else case peer_calls srv (callbacks env) (conn_emit [CheckFileDescriptor] c) of
             None \<Rightarrow> None
           | Some (ok, c1) \<Rightarrow>
               if \<not> (ok \<and> check_ok env) then Some (c1\<lparr>c_pc := ClosingPeer\<rparr>)
               else Some (c1\<lparr>cliprdrJoined := fst (channel_joined env),
                             drdynvcJoined := snd (channel_joined env),
                             drdynvcState := channel_state env, c_pc := Channels\<rparr>))"

definition run_channels :: "run_env \<Rightarrow> connection \<Rightarrow> connection" where
  "run_channels env c =
     (let active = (connected env \<and> c_state c = Activated);
          opens = (active \<and> drdynvcJoined c \<and> drdynvcState c = DrdynvcNone);
          c1 = (if opens then conn_emit [ManagerOpen] c else c)
      in if opens \<and> \<not> manager_open_ok env then c1\<lparr>c_pc := ClosingPeer\<rparr>
         else
           let c2 = conn_emit [CheckManager] c1
           in if \<not> manager_check_ok env then c2\<lparr>c_pc := ClosingPeer\<rparr>
              else if active \<and> cliprdrJoined c2
              then
                let (ok, clip) = clip_initialize (fst (clip_answers env)) (snd (clip_answers env)) (c_clip c2)
                in c2\<lparr>c_clip := clip, c_pc := (if ok then InitChannels else ClosingPeer)\<rparr>
              else c2\<lparr>c_pc := InitChannels\<rparr>)"

definition run_init :: "run_env \<Rightarrow> connection \<Rightarrow> connection option" where
  "run_init env c =
     (if connected env \<and> c_state c = Activated \<and> drdynvcJoined c \<and> drdynvcState c = DrdynvcReady
      then
        let (disp_ok, disp) = (case disp_answers env of (cn, op, cp) \<Rightarrow> display_initialize cn op cp (c_disp c));
            c1 = c\<lparr>c_disp := disp\<rparr>
        in if \<not> disp_ok then Some (c1\<lparr>c_pc := ClosingPeer\<rparr>)
           else
             let initialize = (case video_answers env of (cn, gi, pn) \<Rightarrow>
                    stream_initialize cn gi pn (num_of (c_settings c1) DesktopWidth)
                      (num_of (c_settings c1) DesktopHeight))
             in case video_do (\<lambda>v. snd (initialize v)) c1 of
                  None \<Rightarrow> None
                | Some c2 \<Rightarrow>
                    if \<not> fst (initialize (c_video c1)) then Some (c2\<lparr>c_pc := ClosingPeer\<rparr>)
                    else map_option (\<lambda>c3. c3\<lparr>c_pc := OpenVideo\<rparr>) (video_do (stream_setEnabled True) c2)
      else Some (c\<lparr>c_pc := OpenVideo\<rparr>))"

definition run_open :: "run_env \<Rightarrow> connection \<Rightarrow> connection option" where
  "run_open env c =
     (if connected env \<and> c_state c = Activated \<and> drdynvcJoined c \<and> drdynvcState c = DrdynvcReady
      then case video_do (\<lambda>v. snd (openChannel (channel_open_ok env) v)) c of
             None \<Rightarrow> None
           | Some c1 \<Rightarrow>
               if \<not> fst (openChannel (channel_open_ok env) (c_video c)) then Some (c1\<lparr>c_pc := Detect\<rparr>)
               else Some ((conn_setState Streaming c1)\<lparr>c_pc := Detect\<rparr>)
      else Some (c\<lparr>c_pc := Detect\<rparr>))"

definition run_detect :: "run_env \<Rightarrow> connection \<Rightarrow> connection option" where
  "run_detect env c =
     map_option (\<lambda>c1. c1\<lparr>c_pc := LoopHead\<rparr>)
       (net_do (NdUpdate (c_state c) (fst (clocks env)) (snd (clocks env))) c)"

definition run_close_peer :: "connection \<Rightarrow> connection" where
  "run_close_peer c = (if has_peer c then conn_emit [PeerClose] c else c)\<lparr>c_pc := ClosingParts\<rparr>"

definition onClose :: "run_env \<Rightarrow> connection \<Rightarrow> connection option" where
  "onClose env c =
     map_option (conn_setState Closed)
       (video_do stream_close
          (c\<lparr>c_disp := display_close (c_disp c), c_clip := clip_close (clip_stop env) (c_clip c)\<rparr>))"

definition run_step :: "server \<Rightarrow> run_env \<Rightarrow> connection \<Rightarrow> connection option" where
  "run_step srv env c =
     (case c_pc c of
        NoThread \<Rightarrow> Some c
      | Begin \<Rightarrow> Some (run_begin c)
      | LoopHead \<Rightarrow> Some (run_head env c)
      | Waiting \<Rightarrow> run_woken srv env c
      | Channels \<Rightarrow> Some (run_channels env c)
      | InitChannels \<Rightarrow> run_init env c
      | OpenVideo \<Rightarrow> run_open env c
      | Detect \<Rightarrow> run_detect env c
      | ClosingPeer \<Rightarrow> Some (run_close_peer c)
      | ClosingParts \<Rightarrow> map_option (\<lambda>c1. c1\<lparr>c_pc := Finished\<rparr>) (onClose env c)
      | Finished \<Rightarrow> Some c)"

section \<open>Destruction\<close>

text \<open>
  The destructor in two steps: before and after \<open>join\<close>, which returns once the thread is gone.
\<close>

definition destroy_begin :: "connection \<Rightarrow> connection" where
  "destroy_begin c =
     (if c_pc c \<noteq> NoThread then (requestStop c)\<lparr>destroying := True\<rparr>
      else if has_peer c \<and> c_state c \<noteq> Closed then (conn_emit [PeerClose] c)\<lparr>destroying := True\<rparr>
      else c\<lparr>destroying := True\<rparr>)"

definition destroy_end :: "connection \<Rightarrow> connection" where
  "destroy_end c =
     (let c1 = (if has_peer c
                then (conn_emit [ContextFree, PeerFree] c)\<lparr>has_peer := False, has_context := False\<rparr> else c)
      in c1\<lparr>has_stopEvent := False, destroyed := True\<rparr>)"

section \<open>All threads together\<close>

text \<open>
  The events: the queued \<open>initialize\<close>, steps of the run thread, closing from outside, tasks of the
  main thread, callbacks of the channels, other calls and the submission thread of the video stream,
  and the destructor. An event that cannot happen leaves the state alone: \<open>initialize\<close> runs once;
  the session controller names a reason, and uses the video stream, only of a connection that was
  activated, which is also when the stream's own thread is started; callbacks of the graphics channel
  come while it is open; \<open>join\<close> waits for the thread.
\<close>

datatype 'r conn_event =
    Initialize init_env
  | RunStep run_env
  | CloseConnection close_reason
  | RunTask
  | CapsCallback bool bool qsize u32 "capset list"
  | VideoEvent "'r vs_event"
  | ClipEvent clip_event
  | MonitorLayout "monitor_layout list"
  | DestroyBegin
  | DestroyEnd

fun is_clip_call :: "clip_event \<Rightarrow> bool" where
  "is_clip_call (ClipInitialize cn rc) = True"
| "is_clip_call (ClipClose rc) = True"
| "is_clip_call _ = False"

fun possible :: "'r conn_event \<Rightarrow> connection \<Rightarrow> bool" where
  "possible (Initialize env) c = (c_state c = Initial \<and> \<not> destroying c)"
| "possible (RunStep env) c = True"
| "possible (CloseConnection reason) c =
     (reason = NoReason \<or> StateChanged Activated \<in> set (c_log c))"
| "possible RunTask c = True"
| "possible (CapsCallback no_avc created sz status caps) c = channelOpen (c_video c)"
| "possible (VideoEvent e) c =
     (\<not> is_session_call e \<and> StateChanged Activated \<in> set (c_log c))"
| "possible (ClipEvent e) c = (\<not> is_clip_call e)"
| "possible (MonitorLayout monitors) c = m_dispManager (c_disp c)"
| "possible DestroyBegin c = (\<not> destroying c)"
| "possible DestroyEnd c = (destroying c \<and> (c_pc c = NoThread \<or> c_pc c = Finished))"

fun conn_step :: "server \<Rightarrow> 'r conn_event \<Rightarrow> connection \<Rightarrow> connection option" where
  "conn_step srv (Initialize env) c = Some (conn_initialize env srv c)"
| "conn_step srv (RunStep env) c = run_step srv env c"
| "conn_step srv (CloseConnection reason) c = conn_close reason c"
| "conn_step srv RunTask c = run_next_task c"
| "conn_step srv (CapsCallback no_avc created sz status caps) c =
     caps_callback no_avc created sz status caps c"
| "conn_step srv (VideoEvent e) c = video_do (vs_step e) c"
| "conn_step srv (ClipEvent e) c = Some (c\<lparr>c_clip := clip_step e (c_clip c)\<rparr>)"
| "conn_step srv (MonitorLayout monitors) c =
     Some (c\<lparr>c_disp := snd (receiveMonitorLayout monitors (c_disp c))\<rparr>)"
| "conn_step srv DestroyBegin c = Some (destroy_begin c)"
| "conn_step srv DestroyEnd c = Some (destroy_end c)"

definition conn_do :: "server \<times> 'r conn_event \<Rightarrow> connection \<Rightarrow> connection option" where
  "conn_do se c =
     (case se of (srv, e) \<Rightarrow>
        if aborted c \<or> destroyed c \<or> \<not> possible e c then Some c else conn_step srv e c)"

end
