(* ===== verification/ConnectionLife.thy ===== *)
theory ConnectionLife
  imports RdpConnection
begin

text \<open>
  What holds of a connection whatever its threads do: its life cycle, the use of its peer, that it
  never follows a null pointer, that it ends when asked to, and what becomes of the quality seed.
\<close>

section \<open>Two observers\<close>

text \<open>The life cycle, as the listeners of \<open>stateChanged\<close> see it.\<close>

fun life_cmd :: "conn_out \<Rightarrow> conn_state \<Rightarrow> conn_state option" where
  "life_cmd (StateChanged Starting) Initial = Some Starting"
| "life_cmd (StateChanged Running) Starting = Some Running"
| "life_cmd (StateChanged Activated) Running = Some Activated"
| "life_cmd (StateChanged Activated) Streaming = Some Activated"
| "life_cmd (StateChanged Streaming) Activated = Some Streaming"
| "life_cmd (StateChanged Closed) Running = Some Closed"
| "life_cmd (StateChanged Closed) Activated = Some Closed"
| "life_cmd (StateChanged Closed) Streaming = Some Closed"
| "life_cmd (StateChanged s') s = None"
| "life_cmd _ s = Some s"

text \<open>The peer, as FreeRDP sees it. \<open>None\<close> is a call it must not get.\<close>

datatype peer_view = NoPeer | PeerOnly | WithContext | Served | ClosedPeer | FreedPeer

fun peer_cmd :: "conn_out \<Rightarrow> peer_view \<Rightarrow> peer_view option" where
  "peer_cmd PeerNew NoPeer = Some PeerOnly"
| "peer_cmd ContextNew PeerOnly = Some WithContext"
| "peer_cmd (PeerInitialize ok) WithContext = Some (if ok then Served else WithContext)"
| "peer_cmd GetEventHandles Served = Some Served"
| "peer_cmd CheckFileDescriptor Served = Some Served"
| "peer_cmd ManagerOpen Served = Some Served"
| "peer_cmd CheckManager Served = Some Served"
| "peer_cmd (SetErrorInfo r) WithContext = Some WithContext"
| "peer_cmd (SetErrorInfo r) Served = Some Served"
| "peer_cmd (SetErrorInfo r) ClosedPeer = Some ClosedPeer"
| "peer_cmd PeerClose PeerOnly = Some ClosedPeer"
| "peer_cmd PeerClose WithContext = Some ClosedPeer"
| "peer_cmd PeerClose Served = Some ClosedPeer"
| "peer_cmd ContextFree WithContext = Some PeerOnly"
| "peer_cmd ContextFree ClosedPeer = Some ClosedPeer"
| "peer_cmd PeerFree ClosedPeer = Some FreedPeer"
| "peer_cmd (StateChanged s) v = Some v"
| "peer_cmd Fatal v = Some v"
| "peer_cmd x v = None"

abbreviation watch :: "('o \<Rightarrow> 'v \<Rightarrow> 'v option) \<Rightarrow> 'v \<Rightarrow> 'o list \<Rightarrow> 'v option" where
  "watch cmd v xs \<equiv> fold (lift_step cmd) xs (Some v)"

definition view_of :: "connection \<Rightarrow> peer_view" where
  "view_of c =
     (if destroyed c then (if PeerFree \<in> set (c_log c) then FreedPeer else NoPeer)
      else if \<not> has_peer c then NoPeer
      else if c_pc c = ClosingParts \<or> c_pc c = Finished \<or> c_pc c = NoThread \<and> destroying c then ClosedPeer
      else if c_pc c \<noteq> NoThread then Served
      else if has_context c then WithContext else PeerOnly)"

section \<open>The invariant\<close>

definition in_loop :: "run_pc \<Rightarrow> bool" where
  "in_loop pc \<longleftrightarrow> pc \<notin> {NoThread, Begin, Finished}"

definition pc_states :: "run_pc \<Rightarrow> conn_state set" where
  "pc_states pc = (if pc = NoThread then {Initial, Starting} else if pc = Begin then {Starting}
     else if pc = Finished then {Closed} else {Running, Activated, Streaming})"

definition life_inv :: "connection \<Rightarrow> bool" where
  "life_inv c \<longleftrightarrow> watch life_cmd Initial (c_log c) = Some (c_state c) \<and>
     watch peer_cmd NoPeer (c_log c) = Some (view_of c)"

definition thread_state_inv :: "connection \<Rightarrow> bool" where
  "thread_state_inv c \<longleftrightarrow>
     c_state c \<in> pc_states (c_pc c) \<and>
     (c_state c = Initial \<longrightarrow> \<not> has_peer c \<and> \<not> has_context c) \<and>
     (c_pc c \<noteq> NoThread \<and> \<not> destroyed c \<longrightarrow> has_peer c \<and> has_context c \<and> has_stopEvent c) \<and>
     (has_context c \<longrightarrow> has_peer c) \<and>
     (stop_requested c \<longrightarrow> c_pc c \<noteq> NoThread \<and> stop_signalled c) \<and>
     (destroyed c \<longrightarrow> c_pc c = NoThread \<or> c_pc c = Finished) \<and>
     (StateChanged Activated \<in> set (c_log c) \<longrightarrow> c_pc c \<noteq> NoThread) \<and>
     (qualitySeeded c \<longleftrightarrow> StateChanged Activated \<in> set (c_log c)) \<and>
     (c_state c = Activated \<longrightarrow> StateChanged Activated \<in> set (c_log c)) \<and>
     (PeerFree \<in> set (c_log c) \<longrightarrow> destroyed c)"

definition is_seed :: "task \<Rightarrow> bool" where
  "is_seed t \<longleftrightarrow> (\<exists>q. t = SeedTask q)"

definition seed_inv :: "connection \<Rightarrow> bool" where
  "seed_inv c \<longleftrightarrow>
     (\<not> qualitySeeded c \<longrightarrow> \<not> channelOpen (c_video c) \<and> activeEncodingMode (c_video c) = None \<and> \<not> list_ex is_seed (tasks c)) \<and>
     (list_ex is_seed (tasks c) \<longrightarrow> activeEncodingMode (c_video c) = None)"

definition conn_inv :: "connection \<Rightarrow> bool" where
  "conn_inv c \<longleftrightarrow> life_inv c \<and> thread_state_inv c \<and> seed_inv c \<and> nd_inv (c_net c)"

lemma conn_invD:
  "conn_inv c \<Longrightarrow> life_inv c" "conn_inv c \<Longrightarrow> thread_state_inv c"
  "conn_inv c \<Longrightarrow> seed_inv c" "conn_inv c \<Longrightarrow> nd_inv (c_net c)"
  by (simp_all add: conn_inv_def)

lemma conn_inv_init: "conn_inv (conn_init settings)"
proof -
  have "nd_inv nd_init" using nd.inv_start by simp
  then show ?thesis
    by (simp add: conn_inv_def life_inv_def thread_state_inv_def seed_inv_def conn_init_def view_of_def
        pc_states_def stream_init_def)
qed

section \<open>What does not matter to it\<close>

lemma conn_inv_fields [simp]:
  "conn_inv (c\<lparr>c_disp := d\<rparr>) = conn_inv c" "conn_inv (c\<lparr>c_clip := cl\<rparr>) = conn_inv c"
  "conn_inv (c\<lparr>c_input := i\<rparr>) = conn_inv c" "conn_inv (c\<lparr>c_settings := st\<rparr>) = conn_inv c"
  "conn_inv (c\<lparr>cliprdrJoined := b1\<rparr>) = conn_inv c" "conn_inv (c\<lparr>drdynvcJoined := b1\<rparr>) = conn_inv c"
  "conn_inv (c\<lparr>drdynvcState := dst\<rparr>) = conn_inv c"
  by (simp_all add: conn_inv_def life_inv_def thread_state_inv_def seed_inv_def view_of_def)

lemma conn_inv_video:
  assumes "conn_inv c" "activeEncodingMode v = activeEncodingMode (c_video c)"
    "channelOpen v = channelOpen (c_video c)"
  shows "conn_inv (c\<lparr>c_video := v\<rparr>)"
  using assms by (simp add: conn_inv_def life_inv_def thread_state_inv_def seed_inv_def view_of_def)

lemma conn_inv_steady: "conn_inv c \<Longrightarrow> steady (c_video c) v \<Longrightarrow> conn_inv (c\<lparr>c_video := v\<rparr>)"
  by (rule conn_inv_video) (simp_all add: steady_def)

lemma conn_inv_net: "conn_inv c \<Longrightarrow> nd_inv n \<Longrightarrow> conn_inv (c\<lparr>c_net := n\<rparr>)"
  by (simp add: conn_inv_def life_inv_def thread_state_inv_def seed_inv_def view_of_def)

definition serving :: "run_pc \<Rightarrow> bool" where
  "serving pc \<longleftrightarrow> pc \<in> {LoopHead, Waiting, Channels, InitChannels, OpenVideo, Detect, ClosingPeer}"

lemma serving_simps [simp]:
  "serving LoopHead" "serving Waiting" "serving Channels" "serving InitChannels" "serving OpenVideo"
  "serving Detect" "serving ClosingPeer"
  by (simp_all add: serving_def)

lemma serving_pc:
  assumes "serving pc"
  shows "pc_states pc = {Running, Activated, Streaming}" "pc \<noteq> NoThread" "pc \<noteq> Finished"
    "pc \<noteq> ClosingParts" "pc \<noteq> Begin"
  using assms by (auto simp: serving_def pc_states_def)

lemma conn_inv_serving:
  assumes "conn_inv c" "serving (c_pc c)"
  shows "\<not> destroyed c" "has_peer c" "has_context c" "view_of c = Served"
    "c_state c \<in> {Running, Activated, Streaming}"
proof -
  have "thread_state_inv c" using assms(1) by (simp add: conn_inv_def)
  with serving_pc [OF assms(2)]
  show "\<not> destroyed c" "has_peer c" "has_context c" "c_state c \<in> {Running, Activated, Streaming}"
    by (auto simp: thread_state_inv_def)
  then show "view_of c = Served" using serving_pc [OF assms(2)] by (simp add: view_of_def)
qed

lemma conn_inv_pc:
  assumes "conn_inv c" "serving (c_pc c)" "serving pc"
  shows "conn_inv (c\<lparr>c_pc := pc\<rparr>)"
proof -
  note inv = assms(1) [unfolded conn_inv_def]
  have "view_of (c\<lparr>c_pc := pc\<rparr>) = view_of c"
    using conn_inv_serving [OF assms(1,2)] serving_pc [OF assms(3)] by (simp add: view_of_def)
  then have "life_inv (c\<lparr>c_pc := pc\<rparr>)" using inv by (simp add: life_inv_def)
  moreover have "thread_state_inv (c\<lparr>c_pc := pc\<rparr>)"
    using inv serving_pc [OF assms(2)] serving_pc [OF assms(3)] by (simp add: thread_state_inv_def) blast
  ultimately show ?thesis using inv by (simp add: conn_inv_def seed_inv_def)
qed

lemma conn_inv_call:
  assumes "conn_inv c" "serving (c_pc c)" "x \<in> {GetEventHandles, CheckFileDescriptor, ManagerOpen, CheckManager}"
  shows "conn_inv (conn_emit [x] c)"
proof -
  note inv = assms(1) [unfolded conn_inv_def] and c = conn_inv_serving [OF assms(1,2)]
  have x: "life_cmd x (c_state c) = Some (c_state c)" "peer_cmd x Served = Some Served"
    "x \<noteq> PeerFree" "x \<noteq> StateChanged Activated"
    using assms(3) by auto
  have "view_of (conn_emit [x] c) = view_of c" using c(1) by (simp add: view_of_def conn_emit_def)
  then have "life_inv (conn_emit [x] c)" using inv c(4) x by (simp add: life_inv_def conn_emit_def)
  moreover have "thread_state_inv (conn_emit [x] c)"
    using inv x by (auto simp: thread_state_inv_def conn_emit_def)
  ultimately show ?thesis using inv by (simp add: conn_inv_def seed_inv_def conn_emit_def)
qed

lemma conn_inv_tasks:
  assumes "conn_inv c" "list_ex is_seed ts \<Longrightarrow> list_ex is_seed (tasks c)"
  shows "conn_inv (c\<lparr>tasks := ts\<rparr>)"
  using assms by (auto simp: conn_inv_def life_inv_def thread_state_inv_def seed_inv_def view_of_def)

section \<open>Reactions of the session to its video stream\<close>

definition reacted :: "connection \<Rightarrow> connection \<Rightarrow> bool" where
  "reacted c c' \<longleftrightarrow> (\<exists>es ts sr ss.
     c' = c\<lparr>c_log := c_log c @ es, tasks := tasks c @ ts, stop_requested := sr, stop_signalled := ss\<rparr> \<and>
     set ts \<subseteq> {VideoClosedTask} \<and> (\<forall>e \<in> set es. \<exists>r. e = SetErrorInfo r) \<and>
     (es \<noteq> [] \<longrightarrow> has_context c \<and> c_state c \<noteq> Closed) \<and>
     (stop_requested c \<longrightarrow> sr) \<and> (stop_signalled c \<longrightarrow> ss) \<and>
     (sr \<and> \<not> stop_requested c \<longrightarrow> c_pc c \<noteq> NoThread \<and> (has_stopEvent c \<longrightarrow> ss)))"

lemma reactedI:
  assumes "c' = c\<lparr>c_log := c_log c @ es, tasks := tasks c @ ts, stop_requested := sr, stop_signalled := ss\<rparr>"
    and "set ts \<subseteq> {VideoClosedTask}" and "\<forall>e \<in> set es. \<exists>r. e = SetErrorInfo r"
    and "es \<noteq> [] \<longrightarrow> has_context c \<and> c_state c \<noteq> Closed"
    and "stop_requested c \<longrightarrow> sr" and "stop_signalled c \<longrightarrow> ss"
    and "sr \<and> \<not> stop_requested c \<longrightarrow> c_pc c \<noteq> NoThread \<and> (has_stopEvent c \<longrightarrow> ss)"
  shows "reacted c c'"
  using assms unfolding reacted_def by blast

lemma reacted_refl [simp]: "reacted c c"
  by (rule reactedI [where es = "[]" and ts = "[]" and sr = "stop_requested c" and ss = "stop_signalled c"])
    simp_all

lemma reacted_trans:
  assumes "reacted c c'" "reacted c' c''"
  shows "reacted c c''"
proof -
  obtain es ts sr ss where 1: "c' = c\<lparr>c_log := c_log c @ es, tasks := tasks c @ ts,
      stop_requested := sr, stop_signalled := ss\<rparr>"
    and p1: "set ts \<subseteq> {VideoClosedTask}" "\<forall>e \<in> set es. \<exists>r. e = SetErrorInfo r"
      "es \<noteq> [] \<longrightarrow> has_context c \<and> c_state c \<noteq> Closed" "stop_requested c \<longrightarrow> sr" "stop_signalled c \<longrightarrow> ss"
      "sr \<and> \<not> stop_requested c \<longrightarrow> c_pc c \<noteq> NoThread \<and> (has_stopEvent c \<longrightarrow> ss)"
    using assms(1) unfolding reacted_def by blast
  obtain es' ts' sr' ss' where 2: "c'' = c'\<lparr>c_log := c_log c' @ es', tasks := tasks c' @ ts',
      stop_requested := sr', stop_signalled := ss'\<rparr>"
    and p2: "set ts' \<subseteq> {VideoClosedTask}" "\<forall>e \<in> set es'. \<exists>r. e = SetErrorInfo r"
      "es' \<noteq> [] \<longrightarrow> has_context c' \<and> c_state c' \<noteq> Closed" "stop_requested c' \<longrightarrow> sr'" "stop_signalled c' \<longrightarrow> ss'"
      "sr' \<and> \<not> stop_requested c' \<longrightarrow> c_pc c' \<noteq> NoThread \<and> (has_stopEvent c' \<longrightarrow> ss')"
    using assms(2) unfolding reacted_def by blast
  show ?thesis
    by (rule reactedI [where es = "es @ es'" and ts = "ts @ ts'" and sr = sr' and ss = ss'])
      (use p1 p2 in \<open>auto simp: 1 2\<close>)
qed

lemma reacted_fields [dest]:
  "reacted c c' \<Longrightarrow> c_pc c' = c_pc c \<and> c_state c' = c_state c \<and> destroyed c' = destroyed c \<and>
     has_context c' = has_context c \<and> c_video c' = c_video c \<and> c_settings c' = c_settings c \<and>
     c_net c' = c_net c \<and> qualitySeeded c' = qualitySeeded c \<and> aborted c' = aborted c \<and>
     destroying c' = destroying c"
  by (auto simp: reacted_def)

lemma requestStop_reacted: "reacted c (requestStop c)"
  by (rule reactedI [where es = "[]" and ts = "[]" and sr = "stop_requested c \<or> c_pc c \<noteq> NoThread"
        and ss = "stop_signalled c \<or> has_stopEvent c"])
    (auto simp: requestStop_def)

lemma error_info_reacted:
  "has_context c \<Longrightarrow> c_state c \<noteq> Closed \<Longrightarrow> reacted c (conn_emit [SetErrorInfo r] c)"
  by (rule reactedI [where es = "[SetErrorInfo r]" and ts = "[]" and sr = "stop_requested c"
        and ss = "stop_signalled c"])
    (simp_all add: conn_emit_def)

lemma conn_close_reacted:
  assumes "reason = NoReason \<or> has_context c"
  shows "\<exists>c'. conn_close reason c = Some c' \<and> reacted c c'"
  using assms
  by (auto simp: conn_close_def requestStop_reacted
      intro: reacted_trans [OF error_info_reacted requestStop_reacted] split: close_reason.split)

lemma react_reacted: "has_context c \<Longrightarrow> \<exists>c'. react x c = Some c' \<and> reacted c c'"
proof (cases x)
  case (SessionClose r)
  assume "has_context c"
  then show ?thesis using SessionClose conn_close_reacted by simp
next
  case StreamClosed
  have "reacted c (c\<lparr>tasks := tasks c @ [VideoClosedTask]\<rparr>)"
    by (rule reactedI [where es = "[]" and ts = "[VideoClosedTask]" and sr = "stop_requested c"
          and ss = "stop_signalled c"]) simp_all
  then show ?thesis using StreamClosed by simp
qed simp_all

lemma react_fold:
  "has_context c \<Longrightarrow> \<exists>c'. fold (lift_step react) xs (Some c) = Some c' \<and> reacted c c'"
proof (induction xs arbitrary: c)
  case (Cons x xs)
  obtain c1 where 1: "react x c = Some c1" "reacted c c1" using react_reacted Cons.prems by blast
  moreover obtain c2 where "fold (lift_step react) xs (Some c1) = Some c2" "reacted c1 c2"
    using Cons.IH [of c1] 1 Cons.prems by auto
  ultimately show ?case using reacted_trans by (auto intro!: exI [of _ c2])
qed simp

lemma video_do_reacted:
  "has_context c \<Longrightarrow> \<exists>c'. video_do f c = Some c' \<and> reacted (c\<lparr>c_video := f (c_video c)\<rparr>) c'"
  unfolding video_do_def Let_def by (rule react_fold) simp

lemma conn_inv_reacted:
  assumes "conn_inv c" "\<not> destroyed c" "reacted c c'"
  shows "conn_inv c'"
proof -
  obtain es ts sr ss where c': "c' = c\<lparr>c_log := c_log c @ es, tasks := tasks c @ ts,
      stop_requested := sr, stop_signalled := ss\<rparr>"
    and p: "set ts \<subseteq> {VideoClosedTask}" "\<forall>e \<in> set es. \<exists>r. e = SetErrorInfo r"
      "es \<noteq> [] \<longrightarrow> has_context c \<and> c_state c \<noteq> Closed" "stop_requested c \<longrightarrow> sr" "stop_signalled c \<longrightarrow> ss"
      "sr \<and> \<not> stop_requested c \<longrightarrow> c_pc c \<noteq> NoThread \<and> (has_stopEvent c \<longrightarrow> ss)"
    using assms(3) unfolding reacted_def by blast
  have inv: "life_inv c" "thread_state_inv c" "seed_inv c" "nd_inv (c_net c)"
    using assms(1) by (simp_all add: conn_inv_def)
  have life: "watch life_cmd st es = Some st" for st
    using p(2) by (induction es) auto
  have "watch peer_cmd (view_of c) es = Some (view_of c)"
  proof (cases "es = []")
    case False
    then have "has_context c" using p(3) by simp
    then have "view_of c \<in> {WithContext, Served, ClosedPeer}"
      using inv(2) assms(2) by (auto simp: view_of_def thread_state_inv_def)
    then show ?thesis using p(2) by (induction es) auto
  qed simp
  moreover have "view_of c' = view_of c" using assms(2) by (simp add: c' view_of_def)
  ultimately have "life_inv c'" using inv(1) life by (simp add: life_inv_def c')
  moreover have other: "StateChanged Activated \<notin> set es" "PeerFree \<notin> set es" using p(2) by auto
  then have "thread_state_inv c'"
    using inv(2) p assms(2) unfolding thread_state_inv_def c' by simp blast
  moreover have "list_ex is_seed (tasks c') = list_ex is_seed (tasks c)"
    using p(1) by (auto simp: c' list_ex_iff is_seed_def)
  then have "seed_inv c'" using inv(3) by (simp add: seed_inv_def c' del: list_ex_append)
  ultimately show ?thesis using inv(4) by (simp add: conn_inv_def c')
qed

section \<open>The steps of the run thread\<close>

definition keeps :: "connection option \<Rightarrow> bool" where
  "keeps r \<longleftrightarrow> (\<exists>c. r = Some c \<and> conn_inv c)"

lemma keeps_Some [simp]: "keeps (Some c) = conn_inv c" "\<not> keeps None"
  by (simp_all add: keeps_def)

lemma video_do_keeps:
  assumes "conn_inv (c\<lparr>c_video := f (c_video c)\<rparr>)" "has_context c" "\<not> destroyed c"
  obtains c' where "video_do f c = Some c'" "conn_inv c'" "reacted (c\<lparr>c_video := f (c_video c)\<rparr>) c'"
  using video_do_reacted [OF assms(2), of f] conn_inv_reacted [OF assms(1)] assms(3) by auto

lemma video_do_serving:
  assumes "conn_inv c" "serving (c_pc c)" "steady (c_video c) (f (c_video c))"
  obtains c' where "video_do f c = Some c'" "conn_inv c'" "reacted (c\<lparr>c_video := f (c_video c)\<rparr>) c'"
  using conn_inv_serving [OF assms(1,2)] conn_inv_steady [OF assms(1,3)] by (metis video_do_keeps)

lemma run_begin_inv:
  assumes "conn_inv c" "c_pc c = Begin"
  shows "conn_inv (run_begin c)"
  using assms
  by (auto simp: run_begin_def conn_setState_def conn_emit_def conn_inv_def life_inv_def
      thread_state_inv_def seed_inv_def view_of_def pc_states_def)

lemma conn_emit_fields [simp]:
  "c_pc (conn_emit xs c) = c_pc c" "c_state (conn_emit xs c) = c_state c"
  "c_video (conn_emit xs c) = c_video c" "stop_requested (conn_emit xs c) = stop_requested c"
  "c_log (conn_emit xs c) = c_log c @ xs" "c_clip (conn_emit xs c) = c_clip c"
  by (simp_all add: conn_emit_def)

lemma run_head_inv:
  assumes "conn_inv c" "c_pc c = LoopHead"
  shows "conn_inv (run_head env c)"
  using assms by (simp add: run_head_def Let_def conn_inv_pc conn_inv_call)

lemma conn_inv_announce:
  assumes "conn_inv c" "serving (c_pc c)" "st \<in> {Activated, Streaming}"
    "life_cmd (StateChanged st) (c_state c) = Some st"
  shows "conn_inv (c\<lparr>c_state := st, c_log := c_log c @ [StateChanged st],
                     qualitySeeded := qualitySeeded c \<or> st = Activated\<rparr>)"
    (is "conn_inv ?c")
proof -
  note inv = assms(1) [unfolded conn_inv_def life_inv_def thread_state_inv_def seed_inv_def]
    and c = conn_inv_serving [OF assms(1,2)] and pc = serving_pc [OF assms(2)]
  have "view_of ?c = view_of c" using c(1) by (simp add: view_of_def)
  then have "life_inv ?c" using inv c assms(4) by (simp add: life_inv_def)
  moreover have "thread_state_inv ?c" using inv c pc assms(3) by (auto simp: thread_state_inv_def)
  moreover have "seed_inv ?c" using inv by (simp add: seed_inv_def)
  ultimately show ?thesis using inv by (simp add: conn_inv_def)
qed

lemma tasks_fields:
  "life_inv (c\<lparr>tasks := ts\<rparr>) = life_inv c" "thread_state_inv (c\<lparr>tasks := ts\<rparr>) = thread_state_inv c"
  by (simp_all add: life_inv_def thread_state_inv_def view_of_def)

lemma conn_inv_seed:
  assumes "conn_inv c" "qualitySeeded c" "activeEncodingMode (c_video c) = None"
  shows "conn_inv (c\<lparr>tasks := ts\<rparr>)"
  using assms by (simp add: conn_inv_def tasks_fields seed_inv_def)

text \<open>The first activation marks the quality as seeded; later ones change the state only.\<close>

lemma onActivate_inv:
  assumes "conn_inv c" "serving (c_pc c)"
  shows "conn_inv (onActivate c)"
proof -
  note inv = assms(1) [unfolded conn_inv_def thread_state_inv_def seed_inv_def]
    and c = conn_inv_serving [OF assms]
  let ?c = "(conn_setState Activated c)\<lparr>qualitySeeded := True\<rparr>"
  have act: "conn_inv ?c"
  proof (cases "c_state c = Activated")
    case True
    then have "?c = c" using inv by (simp add: conn_setState_def)
    with assms(1) show ?thesis by simp
  next
    case False
    then have "life_cmd (StateChanged Activated) (c_state c) = Some Activated" using c(5) by auto
    from conn_inv_announce [OF assms _ this] False show ?thesis
      by (simp add: conn_setState_def conn_emit_def)
  qed
  show ?thesis
  proof (cases "qualitySeeded c")
    case True
    then have "onActivate c = ?c" by (simp add: onActivate_def conn_setState_def conn_emit_def)
    with act show ?thesis by simp
  next
    case False
    then have "activeEncodingMode (c_video ?c) = None" using inv
      by (simp add: conn_setState_def conn_emit_def)
    then have "conn_inv (?c\<lparr>tasks := ts\<rparr>)" for ts by (rule conn_inv_seed [OF act, rotated]) simp
    then show ?thesis using act False
      by (cases "c_state c = Activated")
        (simp_all add: onActivate_def Let_def conn_setState_def conn_emit_def split: option.split)
  qed
qed

lemma onActivate_pc [simp]: "c_pc (onActivate c) = c_pc c"
  by (simp add: onActivate_def Let_def conn_setState_def conn_emit_def split: option.split)

text \<open>What every callback of the peer keeps.\<close>

lemma nd_step_returns: "nd_inv n \<Longrightarrow> \<exists>n'. nd_step e n = Some n' \<and> nd_inv n'"
  using nd.inv_step [of "Some n" e] by (auto simp: returns_with_iff)

lemma net_do_inv:
  assumes "conn_inv c"
  shows "\<exists>n. net_do e c = Some (c\<lparr>c_net := n\<rparr>) \<and> nd_inv n"
  using nd_step_returns [OF conn_invD(4) [OF assms], of e] by (auto simp: net_do_def)

lemma peer_call_inv:
  assumes "conn_inv c" "serving (c_pc c)"
  shows "\<exists>r. peer_call srv cb c = Some r \<and> conn_inv (snd r) \<and> c_pc (snd r) = c_pc c"
proof (cases cb)
  case CbActivate
  then show ?thesis using onActivate_inv [OF assms] by simp
next
  case (CbSuppressOutput allow)
  obtain c' where "video_do (stream_setEnabled (allow \<noteq> 0)) c = Some c'" "conn_inv c'"
    "reacted (c\<lparr>c_video := stream_setEnabled (allow \<noteq> 0) (c_video c)\<rparr>) c'"
    using video_do_serving [OF assms, where f = "stream_setEnabled (allow \<noteq> 0)"]
      steady_stream(2) [OF steady_basic(1)] by blast
  then show ?thesis using CbSuppressOutput
    by (cases "allow = 0") (force simp: onSuppressOutput_def returning_def dest: reacted_fields)+
next
  case (CbRttResponse sequence now now_avg)
  then show ?thesis using net_do_inv [OF assms(1)] conn_inv_net [OF assms(1)]
    by (fastforce simp: returning_def)
next
  case (CbBandwidthResults delta bytes now)
  then show ?thesis using net_do_inv [OF assms(1)] conn_inv_net [OF assms(1)]
    by (fastforce simp: returning_def)
qed (use assms in \<open>auto split: prod.split\<close>)

lemma peer_calls_inv:
  assumes "conn_inv c" "serving (c_pc c)"
  shows "\<exists>r. peer_calls srv cbs c = Some r \<and> conn_inv (snd r) \<and> c_pc (snd r) = c_pc c"
  using assms
proof (induction cbs arbitrary: c)
  case (Cons cb cbs)
  obtain ok c1 where 1: "peer_call srv cb c = Some (ok, c1)" "conn_inv c1" "c_pc c1 = c_pc c"
    using peer_call_inv [OF Cons.prems, of srv cb] by auto
  then show ?case using Cons.IH [of c1] Cons.prems by (cases ok) auto
qed simp

lemma run_woken_inv:
  assumes "conn_inv c" "c_pc c = Waiting"
  shows "keeps (run_woken srv env c)"
proof (cases "stop_requested c")
  case True
  then show ?thesis using assms by (simp add: run_woken_def conn_inv_pc)
next
  case False
  let ?c = "conn_emit [CheckFileDescriptor] c"
  have inv: "conn_inv ?c" "serving (c_pc ?c)" using assms by (simp_all add: conn_inv_call)
  obtain ok c1 where "peer_calls srv (callbacks env) ?c = Some (ok, c1)" "conn_inv c1" "c_pc c1 = Waiting"
    using peer_calls_inv [OF inv, of srv "callbacks env"] assms by auto
  then show ?thesis using False
    by (auto simp: run_woken_def intro!: conn_inv_pc)
qed

lemma run_channels_inv:
  assumes "conn_inv c" "c_pc c = Channels"
  shows "conn_inv (run_channels env c)"
proof -
  have calls: "conn_inv (conn_emit [CheckManager] (conn_emit [ManagerOpen] c))"
    "conn_inv (conn_emit [CheckManager] c)" "conn_inv (conn_emit [ManagerOpen] c)"
    using assms by (simp_all add: conn_inv_call)
  have clip: "conn_inv (d\<lparr>c_clip := cl, c_pc := pc\<rparr>)"
    if "conn_inv d" "c_pc d = Channels" "serving pc" for d cl pc
    using conn_inv_pc [of "d\<lparr>c_clip := cl\<rparr>" pc] that by simp
  have pc: "conn_inv (d\<lparr>c_pc := pc\<rparr>)" if "conn_inv d" "c_pc d = Channels" "serving pc" for d pc
    using that by (simp add: conn_inv_pc)
  show ?thesis unfolding run_channels_def Let_def
    by (auto split: prod.split intro!: pc clip calls simp: assms)
qed

lemma run_init_inv:
  assumes "conn_inv c" "c_pc c = InitChannels"
  shows "keeps (run_init env c)"
proof (cases "connected env \<and> c_state c = Activated \<and> drdynvcJoined c \<and> drdynvcState c = DrdynvcReady")
  case False
  have "conn_inv (c\<lparr>c_pc := OpenVideo\<rparr>)" using assms by (simp add: conn_inv_pc)
  then show ?thesis using False by (simp only: run_init_def if_False keeps_Some)
next
  case True
  obtain cn op cp where d: "disp_answers env = (cn, op, cp)" by (cases "disp_answers env")
  obtain cn' gi pn where v: "video_answers env = (cn', gi, pn)" by (cases "video_answers env")
  obtain ok disp where disp: "display_initialize cn op cp (c_disp c) = (ok, disp)" by fastforce
  let ?c1 = "c\<lparr>c_disp := disp\<rparr>"
  let ?init = "stream_initialize cn' gi pn (num_of (c_settings c) DesktopWidth) (num_of (c_settings c) DesktopHeight)"
  have c1: "conn_inv ?c1" "serving (c_pc ?c1)" using assms by simp_all
  obtain c2 where c2: "video_do (\<lambda>v. snd (?init v)) ?c1 = Some c2" "conn_inv c2"
    and r2: "reacted (?c1\<lparr>c_video := snd (?init (c_video ?c1))\<rparr>) c2"
    using video_do_serving [OF c1, where f = "\<lambda>v. snd (?init v)"] steady_stream(9) [OF steady_basic(1)]
    by blast
  have pc2: "c_pc c2 = InitChannels" using reacted_fields [OF r2] assms(2) by simp
  then obtain c3 where c3: "video_do (stream_setEnabled True) c2 = Some c3" "conn_inv c3"
    and r3: "reacted (c2\<lparr>c_video := stream_setEnabled True (c_video c2)\<rparr>) c3"
    using video_do_serving [OF c2(2), where f = "stream_setEnabled True"] steady_stream(2) [OF steady_basic(1)]
    by (metis serving_simps(4))
  have pc3: "c_pc c3 = InitChannels" using reacted_fields [OF r3] pc2 by simp
  show ?thesis
  proof (cases ok)
    case False
    then show ?thesis using True c1 assms(2) by (simp add: run_init_def d disp conn_inv_pc)
  next
    case ok: True
    show ?thesis
    proof (cases "fst (?init (c_video c))")
      case False
      then show ?thesis using True ok c2 pc2 by (simp add: run_init_def d v disp conn_inv_pc)
    next
      case video: True
      have "run_init env c = Some (c3\<lparr>c_pc := OpenVideo\<rparr>)"
        using True ok video c2(1) c3(1) by (simp add: run_init_def d v disp)
      then show ?thesis using c3(2) pc3 by (simp add: conn_inv_pc)
    qed
  qed
qed

lemma conn_inv_seeded:
  assumes "conn_inv c" "qualitySeeded c" "activeEncodingMode v = activeEncodingMode (c_video c)"
  shows "conn_inv (c\<lparr>c_video := v\<rparr>)"
proof -
  have "life_inv (c\<lparr>c_video := v\<rparr>) = life_inv c"
    "thread_state_inv (c\<lparr>c_video := v\<rparr>) = thread_state_inv c"
    by (simp_all add: life_inv_def thread_state_inv_def view_of_def)
  then show ?thesis using assms by (simp add: conn_inv_def seed_inv_def)
qed

lemma run_open_inv:
  assumes "conn_inv c" "c_pc c = OpenVideo"
  shows "keeps (run_open env c)"
proof (cases "connected env \<and> c_state c = Activated \<and> drdynvcJoined c \<and> drdynvcState c = DrdynvcReady")
  case False
  then show ?thesis using assms by (auto simp: run_open_def conn_inv_pc)
next
  case True
  let ?open = "openChannel (channel_open_ok env)"
  have "qualitySeeded c" using True assms(1) by (simp add: conn_inv_def thread_state_inv_def)
  moreover have "activeEncodingMode (snd (?open (c_video c))) = activeEncodingMode (c_video c)"
    by (simp add: openChannel_def Let_def vs_emit_def)
  ultimately have inv: "conn_inv (c\<lparr>c_video := snd (?open (c_video c))\<rparr>)"
    by (rule conn_inv_seeded [OF assms(1)])
  have c: "has_context c" "\<not> destroyed c" using conn_inv_serving [OF assms(1)] assms(2) by simp_all
  obtain c1 where c1: "video_do (\<lambda>v. snd (?open v)) c = Some c1" "conn_inv c1"
    and r: "reacted (c\<lparr>c_video := snd (?open (c_video c))\<rparr>) c1"
    by (rule video_do_keeps [where f = "\<lambda>v. snd (?open v)", OF inv c])
  have f: "c_pc c1 = OpenVideo" "c_state c1 = Activated" using reacted_fields [OF r] assms(2) True by simp_all
  show ?thesis
  proof (cases "fst (?open (c_video c))")
    case False
    then show ?thesis using True c1 f by (simp add: run_open_def conn_inv_pc)
  next
    case ok: True
    have "conn_inv (c1\<lparr>c_state := Streaming, c_log := c_log c1 @ [StateChanged Streaming],
        qualitySeeded := qualitySeeded c1 \<or> Streaming = Activated\<rparr>)"
      by (rule conn_inv_announce [OF c1(2)]) (simp_all add: f)
    then have "conn_inv (conn_setState Streaming c1)" using f by (simp add: conn_setState_def conn_emit_def)
    then have "conn_inv ((conn_setState Streaming c1)\<lparr>c_pc := Detect\<rparr>)"
      by (rule conn_inv_pc) (simp_all add: f conn_setState_def conn_emit_def)
    then show ?thesis using True ok c1 by (simp add: run_open_def)
  qed
qed

lemma run_detect_inv:
  assumes "conn_inv c" "c_pc c = Detect"
  shows "keeps (run_detect env c)"
proof -
  obtain n where n: "net_do (NdUpdate (c_state c) (fst (clocks env)) (snd (clocks env))) c = Some (c\<lparr>c_net := n\<rparr>)"
    "nd_inv n"
    using net_do_inv [OF assms(1)] by blast
  then have "conn_inv (c\<lparr>c_net := n\<rparr>)" using assms(1) by (simp add: conn_inv_net)
  then have "conn_inv (c\<lparr>c_net := n, c_pc := LoopHead\<rparr>)"
    using conn_inv_pc [of "c\<lparr>c_net := n\<rparr>" LoopHead] assms(2) by simp
  then show ?thesis by (simp add: run_detect_def n)
qed

text \<open>The end: the peer is closed, then the parts, then the state is final.\<close>

lemma run_close_peer_inv:
  assumes "conn_inv c" "c_pc c = ClosingPeer"
  shows "conn_inv (run_close_peer c)"
proof -
  note inv = assms(1) [unfolded conn_inv_def] and c = conn_inv_serving [OF assms(1)]
  have r: "run_close_peer c = c\<lparr>c_log := c_log c @ [PeerClose], c_pc := ClosingParts\<rparr>"
    using c assms(2) by (simp add: run_close_peer_def conn_emit_def)
  have v: "view_of c = Served" "view_of (run_close_peer c) = ClosedPeer" using c assms(2)
    by (simp_all add: r view_of_def)
  then have "life_inv (run_close_peer c)" using inv unfolding life_inv_def by (simp add: r)
  moreover have "thread_state_inv (run_close_peer c)"
    using inv assms(2) by (auto simp: r thread_state_inv_def pc_states_def)
  moreover have "seed_inv (run_close_peer c) = seed_inv c" by (simp add: r seed_inv_def)
  ultimately show ?thesis using inv by (simp add: conn_inv_def r)
qed

lemma stream_close_mode [simp]:
  "activeEncodingMode (stream_close v) = None"
  by (simp add: stream_close_def Let_def vs_emit_def)

lemma stream_close_channel: "\<not> channelOpen v \<Longrightarrow> \<not> channelOpen (stream_close v)"
  using steady_source(3) [OF steady_basic(1)]
  by (simp add: stream_close_def Let_def vs_emit_def steady_def)

lemma closing_parts_inv:
  assumes "conn_inv c" "c_pc c = ClosingParts"
  shows "keeps (map_option (\<lambda>c1. c1\<lparr>c_pc := Finished\<rparr>) (onClose env c))"
proof -
  note inv = assms(1) [unfolded conn_inv_def]
  let ?c = "c\<lparr>c_disp := display_close (c_disp c), c_clip := clip_close (clip_stop env) (c_clip c)\<rparr>"
  have c: "has_context ?c" "\<not> destroyed ?c" "has_peer ?c"
    using inv assms(2) by (auto simp: thread_state_inv_def)
  have "thread_state_inv (?c\<lparr>c_video := stream_close (c_video ?c)\<rparr>) = thread_state_inv c"
    "life_inv (?c\<lparr>c_video := stream_close (c_video ?c)\<rparr>) = life_inv c"
    by (simp_all add: thread_state_inv_def life_inv_def view_of_def)
  moreover have "seed_inv (?c\<lparr>c_video := stream_close (c_video ?c)\<rparr>)"
    using inv stream_close_channel by (simp add: seed_inv_def)
  ultimately have "conn_inv (?c\<lparr>c_video := stream_close (c_video ?c)\<rparr>)" using inv by (simp add: conn_inv_def)
  then obtain c1 where c1: "video_do stream_close ?c = Some c1" "conn_inv c1"
    and r: "reacted (?c\<lparr>c_video := stream_close (c_video ?c)\<rparr>) c1"
    using video_do_keeps [where f = stream_close, OF _ c(1,2)] by blast
  have f: "c_pc c1 = ClosingParts" "\<not> destroyed c1" using reacted_fields [OF r] assms(2) c(2) by simp_all
  note inv1 = c1(2) [unfolded conn_inv_def]
  have st: "c_state c1 \<in> {Running, Activated, Streaming}" "has_peer c1"
    using inv1 f by (auto simp: thread_state_inv_def pc_states_def)
  let ?c2 = "c1\<lparr>c_state := Closed, c_log := c_log c1 @ [StateChanged Closed], c_pc := Finished\<rparr>"
  have "view_of c1 = ClosedPeer" "view_of ?c2 = ClosedPeer" using f st(2) by (simp_all add: view_of_def)
  then have "life_inv ?c2" using inv1 st(1) by (auto simp: life_inv_def)
  moreover have "thread_state_inv ?c2" using inv1 f by (auto simp: thread_state_inv_def pc_states_def)
  moreover have "seed_inv ?c2 = seed_inv c1" by (simp add: seed_inv_def)
  ultimately have "conn_inv ?c2" using inv1 by (simp add: conn_inv_def)
  moreover have "(conn_setState Closed c1)\<lparr>c_pc := Finished\<rparr> = ?c2"
    using st(1) by (auto simp: conn_setState_def conn_emit_def)
  ultimately show ?thesis using c1(1) by (simp add: onClose_def)
qed

lemma run_step_inv:
  assumes "conn_inv c"
  shows "keeps (run_step srv env c)"
  using assms run_begin_inv run_head_inv run_woken_inv run_channels_inv run_init_inv run_open_inv
    run_detect_inv run_close_peer_inv closing_parts_inv
  by (simp add: run_step_def split: run_pc.split)

section \<open>The main thread and the channels\<close>

lemma conn_inv_known:
  assumes "conn_inv c" "\<not> destroyed c" "qualitySeeded c \<or> StateChanged Activated \<in> set (c_log c)"
  shows "has_context c" "qualitySeeded c" "StateChanged Activated \<in> set (c_log c)"
  using assms by (auto simp: conn_inv_def thread_state_inv_def)

text \<open>However far \<open>initialize\<close> gets.\<close>

definition same_rest :: "connection \<Rightarrow> connection \<Rightarrow> bool" where
  "same_rest c c' \<longleftrightarrow> tasks c' = tasks c \<and> stop_requested c' = stop_requested c \<and>
     stop_signalled c' = stop_signalled c \<and> qualitySeeded c' = qualitySeeded c \<and>
     c_video c' = c_video c \<and> c_net c' = c_net c \<and> destroyed c' = destroyed c \<and> destroying c' = destroying c"

lemma conn_inv_started:
  assumes "conn_inv c" "c_state c = Initial" "\<not> destroying c" "\<not> destroyed c" "same_rest c c'"
    and "c_state c' = Starting" "c_log c' = c_log c @ StateChanged Starting # xs"
    and "watch peer_cmd NoPeer xs = Some v" "watch life_cmd Starting xs = Some Starting"
    and "list_all (\<lambda>x. x \<noteq> PeerFree \<and> x \<noteq> StateChanged Activated) xs"
    and "v = (if \<not> has_peer c' then NoPeer else if c_pc c' = Begin then Served
              else if has_context c' then WithContext else PeerOnly)"
    and "c_pc c' \<in> {NoThread, Begin}" "c_pc c' = Begin \<longrightarrow> has_peer c' \<and> has_context c' \<and> has_stopEvent c'"
    and "has_context c' \<longrightarrow> has_peer c'"
  shows "conn_inv c'"
proof -
  note inv = assms(1) [unfolded conn_inv_def life_inv_def thread_state_inv_def seed_inv_def]
  have c: "c_pc c = NoThread" "\<not> has_peer c" "\<not> stop_requested c" "\<not> qualitySeeded c"
    "StateChanged Activated \<notin> set (c_log c)" "PeerFree \<notin> set (c_log c)"
    using inv assms(2,4) by (auto simp: pc_states_def split: if_splits)
  have other: "PeerFree \<notin> set xs" "StateChanged Activated \<notin> set xs" using assms(10) by (auto simp: list_all_iff)
  have rest: "tasks c' = tasks c" "\<not> stop_requested c'" "\<not> qualitySeeded c'"
     "c_video c' = c_video c" "c_net c' = c_net c" "\<not> destroyed c'" "\<not> destroying c'"
    using assms(3,4,5) c by (simp_all add: same_rest_def)
  have "view_of c = NoPeer" using c assms(4) by (simp add: view_of_def)
  moreover have "view_of c' = v" using assms(11,12) rest by (auto simp: view_of_def)
  ultimately have "life_inv c'" using inv assms(2,6-9) by (simp add: life_inv_def)
  moreover have "thread_state_inv c'"
    using assms(6,7,12-14) other c rest by (auto simp: thread_state_inv_def pc_states_def)
  moreover have "seed_inv c'" using inv c rest by (simp add: seed_inv_def)
  ultimately show ?thesis using inv rest by (simp add: conn_inv_def)
qed

lemma use_sam_cases:
  obtains xs ab st where
    "use_sam env srv c = (xs = [], c\<lparr>c_settings := st, aborted := ab, c_log := c_log c @ xs\<rparr>)"
    "xs = [] \<or> xs = [Fatal]"
proof -
  have same: "c = c\<lparr>c_settings := c_settings c, aborted := aborted c, c_log := c_log c @ []\<rparr>" by simp
  have fatal: "conn_emit [Fatal] (c\<lparr>aborted := True\<rparr>) =
      c\<lparr>c_settings := c_settings c, aborted := True, c_log := c_log c @ [Fatal]\<rparr>"
    by (simp add: conn_emit_def)
  consider "usePamAuthentication srv" | "\<not> usePamAuthentication srv" "sam_opened env" "sam_set env"
    | "\<not> usePamAuthentication srv" "\<not> sam_opened env \<or> \<not> sam_set env"
    by blast
  then show ?thesis
  proof cases
    case 1
    then show ?thesis using same by (intro that [of "[]" "aborted c" "c_settings c"]) (simp_all add: use_sam_def)
  next
    case 2
    then show ?thesis
      by (intro that [of "[]" "aborted c" "(c_settings c)\<lparr>NtlmSamFile := Some (sam_name env)\<rparr>"])
        (simp_all add: use_sam_def createSamFile_def)
  next
    case 3
    then show ?thesis using fatal
      by (intro that [of "[Fatal]" True "c_settings c"]) (auto simp: use_sam_def createSamFile_def)
  qed
qed

lemma conn_initialize_inv:
  assumes "conn_inv c" "c_state c = Initial" "\<not> destroying c" "\<not> destroyed c"
  shows "conn_inv (conn_initialize env srv c)"
proof -
  have c: "\<not> has_peer c" "\<not> has_context c" "c_pc c = NoThread"
    using assms by (auto simp: conn_inv_def thread_state_inv_def pc_states_def split: if_splits)
  note start = conn_inv_started [OF assms]
    and defs = conn_initialize_def newPeerContext_def conn_setState_def conn_emit_def same_rest_def
  let ?c2 = "c\<lparr>c_state := Starting, has_peer := True, has_context := True,
       c_log := c_log c @ [StateChanged Starting, PeerNew, ContextNew]\<rparr>"
  obtain xs ab st where sam: "use_sam env srv ?c2 = (xs = [], ?c2\<lparr>c_settings := st, aborted := ab, c_log := c_log ?c2 @ xs\<rparr>)"
      and xs: "xs = [] \<or> xs = [Fatal]"
    by (rule use_sam_cases)
  consider "\<not> peer_new_ok env" | "peer_new_ok env" "\<not> manager_ok env"
    | "peer_new_ok env" "manager_ok env" "xs = [Fatal] \<or> \<not> certificate_ok env \<or> \<not> key_ok env"
    | "peer_new_ok env" "manager_ok env" "xs = []" "certificate_ok env" "key_ok env"
    using xs by blast
  then show ?thesis
  proof cases
    case 1
    then show ?thesis by (intro start [where xs = "[]" and v = NoPeer]) (simp_all add: defs assms c)
  next
    case 2
    then show ?thesis
      by (intro start [where xs = "[PeerNew, ContextNew, ContextFree]" and v = PeerOnly])
        (simp_all add: defs assms c)
  next
    case 3
    then show ?thesis using xs sam
      by (intro start [where xs = "PeerNew # ContextNew # xs" and v = WithContext])
        (auto simp add: defs assms c Let_def)
  next
    case 4
    then show ?thesis using sam
      by (cases "peer_initialize_ok env";
          intro start [where xs = "[PeerNew, ContextNew, PeerInitialize (peer_initialize_ok env)]"
            and v = "if peer_initialize_ok env then Served else WithContext"])
        (simp_all add: defs assms c Let_def)
  qed
qed

lemma conn_close_inv:
  assumes "conn_inv c" "\<not> destroyed c" "possible (CloseConnection reason) c"
  shows "keeps (conn_close reason c)"
proof -
  have "reason = NoReason \<or> has_context c" using assms conn_inv_known(1) by auto
  then obtain c' where "conn_close reason c = Some c'" "reacted c c'"
    using conn_close_reacted by blast
  then show ?thesis using conn_inv_reacted [OF assms(1,2)] by simp
qed

lemma video_do_known:
  assumes "conn_inv c" "\<not> destroyed c" "qualitySeeded c" "steady (c_video c) (f (c_video c))"
  obtains c' where "video_do f c = Some c'" "conn_inv c'" "reacted (c\<lparr>c_video := f (c_video c)\<rparr>) c'"
  using conn_inv_known(1) [OF assms(1,2)] conn_inv_steady [OF assms(1,4)] assms(2,3)
  by (metis video_do_keeps)

lemma reacted_seeds: "reacted c c' \<Longrightarrow> list_ex is_seed (tasks c') = list_ex is_seed (tasks c)"
proof -
  assume "reacted c c'"
  then obtain ts where "tasks c' = tasks c @ ts" "set ts \<subseteq> {VideoClosedTask}"
    unfolding reacted_def by force
  moreover from this(2) have "\<not> list_ex is_seed ts" by (auto simp: list_ex_iff is_seed_def)
  ultimately show ?thesis by simp
qed

text \<open>A task of the queue, on a connection whose peer has a context if it is a seed.\<close>

lemma run_task_inv:
  assumes "conn_inv c" "\<not> destroyed c" "is_seed t \<longrightarrow> qualitySeeded c"
  obtains c' where "run_task t c = Some c'" "conn_inv c'" "\<not> destroyed c'"
    "qualitySeeded c' = qualitySeeded c" "list_ex is_seed (tasks c') = list_ex is_seed (tasks c)"
proof (cases t)
  case (SeedTask q)
  then have "qualitySeeded c" using assms(3) by (simp add: is_seed_def)
  then obtain c' where c': "video_do (stream_seedQuality q) c = Some c'" "conn_inv c'"
    and r: "reacted (c\<lparr>c_video := stream_seedQuality q (c_video c)\<rparr>) c'"
    using video_do_known [OF assms(1,2), where f = "stream_seedQuality q"] steady_stream(5) [OF steady_basic(1)]
    by blast
  have "list_ex is_seed (tasks c') = list_ex is_seed (tasks c)"
    using reacted_seeds [OF r] by simp
  then show ?thesis using that [of c'] c' reacted_fields [OF r] assms(2) SeedTask by simp
next
  case VideoClosedTask
  show ?thesis
  proof (cases "c_state c = Running \<or> c_state c = Streaming")
    case True
    have "conn_inv (requestStop c)" by (rule conn_inv_reacted [OF assms(1,2) requestStop_reacted])
    then show ?thesis using that [of "requestStop c"] True VideoClosedTask assms(2)
      by (simp add: requestStop_def)
  next
    case False
    then show ?thesis using that [of c] VideoClosedTask assms(1,2) by simp
  qed
qed

lemma seed_known: "conn_inv c \<Longrightarrow> list_ex is_seed (tasks c) \<Longrightarrow> qualitySeeded c"
  by (auto simp: conn_inv_def seed_inv_def)

lemma run_next_task_inv:
  assumes "conn_inv c" "\<not> destroyed c"
  shows "keeps (run_next_task c)"
proof (cases "tasks c")
  case Nil
  then show ?thesis using assms by (simp add: run_next_task_def)
next
  case (Cons t ts)
  have inv: "conn_inv (c\<lparr>tasks := ts\<rparr>)" by (rule conn_inv_tasks [OF assms(1)]) (simp add: Cons)
  have "is_seed t \<longrightarrow> qualitySeeded c" using seed_known [OF assms(1)] by (simp add: Cons)
  then obtain c' where "run_task t (c\<lparr>tasks := ts\<rparr>) = Some c'" "conn_inv c'"
    by (rule_tac run_task_inv [OF inv, of t]) (simp_all add: assms(2))
  then show ?thesis by (simp add: run_next_task_def Cons)
qed

text \<open>Once everything queued has run, no seed is left.\<close>

lemma run_tasks_fold:
  assumes "conn_inv c" "\<not> destroyed c" "list_ex is_seed ts \<longrightarrow> qualitySeeded c"
  shows "\<exists>c'. fold (lift_step run_task) ts (Some c) = Some c' \<and> conn_inv c' \<and> \<not> destroyed c' \<and>
     qualitySeeded c' = qualitySeeded c \<and> list_ex is_seed (tasks c') = list_ex is_seed (tasks c)"
  using assms
proof (induction ts arbitrary: c)
  case (Cons t ts)
  obtain c1 where c1: "run_task t c = Some c1" "conn_inv c1" "\<not> destroyed c1"
    "qualitySeeded c1 = qualitySeeded c" "list_ex is_seed (tasks c1) = list_ex is_seed (tasks c)"
    using run_task_inv [OF Cons.prems(1,2), of t] Cons.prems(3) by auto
  then show ?case using Cons.IH [of c1] Cons.prems(3) by auto
qed simp

lemma run_all_tasks_inv:
  assumes "conn_inv c" "\<not> destroyed c"
  obtains c' where "run_all_tasks c = Some c'" "conn_inv c'" "\<not> destroyed c'"
    "qualitySeeded c' = qualitySeeded c" "\<not> list_ex is_seed (tasks c')"
proof -
  have "conn_inv (c\<lparr>tasks := []\<rparr>)" by (rule conn_inv_tasks [OF assms(1)]) simp
  from run_tasks_fold [OF this, of "tasks c"] seed_known [OF assms(1)] assms(2) that
  show ?thesis by (auto simp: run_all_tasks_def)
qed

lemma caps_mode_none:
  "negotiated_mode no_avc caps = None \<Longrightarrow>
   steady v (snd (onCapsAdvertise no_avc created sz status caps v))"
  by (auto simp: onCapsAdvertise_def Let_def intro!: steady_intros)

lemma caps_callback_inv:
  assumes "conn_inv c" "\<not> destroyed c" "channelOpen (c_video c)"
  shows "keeps (caps_callback no_avc created sz status caps c)"
proof -
  let ?caps = "\<lambda>v. snd (onCapsAdvertise no_avc created sz status caps v)"
  have seeded: "qualitySeeded c" using assms by (auto simp: conn_inv_def seed_inv_def)
  show ?thesis
  proof (cases "negotiated_mode no_avc caps = None")
    case True
    obtain c' where "video_do ?caps c = Some c'" "conn_inv c'"
      by (rule video_do_known [where f = ?caps, OF assms(1,2) seeded caps_mode_none [OF True]])
    then show ?thesis using True by (simp add: caps_callback_def)
  next
    case False
    obtain c1 where c1: "run_all_tasks c = Some c1" "conn_inv c1" "\<not> destroyed c1" "qualitySeeded c1"
      "\<not> list_ex is_seed (tasks c1)"
      using run_all_tasks_inv [OF assms(1,2)] seeded by metis
    let ?c2 = "c1\<lparr>c_video := ?caps (c_video c1)\<rparr>"
    have "life_inv ?c2 = life_inv c1" "thread_state_inv ?c2 = thread_state_inv c1"
      by (simp_all add: life_inv_def thread_state_inv_def view_of_def)
    then have "conn_inv ?c2" using c1 by (simp add: conn_inv_def seed_inv_def)
    then obtain c' where "video_do ?caps c1 = Some c'" "conn_inv c'"
      using video_do_keeps [where f = ?caps and c = c1] conn_inv_known(1) [OF c1(2,3)] c1(3,4) by metis
    then show ?thesis using False c1(1) by (auto simp: caps_callback_def Let_def)
  qed
qed

text \<open>The destructor.\<close>

lemma destroy_begin_inv:
  assumes "conn_inv c" "\<not> destroyed c" "\<not> destroying c"
  shows "conn_inv (destroy_begin c)"
proof -
  have flag: "conn_inv (d\<lparr>destroying := True\<rparr>)" if "conn_inv d" "c_pc d \<noteq> NoThread \<or> \<not> has_peer d" for d
  proof -
    have "view_of (d\<lparr>destroying := True\<rparr>) = view_of d" using that(2) by (auto simp: view_of_def)
    moreover have "thread_state_inv (d\<lparr>destroying := True\<rparr>) = thread_state_inv d"
      by (simp add: thread_state_inv_def)
    ultimately show ?thesis using that(1) by (simp add: conn_inv_def life_inv_def seed_inv_def)
  qed
  consider "c_pc c \<noteq> NoThread" | "c_pc c = NoThread" "\<not> has_peer c"
    | "c_pc c = NoThread" "has_peer c"
    by blast
  then show ?thesis
  proof cases
    case 1
    have "conn_inv (requestStop c)" by (rule conn_inv_reacted [OF assms(1,2) requestStop_reacted])
    then have "conn_inv ((requestStop c)\<lparr>destroying := True\<rparr>)"
      by (rule flag) (simp add: requestStop_def 1)
    then show ?thesis using 1 by (simp add: destroy_begin_def)
  next
    case 2
    then show ?thesis using flag [OF assms(1)] by (simp add: destroy_begin_def)
  next
    case 3
    note inv = assms(1) [unfolded conn_inv_def]
    let ?c = "c\<lparr>c_log := c_log c @ [PeerClose], destroying := True\<rparr>"
    have "c_state c \<noteq> Closed" using inv 3 by (auto simp: thread_state_inv_def pc_states_def)
    then have r: "destroy_begin c = ?c" using 3 by (simp add: destroy_begin_def conn_emit_def)
    have "view_of c \<in> {WithContext, PeerOnly}" "view_of ?c = ClosedPeer"
      using 3 assms by (simp_all add: view_of_def)
    then have "life_inv ?c" using inv by (auto simp: life_inv_def)
    moreover have "thread_state_inv ?c" using inv by (auto simp: thread_state_inv_def)
    ultimately show ?thesis using inv by (simp add: r conn_inv_def seed_inv_def)
  qed
qed

lemma destroy_end_inv:
  assumes "conn_inv c" "\<not> destroyed c" "destroying c" "c_pc c = NoThread \<or> c_pc c = Finished"
  shows "conn_inv (destroy_end c)"
proof -
  note inv = assms(1) [unfolded conn_inv_def]
  have no_free: "PeerFree \<notin> set (c_log c)" using inv assms(2) by (simp add: thread_state_inv_def)
  show ?thesis
  proof (cases "has_peer c")
    case True
    let ?c = "c\<lparr>c_log := c_log c @ [ContextFree, PeerFree], has_peer := False, has_context := False,
        has_stopEvent := False, destroyed := True\<rparr>"
    have r: "destroy_end c = ?c" using True by (simp add: destroy_end_def conn_emit_def)
    have "view_of c = ClosedPeer" "view_of ?c = FreedPeer" using True assms by (auto simp: view_of_def)
    then have "life_inv ?c" using inv by (simp add: life_inv_def)
    moreover have "thread_state_inv ?c" using inv assms(4) by (auto simp: thread_state_inv_def)
    ultimately show ?thesis using inv by (simp add: r conn_inv_def seed_inv_def)
  next
    case False
    let ?c = "c\<lparr>has_stopEvent := False, destroyed := True\<rparr>"
    have r: "destroy_end c = ?c" using False by (simp add: destroy_end_def)
    have "view_of ?c = view_of c" using False assms(2) no_free by (simp add: view_of_def)
    then have "life_inv ?c" using inv by (simp add: life_inv_def)
    moreover have "thread_state_inv ?c" using inv False assms(2,4) by (auto simp: thread_state_inv_def)
    ultimately show ?thesis using inv by (simp add: r conn_inv_def seed_inv_def)
  qed
qed

lemma conn_do_inv:
  assumes "conn_inv c"
  shows "keeps (conn_do (srv, e) c)"
proof (cases "aborted c \<or> destroyed c \<or> \<not> possible e c")
  case True
  then show ?thesis using assms by (simp add: conn_do_def)
next
  case False
  then have c: "\<not> destroyed c" "possible e c" by simp_all
  have "keeps (conn_step srv e c)"
  proof (cases e)
    case (VideoEvent ve)
    then have "qualitySeeded c" "\<not> is_session_call ve"
      using c conn_inv_known(2) [OF assms c(1)] by simp_all
    then obtain c' where "video_do (vs_step ve) c = Some c'" "conn_inv c'"
      using video_do_known [OF assms c(1), where f = "vs_step ve"] steady_step by metis
    then show ?thesis using VideoEvent by simp
  qed (use c assms in \<open>simp_all add: conn_initialize_inv run_step_inv conn_close_inv run_next_task_inv
        caps_callback_inv destroy_begin_inv destroy_end_inv\<close>)
  then show ?thesis using False by (simp add: conn_do_def)
qed

interpretation conn: machine "lift_step conn_do" "Some (conn_init settings)" "\<lambda>_. True"
    "returns_with conn_inv" for settings
proof unfold_locales
  show "returns_with conn_inv (Some (conn_init settings))" by (simp add: conn_inv_init)
  show "returns_with conn_inv (lift_step conn_do e o')" if "returns_with conn_inv o'" for e o'
    using that conn_do_inv by (cases e) (auto simp: returns_with_iff keeps_def)
qed

end
