(* ===== verification/ConnectionProperties.thy ===== *)
theory ConnectionProperties
  imports ConnectionLife
begin

text \<open>
  The properties of a connection: its life cycle and the use of its peer, the end it comes to when
  asked to stop, what becomes of it when it cannot start, and of the quality seed.
\<close>

section \<open>What the other threads leave to the run thread\<close>

definition persist :: "connection \<Rightarrow> connection \<Rightarrow> bool" where
  "persist c c' \<longleftrightarrow> c_pc c' = c_pc c \<and> c_state c' = c_state c \<and> aborted c' = aborted c \<and>
     qualitySeeded c' = qualitySeeded c \<and> (stop_requested c \<longrightarrow> stop_requested c')"

lemma persist_refl [simp]: "persist c c"
  by (simp add: persist_def)

lemma persist_trans: "persist c c' \<Longrightarrow> persist c' c'' \<Longrightarrow> persist c c''"
  by (simp add: persist_def)

lemma requestStop_persist [simp]: "persist c (requestStop c)"
  by (simp add: persist_def requestStop_def)

lemma conn_close_persist: "conn_close reason c = Some c' \<Longrightarrow> persist c c'"
  by (auto simp: conn_close_def persist_def requestStop_def conn_emit_def split: if_splits close_reason.splits)

lemma react_persist: "react x c = Some c' \<Longrightarrow> persist c c'"
  by (cases x) (auto simp: conn_close_persist, auto simp: persist_def)

lemma fold_None: "fold (lift_step f) xs None = None"
  by (induction xs) simp_all

lemma fold_persist:
  assumes "\<And>x c c'. f x c = Some c' \<Longrightarrow> persist c c'"
  shows "fold (lift_step f) xs (Some c) = Some c' \<Longrightarrow> persist c c'"
proof (induction xs arbitrary: c)
  case (Cons x xs)
  then obtain c1 where "f x c = Some c1" "fold (lift_step f) xs (Some c1) = Some c'"
    by (cases "f x c") (simp_all add: fold_None)
  then show ?case using assms Cons.IH persist_trans by blast
qed simp

lemma video_do_persist:
  assumes "video_do f c = Some c'"
  shows "persist c c'"
proof -
  have "persist (c\<lparr>c_video := f (c_video c)\<rparr>) c'"
    by (rule fold_persist [of react, OF react_persist])
      (use assms in \<open>simp_all add: video_do_def Let_def\<close>)
  then show ?thesis by (simp add: persist_def)
qed

lemma run_task_persist: "run_task t c = Some c' \<Longrightarrow> persist c c'"
  by (cases t) (auto intro: video_do_persist split: if_splits)

lemma tasks_persist: "persist (c\<lparr>tasks := ts\<rparr>) c' = persist c c'"
  by (simp add: persist_def)

lemma run_next_task_persist: "run_next_task c = Some c' \<Longrightarrow> persist c c'"
  by (auto simp: run_next_task_def tasks_persist dest!: run_task_persist split: list.splits)

lemma run_all_tasks_persist:
  assumes "run_all_tasks c = Some c'"
  shows "persist c c'"
proof -
  have "persist (c\<lparr>tasks := []\<rparr>) c'"
    by (rule fold_persist [of run_task, OF run_task_persist])
      (use assms in \<open>simp_all add: run_all_tasks_def\<close>)
  then show ?thesis by (simp add: tasks_persist)
qed

lemma caps_callback_persist: "caps_callback no_avc created sz status caps c = Some c' \<Longrightarrow> persist c c'"
  by (auto simp: caps_callback_def Let_def bind_eq_Some_conv split: if_splits
      dest: video_do_persist run_all_tasks_persist intro: persist_trans)

fun is_run_step :: "server \<times> 'r conn_event \<Rightarrow> bool" where
  "is_run_step (srv, RunStep env) = True"
| "is_run_step _ = False"

lemma conn_do_persist:
  assumes "conn_do (srv, e) c = Some c'" "\<not> is_run_step (srv, e)" "c_state c \<noteq> Initial"
  shows "persist c c'"
proof (cases "aborted c \<or> destroyed c \<or> \<not> possible e c")
  case False
  then have "conn_step srv e c = Some c'" "possible e c" using assms(1) by (simp_all add: conn_do_def)
  then show ?thesis using assms(2,3)
    by (cases e)
      (auto simp: destroy_begin_def destroy_end_def Let_def persist_def requestStop_def conn_emit_def
        split: if_splits
        dest!: conn_close_persist run_next_task_persist caps_callback_persist video_do_persist)
qed (use assms in \<open>auto simp: conn_do_def\<close>)

section \<open>The end\<close>

fun rank :: "run_pc \<Rightarrow> nat" where
  "rank Channels = 7"
| "rank InitChannels = 6"
| "rank OpenVideo = 5"
| "rank Detect = 4"
| "rank Begin = 4"
| "rank LoopHead = 3"
| "rank Waiting = 3"
| "rank ClosingPeer = 2"
| "rank ClosingParts = 1"
| "rank Finished = 0"
| "rank NoThread = 0"

text \<open>A stop request is on its way: the thread runs and will see it.\<close>

definition stopping :: "connection \<Rightarrow> bool" where
  "stopping c \<longleftrightarrow> conn_inv c \<and> stop_requested c \<and> \<not> aborted c"

lemma stopping_thread: "stopping c \<Longrightarrow> c_pc c \<noteq> NoThread"
  by (simp add: stopping_def conn_inv_def thread_state_inv_def)

lemma stopping_not_initial: "stopping c \<Longrightarrow> c_state c \<noteq> Initial"
  by (auto simp: stopping_def conn_inv_def thread_state_inv_def pc_states_def split: if_splits)

lemma run_step_ranks:
  assumes "run_step srv env c = Some c'" "stop_requested c"
  shows "stop_requested c' \<and> aborted c' = aborted c \<and>
     (rank (c_pc c') < rank (c_pc c) \<or> rank (c_pc c) = 0 \<and> c' = c)"
proof (cases "c_pc c")
  case Channels
  then show ?thesis using assms
    by (auto simp: run_step_def run_channels_def Let_def conn_emit_def split: if_splits prod.splits)
next
  case InitChannels
  then show ?thesis using assms
    by (auto simp: run_step_def run_init_def Let_def persist_def split: if_splits prod.splits option.splits
        dest!: video_do_persist)
next
  case Waiting
  then show ?thesis using assms by (auto simp: run_step_def run_woken_def)
next
  case OpenVideo
  then show ?thesis using assms
    by (auto simp: run_step_def run_open_def Let_def persist_def conn_setState_def conn_emit_def
        split: if_splits option.splits dest!: video_do_persist)
next
  case Detect
  then show ?thesis using assms by (auto simp: run_step_def run_detect_def net_do_def)
next
  case ClosingParts
  then show ?thesis using assms
    by (auto simp: run_step_def onClose_def persist_def conn_setState_def conn_emit_def
        split: if_splits dest!: video_do_persist)
qed (use assms in \<open>auto simp: run_step_def run_begin_def run_head_def run_close_peer_def
      conn_setState_def conn_emit_def split: if_splits\<close>)

lemma conn_do_some: "conn_inv c \<Longrightarrow> \<exists>c'. conn_do se c = Some c' \<and> conn_inv c'"
  using conn_do_inv by (cases se) (auto simp: keeps_def)

lemma stopping_step:
  assumes "stopping c"
  shows "\<exists>c'. conn_do se c = Some c' \<and> stopping c' \<and> rank (c_pc c') \<le> rank (c_pc c) \<and>
    (is_run_step se \<and> rank (c_pc c) \<noteq> 0 \<longrightarrow> rank (c_pc c') < rank (c_pc c))"
proof -
  obtain c' where c': "conn_do se c = Some c'" "conn_inv c'"
    using conn_do_some [of c se] assms by (auto simp: stopping_def)
  obtain srv e where se: "se = (srv, e)" by (cases se)
  show ?thesis
  proof (cases "is_run_step se")
    case False
    then have "persist c c'"
      using conn_do_persist [of srv e c c'] c' se stopping_not_initial [OF assms] by simp
    then show ?thesis using False c' assms by (auto simp: persist_def stopping_def)
  next
    case True
    then obtain env where e: "e = RunStep env" using se by (cases e) simp_all
    have "\<not> destroyed c \<or> rank (c_pc c) = 0"
      using assms by (auto simp: stopping_def conn_inv_def thread_state_inv_def)
    moreover have "run_step srv env c = Some c'" if "\<not> destroyed c"
      using c' that assms by (simp add: se e conn_do_def stopping_def)
    moreover have "c' = c" if "destroyed c" using c' that by (simp add: se conn_do_def)
    ultimately show ?thesis
      using run_step_ranks [of srv env c c'] c' assms by (fastforce simp: stopping_def)
  qed
qed

lemma stopping_run:
  assumes "stopping c"
  shows "\<exists>c'. fold (lift_step conn_do) es (Some c) = Some c' \<and> stopping c' \<and>
    rank (c_pc c') \<le> rank (c_pc c) - length (filter is_run_step es)"
  using assms
proof (induction es arbitrary: c)
  case (Cons se es)
  obtain c1 where c1: "conn_do se c = Some c1" "stopping c1" "rank (c_pc c1) \<le> rank (c_pc c)"
    "is_run_step se \<and> rank (c_pc c) \<noteq> 0 \<longrightarrow> rank (c_pc c1) < rank (c_pc c)"
    using stopping_step [OF Cons.prems] by blast
  obtain c' where c': "fold (lift_step conn_do) es (Some c1) = Some c'" "stopping c'"
    "rank (c_pc c') \<le> rank (c_pc c1) - length (filter is_run_step es)"
    using Cons.IH [OF c1(2)] by blast
  have "rank (c_pc c') \<le> rank (c_pc c) - length (filter is_run_step (se # es))"
    using c1(3,4) c'(3) by (cases "is_run_step se"; cases "rank (c_pc c) = 0") simp_all
  then show ?case using c1(1) c'(1,2) by simp
qed auto

lemma reachable_inv:
  "fold (lift_step conn_do) es (Some (conn_init settings)) = Some c \<Longrightarrow> conn_inv c"
  using conn.inv_reach [of es settings] by (simp add: list_all_iff)

lemma rank_zero: "c_pc c \<noteq> NoThread \<Longrightarrow> rank (c_pc c) = 0 \<longleftrightarrow> c_pc c = Finished"
  by (cases "c_pc c") simp_all

lemma rank_bound: "rank pc \<le> 7"
  by (cases pc) simp_all

lemma finished_closed: "conn_inv c \<Longrightarrow> c_pc c = Finished \<Longrightarrow> c_state c = Closed"
  by (simp add: conn_inv_def thread_state_inv_def pc_states_def)

section \<open>The properties\<close>

lemma peer_cmd_once:
  assumes "watch peer_cmd v xs = Some w"
  shows "count_list xs PeerClose \<le> (if v = ClosedPeer \<or> v = FreedPeer then 0 else 1) \<and>
     count_list xs PeerFree \<le> (if v = FreedPeer then 0 else 1)"
  using assms
proof (induction xs arbitrary: v)
  case (Cons x xs)
  then obtain v' where v': "peer_cmd x v = Some v'" "watch peer_cmd v' xs = Some w"
    by (cases "peer_cmd x v") (simp_all add: fold_None)
  show ?case using Cons.IH [OF v'(2)] v'(1) by (cases x; cases v) (auto split: if_splits)
qed simp



definition demo_settings :: rdp_settings where
  "demo_settings = \<lparr>bool_of = (\<lambda>_. True), num_of = (\<lambda>k. if k = ConnectionType then 6 else 64),
     NtlmSamFile = None, has_certificate = False, has_key = False\<rparr>"

definition demo_init :: "bool \<Rightarrow> init_env" where
  "demo_init key = \<lparr>peer_new_ok = True, manager_ok = True, sam_opened = True, sam_set = True,
     certificate_ok = True, key_ok = key, peer_initialize_ok = True, h264_disabled = False,
     nt_hash = (\<lambda>_. replicate 16 0), sam_name = []\<rparr>"

definition demo_run :: "peer_callback list \<Rightarrow> run_env" where
  "demo_run cbs = \<lparr>handleCount = 1, callbacks = cbs, check_ok = True, channel_joined = (True, True),
     channel_state = DrdynvcReady, connected = True, manager_open_ok = True, manager_check_ok = True,
     clip_answers = (True, 0), disp_answers = (True, 0, 0), video_answers = (True, True, True),
     channel_open_ok = True, clocks = (0, 0), clip_stop = 0\<rparr>"

definition demo_server :: server where
  "demo_server = server_init\<lparr>usePamAuthentication := True\<rparr>"

abbreviation demo_events :: "bool \<Rightarrow> (server \<times> rect16 list conn_event) list" where
  "demo_events key \<equiv> [(demo_server, Initialize (demo_init key)), (demo_server, RunStep (demo_run []))]"

lemmas demo_defs = demo_settings_def demo_init_def demo_run_def demo_server_def server_init_def
  conn_do_def conn_init_def conn_initialize_def newPeerContext_def use_sam_def conn_setState_def
  conn_emit_def run_step_def run_begin_def run_head_def run_woken_def setup_settings_def


text \<open>
The quality that the client's connection type calls for is never used. Whenever the queued call
of \<open>seedQuality\<close> is still to be run, the video stream has no encoding mode yet, and running it
changes nothing at all: the negotiation that sets the mode waits in the same queue behind it, and
later activations do not queue it again.
\<close>

theorem quality_seed_has_no_effect:
  assumes "fold (lift_step conn_do) es (Some (conn_init settings)) = Some c"
    and "SeedTask q \<in> set (tasks c)"
  shows "run_task (SeedTask q) c = Some c"
proof -
  have "list_ex is_seed (tasks c)" using assms(2) by (auto simp: list_ex_iff is_seed_def)
  then have "activeEncodingMode (c_video c) = None"
    using reachable_inv [OF assms(1)] by (simp add: conn_inv_def seed_inv_def)
  then have "stream_seedQuality q (c_video c) = c_video c"
    by (simp add: stream_seedQuality_def on_quality_def seedQuality_def)
  then show ?thesis by (simp add: video_do_def)
qed

theorem quality_seed_has_no_effect_witness:
  "\<exists>c. fold (lift_step conn_do) (demo_events True @ [(demo_server, RunStep (demo_run [])),
          (demo_server, RunStep (demo_run [CbActivate]))])
        (Some (conn_init demo_settings)) = Some c \<and> tasks c = [SeedTask 95] \<and> c_state c = Activated \<and>
     run_task (SeedTask 95) c = Some c"
proof -
  obtain c where c: "fold (lift_step conn_do) (demo_events True @ [(demo_server, RunStep (demo_run [])),
          (demo_server, RunStep (demo_run [CbActivate]))])
        (Some (conn_init demo_settings)) = Some c" "tasks c = [SeedTask 95]" "c_state c = Activated"
    by (simp add: demo_defs onActivate_def set_num_def set_bool_def qualitySeedForConnectionType_def
        CONNECTION_TYPE_MODEM_def CONNECTION_TYPE_BROADBAND_LOW_def CONNECTION_TYPE_SATELLITE_def
        CONNECTION_TYPE_WAN_def CONNECTION_TYPE_BROADBAND_HIGH_def CONNECTION_TYPE_LAN_def)
  have "SeedTask 95 \<in> set (tasks c)" by (simp add: c(2))
  from quality_seed_has_no_effect [OF c(1) this] c show ?thesis by blast
qed

lemma conn_do_state:
  assumes "conn_inv c" "c_pc c = NoThread" "c_state c = Starting"
  shows "\<exists>c'. conn_do se c = Some c' \<and> conn_inv c' \<and> c_pc c' = NoThread \<and> c_state c' = Starting"
proof -
  obtain srv e where se: "se = (srv, e)" by (cases se)
  obtain c' where c': "conn_do (srv, e) c = Some c'" "conn_inv c'"
    using conn_do_some [OF assms(1), of "(srv, e)"] by blast
  have "persist c c'"
  proof (cases "is_run_step (srv, e)")
    case True
    then obtain env where "e = RunStep env" by (cases e) simp_all
    then have "c' = c" using c'(1) assms(2) by (simp add: conn_do_def run_step_def split: if_splits)
    then show ?thesis by simp
  next
    case False
    then show ?thesis using conn_do_persist [OF c'(1)] assms(3) by simp
  qed
  then show ?thesis using c' se assms(2,3) by (simp add: persist_def)
qed

text \<open>
A connection that cannot be set up stays in the state Starting: when \<open>initialize\<close> gives up
before it starts the run thread, nothing that happens later, a request to close it included, makes it
announce Closed, which is what the server waits for to remove it.
\<close>

theorem failed_start_never_closes:
  assumes "fold (lift_step conn_do) es (Some (conn_init settings)) = Some c"
    and "c_state c = Starting" and "c_pc c = NoThread"
  shows "\<exists>c'. fold (lift_step conn_do) es' (Some c) = Some c' \<and> c_state c' = Starting \<and>
     StateChanged Closed \<notin> set (c_log c')"
proof -
  have "\<exists>c'. fold (lift_step conn_do) es' (Some c) = Some c' \<and> conn_inv c' \<and> c_state c' = Starting"
    using reachable_inv [OF assms(1)] assms(2,3)
  proof (induction es' arbitrary: c)
    case (Cons se es')
    then show ?case using conn_do_state [of c se] by fastforce
  qed simp
  then obtain c' where c': "fold (lift_step conn_do) es' (Some c) = Some c'" "conn_inv c'" "c_state c' = Starting"
    by blast
  have closed: "watch life_cmd st xs = Some st' \<Longrightarrow> st = Closed \<or> StateChanged Closed \<in> set xs \<Longrightarrow> st' = Closed" for st st' xs
  proof (induction xs arbitrary: st)
    case (Cons x xs)
    then obtain st1 where "life_cmd x st = Some st1" "watch life_cmd st1 xs = Some st'"
      by (cases "life_cmd x st") (simp_all add: fold_None)
    moreover from this(1) have "st = Closed \<or> x = StateChanged Closed \<Longrightarrow> st1 = Closed"
      by (cases x; cases st) (auto elim: life_cmd.elims)
    ultimately show ?case using Cons by auto
  qed simp
  show ?thesis using c' closed [where st = Initial and xs = "c_log c'" and st' = Starting] by (auto simp: conn_inv_def life_inv_def)
qed

theorem failed_start_never_closes_witness:
  "\<exists>c c'. fold (lift_step conn_do) [(demo_server, Initialize (demo_init False) :: rect16 list conn_event)]
        (Some (conn_init demo_settings)) = Some c \<and>
     fold (lift_step conn_do) [(demo_server, CloseConnection NoReason :: rect16 list conn_event)] (Some c) = Some c' \<and>
     c_state c' = Starting"
proof -
  obtain c where c: "fold (lift_step conn_do) [(demo_server, Initialize (demo_init False) :: rect16 list conn_event)]
        (Some (conn_init demo_settings)) = Some c" "c_state c = Starting" "c_pc c = NoThread"
    by (simp add: demo_defs)
  from failed_start_never_closes [OF c, of "[(demo_server, CloseConnection NoReason)]"] c
  show ?thesis by blast
qed

end
