(* ===== verification/LoginGate.thy ===== *)
theory LoginGate
  imports ConnectionProperties
begin

text \<open>
  From the login to the session: which callbacks of the peer a connection has run, with what they
  answered, and that a connection is activated only after a login that was accepted. The one thing
  asked of FreeRDP is that it calls \<open>PostConnect\<close> before \<open>Activate\<close>.
\<close>

section \<open>The callbacks that were run\<close>

type_synonym made_call = "server \<times> peer_callback \<times> bool"

text \<open>What \<open>peer_calls\<close> runs of a list, with the answers.\<close>

fun calls_made :: "server \<Rightarrow> peer_callback list \<Rightarrow> connection \<Rightarrow> made_call list" where
  "calls_made srv [] c = []"
| "calls_made srv (cb # cbs) c =
     (case peer_call srv cb c of
        None \<Rightarrow> []
      | Some (ok, c1) \<Rightarrow> (srv, cb, ok) # (if ok then calls_made srv cbs c1 else []))"

fun made_by :: "server \<times> 'r conn_event \<Rightarrow> connection \<Rightarrow> made_call list" where
  "made_by (srv, RunStep env) c =
     (if aborted c \<or> destroyed c \<or> c_pc c \<noteq> Waiting \<or> stop_requested c then []
      else calls_made srv (callbacks env) (conn_emit [CheckFileDescriptor] c))"
| "made_by _ c = []"

definition gate_step ::
  "server \<times> 'r conn_event \<Rightarrow> connection \<times> made_call list \<Rightarrow> (connection \<times> made_call list) option" where
  "gate_step se ct = map_option (\<lambda>c'. (c', snd ct @ made_by se (fst ct))) (conn_do se (fst ct))"

fun accepted :: "made_call \<Rightarrow> bool" where
  "accepted (srv, cb, ok) = ok"

fun is_activate :: "made_call \<Rightarrow> bool" where
  "is_activate (srv, CbActivate, ok) = True"
| "is_activate _ = False"

fun is_login :: "made_call \<Rightarrow> bool" where
  "is_login (srv, CbPostConnect lib a l cred, ok) = True"
| "is_login _ = False"

fun truthful :: "made_call \<Rightarrow> bool" where
  "truthful (srv, CbPostConnect lib a l cred, ok) = (ok = fst (onPostConnect lib a l srv cred))"
| "truthful _ = True"

text \<open>FreeRDP's order of callbacks.\<close>

fun login_first :: "bool \<Rightarrow> made_call list \<Rightarrow> bool" where
  "login_first seen [] = True"
| "login_first seen (x # xs) =
     (if is_activate x then seen \<and> login_first seen xs else login_first (seen \<or> is_login x) xs)"

section \<open>One pass\<close>

lemma peer_call_seeded:
  assumes "peer_call srv cb c = Some (ok, c1)"
  shows "qualitySeeded c1 = qualitySeeded c \<or> is_activate (srv, cb, ok)" "truthful (srv, cb, ok)"
proof -
  show "qualitySeeded c1 = qualitySeeded c \<or> is_activate (srv, cb, ok)"
    using assms
    by (cases cb) (auto simp: returning_def onSuppressOutput_def net_do_def persist_def
        dest!: video_do_persist split: prod.splits if_splits)
  show "truthful (srv, cb, ok)" using assms by (cases cb) auto
qed

lemma calls_made_spec:
  assumes "peer_calls srv cbs c = Some (ok, c')"
  shows "list_all accepted (butlast (calls_made srv cbs c))"
    and "ok \<longleftrightarrow> list_all accepted (calls_made srv cbs c)"
    and "list_all truthful (calls_made srv cbs c)"
    and "qualitySeeded c' \<longrightarrow> qualitySeeded c \<or> list_ex is_activate (calls_made srv cbs c)"
  using assms
proof (induction cbs arbitrary: c)
  case (Cons cb cbs)
  {
    case 1
    then show ?case using Cons.IH(1) by (auto split: option.splits if_splits prod.splits)
  next
    case 2
    then show ?case using Cons.IH(2) by (auto split: option.splits if_splits prod.splits)
  next
    case 3
    then show ?case using Cons.IH(3) peer_call_seeded(2) by (auto split: option.splits if_splits prod.splits)
  next
    case 4
    then show ?case
      using Cons.IH(4) peer_call_seeded(1) [of srv cb c]
      by (fastforce split: option.splits if_splits prod.splits)
  }
qed simp_all

definition closing :: "run_pc \<Rightarrow> bool" where
  "closing pc \<longleftrightarrow> pc \<in> {ClosingPeer, ClosingParts, Finished}"

lemma run_step_seeded:
  assumes "run_step srv env c = Some c'" and "c_pc c \<noteq> Waiting \<or> stop_requested c"
  shows "qualitySeeded c' = qualitySeeded c" "closing (c_pc c) \<Longrightarrow> closing (c_pc c')"
proof -
  have "qualitySeeded c' = qualitySeeded c \<and> (closing (c_pc c) \<longrightarrow> closing (c_pc c'))"
  proof (cases "c_pc c")
    case Channels
    then show ?thesis using assms
      by (auto simp: run_step_def run_channels_def Let_def conn_emit_def closing_def split: if_splits prod.splits)
  next
    case InitChannels
    then show ?thesis using assms
      by (auto simp: run_step_def run_init_def Let_def persist_def closing_def
          split: if_splits prod.splits option.splits dest!: video_do_persist)
  next
    case Waiting
    then show ?thesis using assms by (auto simp: run_step_def run_woken_def closing_def)
  next
    case OpenVideo
    then show ?thesis using assms
      by (auto simp: run_step_def run_open_def Let_def persist_def conn_setState_def conn_emit_def closing_def
          split: if_splits option.splits dest!: video_do_persist)
  next
    case Detect
    then show ?thesis using assms by (auto simp: run_step_def run_detect_def net_do_def closing_def)
  next
    case ClosingParts
    then show ?thesis using assms
      by (auto simp: run_step_def onClose_def persist_def conn_setState_def conn_emit_def closing_def
          split: if_splits dest!: video_do_persist)
  qed (use assms in \<open>auto simp: run_step_def run_begin_def run_head_def run_close_peer_def Let_def
        conn_setState_def conn_emit_def closing_def split: if_splits\<close>)
  then show "qualitySeeded c' = qualitySeeded c" "closing (c_pc c) \<Longrightarrow> closing (c_pc c')" by simp_all
qed

lemma conn_initialize_seeded: "qualitySeeded (conn_initialize env srv c) = qualitySeeded c"
  by (simp add: conn_initialize_def newPeerContext_def use_sam_def conn_setState_def conn_emit_def Let_def
      split: prod.split option.split)

section \<open>The invariant\<close>

definition gate_inv :: "connection \<times> made_call list \<Rightarrow> bool" where
  "gate_inv ct \<longleftrightarrow> (case ct of (c, tr) \<Rightarrow>
     conn_inv c \<and> (qualitySeeded c \<longrightarrow> list_ex is_activate tr) \<and> list_all accepted (butlast tr) \<and>
     (list_all accepted tr \<or> closing (c_pc c)) \<and> list_all truthful tr)"

lemma accepted_append:
  "list_all accepted tr \<Longrightarrow> list_all accepted (butlast xs) \<Longrightarrow> list_all accepted (butlast (tr @ xs))"
  by (cases "xs = []") (auto simp: butlast_append dest: in_set_butlastD simp: list_all_iff)

text \<open>A step that runs no callback.\<close>

lemma gate_quiet:
  assumes "gate_inv (c, tr)" and "conn_inv c'" and "qualitySeeded c' = qualitySeeded c"
    and "closing (c_pc c) \<Longrightarrow> closing (c_pc c')"
  shows "gate_inv (c', tr)"
  using assms by (auto simp: gate_inv_def)

lemma closing_not_initial: "conn_inv c \<Longrightarrow> closing (c_pc c) \<Longrightarrow> c_state c \<noteq> Initial"
  by (auto simp: conn_inv_def thread_state_inv_def pc_states_def closing_def split: if_splits)

lemma run_step_gate:
  assumes "gate_inv (c, tr)" and "run_step srv env c = Some c'" and "conn_inv c'"
    and "\<not> aborted c" and "\<not> destroyed c"
  shows "gate_inv (c', tr @ made_by (srv, RunStep env) c)"
proof (cases "c_pc c \<noteq> Waiting \<or> stop_requested c")
  case True
  then show ?thesis using gate_quiet [OF assms(1,3)] run_step_seeded [OF assms(2)] by auto
next
  case False
  let ?c = "conn_emit [CheckFileDescriptor] c" and ?xs = "calls_made srv (callbacks env) (conn_emit [CheckFileDescriptor] c)"
  obtain ok c1 where calls: "peer_calls srv (callbacks env) ?c = Some (ok, c1)"
    using assms(2) False by (auto simp: run_step_def run_woken_def split: option.splits)
  have c': "qualitySeeded c' = qualitySeeded c1" "ok \<or> closing (c_pc c')"
    using assms(2) False calls by (auto simp: run_step_def run_woken_def closing_def split: if_splits)
  have old: "list_all accepted tr" "qualitySeeded c \<longrightarrow> list_ex is_activate tr" "list_all truthful tr"
    using assms(1) False by (auto simp: gate_inv_def closing_def)
  note spec = calls_made_spec [OF calls]
  have "list_all accepted (butlast (tr @ ?xs))" using accepted_append [OF old(1) spec(1)] .
  moreover have "list_all accepted (tr @ ?xs) \<or> closing (c_pc c')" using old(1) spec(2) c'(2) by auto
  moreover have "qualitySeeded c' \<longrightarrow> list_ex is_activate (tr @ ?xs)"
    using old(2) spec(4) c'(1) by (auto simp: conn_emit_def)
  ultimately show ?thesis
    using False assms(3-5) old(3) spec(3) by (simp add: gate_inv_def)
qed

lemma gate_step_inv:
  assumes "gate_inv (c, tr)"
  shows "\<exists>c'. conn_do se c = Some c' \<and> gate_inv (c', tr @ made_by se c)"
proof -
  have inv: "conn_inv c" using assms by (simp add: gate_inv_def)
  obtain c' where c': "conn_do se c = Some c'" "conn_inv c'" using conn_do_some [OF inv] by blast
  obtain srv e where se: "se = (srv, e)" by (cases se)
  have "gate_inv (c', tr @ made_by se c)"
  proof (cases "is_run_step se")
    case True
    then obtain env where e: "e = RunStep env" using se by (cases e) simp_all
    show ?thesis
    proof (cases "aborted c \<or> destroyed c")
      case True
      then show ?thesis using c' se e assms by (auto simp: conn_do_def)
    next
      case False
      then have "run_step srv env c = Some c'" using c'(1) se e by (simp add: conn_do_def)
      then show ?thesis using run_step_gate [OF assms _ c'(2)] False se e by blast
    qed
  next
    case False
    then have none: "made_by se c = []" using se by (cases e) simp_all
    show ?thesis
    proof (cases "c_state c = Initial")
      case True
      then have "\<not> closing (c_pc c)" using closing_not_initial [OF inv] by blast
      moreover have "qualitySeeded c' = qualitySeeded c"
        using c'(1) se False conn_initialize_seeded
        by (cases e) (auto simp: conn_do_def destroy_begin_def destroy_end_def Let_def persist_def requestStop_def
            conn_emit_def split: if_splits
            dest!: conn_close_persist run_next_task_persist caps_callback_persist video_do_persist)
      ultimately show ?thesis using gate_quiet [OF assms c'(2)] none by simp
    next
      case known: False
      then have "persist c c'" using conn_do_persist [of srv e c c'] c'(1) se False by simp
      then show ?thesis using gate_quiet [OF assms c'(2)] none by (simp add: persist_def)
    qed
  qed
  then show ?thesis using c'(1) by blast
qed

interpretation gate: machine "lift_step gate_step" "Some (conn_init settings, [])" "\<lambda>_. True"
    "returns_with gate_inv" for settings
proof unfold_locales
  have "conn_inv (conn_init settings)" "\<not> qualitySeeded (conn_init settings)"
    by (simp_all add: conn_inv_init) (simp add: conn_init_def)
  then show "returns_with gate_inv (Some (conn_init settings, []))" by (simp add: gate_inv_def)
  fix e and x :: "(connection \<times> made_call list) option"
  assume "returns_with gate_inv x"
  then obtain c tr where x: "x = Some (c, tr)" "gate_inv (c, tr)" by (auto simp: returns_with_iff)
  obtain c' where "conn_do e c = Some c'" "gate_inv (c', tr @ made_by e c)"
    using gate_step_inv [OF x(2), of e] by blast
  then show "returns_with gate_inv (lift_step gate_step e x)" by (simp add: x(1) gate_step_def)
qed

text \<open>An activation that is not the first callback is preceded by a login, which is not the last.\<close>

lemma login_before:
  assumes "login_first False tr" and "list_ex is_activate tr"
  shows "\<exists>x \<in> set (butlast tr). is_login x"
  using assms
proof (induction tr)
  case (Cons x xs)
  show ?case
  proof (cases "is_login x")
    case True
    then have "xs \<noteq> []" using Cons.prems(2) by (cases x rule: is_login.cases) auto
    then show ?thesis using True by simp
  next
    case False
    then have "\<not> is_activate x" "login_first False xs" "list_ex is_activate xs" "xs \<noteq> []"
      using Cons.prems by (auto split: if_splits)
    then show ?thesis using Cons.IH by auto
  qed
qed simp

text \<open>
C3. No session without a login. Whatever a client sends and the threads do: if a connection ever
announced that it is activated, which is what makes the controller start a session for it, then the
login callback was run before, for some name and password the client sent, and its decision was to let
the client in. FreeRDP is relied on to call \<open>PostConnect\<close> before \<open>Activate\<close>; that a refused login
stops it is shown.
\<close>

theorem no_session_without_login:
  assumes "fold (lift_step gate_step) es (Some (conn_init settings, [])) = Some (c, tr)"
    and "login_first False tr" and "StateChanged Activated \<in> set (c_log c)"
  shows "\<exists>srv lib autologon_set loginName cred.
     (srv, CbPostConnect lib autologon_set loginName cred, True) \<in> set tr \<and>
     fst (onPostConnect lib autologon_set loginName srv cred)"
proof -
  have "returns_with gate_inv (fold (lift_step gate_step) es (Some (conn_init settings, [])))"
    by (rule gate.inv_reach) (simp add: list_all_iff)
  then have inv: "gate_inv (c, tr)" using assms(1) by simp
  then have "qualitySeeded c" using assms(3) by (simp add: gate_inv_def conn_inv_def thread_state_inv_def)
  then have "list_ex is_activate tr" using inv by (simp add: gate_inv_def)
  then obtain x where x: "x \<in> set (butlast tr)" "is_login x" using login_before assms(2) by blast
  obtain srv lib a l cred ok where call: "x = (srv, CbPostConnect lib a l cred, ok)"
    using x(2) by (cases x rule: is_login.cases) auto
  have "accepted x" "x \<in> set tr" "truthful x"
    using inv x(1) in_set_butlastD [OF x(1)] by (auto simp: gate_inv_def list_all_iff)
  then have "(srv, CbPostConnect lib a l cred, True) \<in> set tr" "fst (onPostConnect lib a l srv cred)"
    using call by simp_all
  then show ?thesis by blast
qed

definition demo_login :: peer_callback where
  "demo_login = CbPostConnect \<lparr>start_works = True, authenticates = (\<lambda>_. True), account_valid = (\<lambda>_. True)\<rparr>
     True [97] \<lparr>cred_username = [97], cred_password = [120]\<rparr>"

definition demo_login_events :: "(server \<times> rect16 list conn_event) list" where
  "demo_login_events = [(demo_server, Initialize (demo_init True)), (demo_server, RunStep (demo_run [])),
     (demo_server, RunStep (demo_run [])), (demo_server, RunStep (demo_run [demo_login, CbActivate]))]"

lemma demo_login_accepted:
  "fst (onPostConnect \<lparr>start_works = True, authenticates = (\<lambda>_. True), account_valid = (\<lambda>_. True)\<rparr>
     True [97] demo_server \<lparr>cred_username = [97], cred_password = [120]\<rparr>)"
  by (simp add: onPostConnect_def demo_server_def pamAuthenticate_def last_section_def fromLatin1_def backslash_def c_string_def
      Let_def)

theorem no_session_without_login_witness:
  "\<exists>c tr. fold (lift_step gate_step) demo_login_events (Some (conn_init demo_settings, [])) = Some (c, tr) \<and>
     StateChanged Activated \<in> set (c_log c) \<and>
     (\<exists>srv lib autologon_set loginName cred. (srv, CbPostConnect lib autologon_set loginName cred, True) \<in> set tr)"
proof -
  have "returns_with (\<lambda>ct. StateChanged Activated \<in> set (c_log (fst ct)) \<and> login_first False (snd ct))
      (fold (lift_step gate_step) demo_login_events (Some (conn_init demo_settings, [])))"
    using demo_login_accepted
    by (simp add: demo_login_events_def demo_login_def demo_defs gate_step_def onActivate_def set_num_def set_bool_def
        qualitySeedForConnectionType_def
        CONNECTION_TYPE_MODEM_def CONNECTION_TYPE_BROADBAND_LOW_def CONNECTION_TYPE_SATELLITE_def
        CONNECTION_TYPE_WAN_def CONNECTION_TYPE_BROADBAND_HIGH_def CONNECTION_TYPE_LAN_def)
  then obtain c tr where run: "fold (lift_step gate_step) demo_login_events (Some (conn_init demo_settings, [])) = Some (c, tr)"
    and c: "login_first False tr" "StateChanged Activated \<in> set (c_log c)"
    by (auto simp: returns_with_iff)
  from no_session_without_login [OF run c] run c(2) show ?thesis by blast
qed

end
