(* ===== verification/CursorCache.thy ===== *)
theory CursorCache
  imports Connection_Types "HOL-Library.AList"
begin

text \<open>
  \<open>src/Cursor.cpp\<close>: the server's side of the RDP pointer cache. \<open>QHash<uint32_t,
  CursorUpdate>\<close> is an association list with distinct keys; the order in which \<open>std::find_if\<close>
  and \<open>std::min_element\<close> walk it is not defined by Qt, so it is an argument, any reordering of
  the entries. \<open>lastUsedCursor\<close>, a pointer into the hash, is the key it points at. An operation
  is \<open>None\<close> where the code would dereference a dangling pointer or \<open>end()\<close>.

  The specification is what the client shows: the pointer PDUs in \<open>cur_log\<close> are applied to a
  model of the client's cache, and \<open>update\<close> is a refinement of "show this pointer".
\<close>

section \<open>State\<close>

record cursor_update =
  hotspot :: qpoint
  cur_image :: qimage
  cacheId :: u32
  lastUsed :: ticks

datatype cursor_type = Hidden | SystemDefault | Image

datatype sysptr = SYSPTR_NULL | SYSPTR_DEFAULT

text \<open>The fields of a new-pointer PDU, with the values the code assigns to them.\<close>

record pointer_attr =
  xorBpp :: int
  cacheIndex :: u32
  hotSpotX :: int
  hotSpotY :: int
  ptr_width :: int
  ptr_height :: int
  lengthAndMask :: int
  lengthXorMask :: int
  xorMaskData :: "u8 list"

datatype pointer_pdu =
    PointerSystem sysptr
  | PointerCached u32
  | PointerNew pointer_attr
  | PointerLarge pointer_attr

record cursor =
  cursorType :: cursor_type
  lastUsedCursor :: "u32 option"
  cursorCache :: "(u32 \<times> cursor_update) list"
  cur_log :: "pointer_pdu list"

definition cursor_init :: cursor where
  "cursor_init = \<lparr>cursorType = SystemDefault, lastUsedCursor = None, cursorCache = [], cur_log = []\<rparr>"

definition cur_emit :: "pointer_pdu list \<Rightarrow> cursor \<Rightarrow> cursor" where
  "cur_emit xs c = c\<lparr>cur_log := cur_log c @ xs\<rparr>"

lemma cur_emit_fields [simp]:
  "cursorType (cur_emit xs c) = cursorType c"
  "lastUsedCursor (cur_emit xs c) = lastUsedCursor c"
  "cursorCache (cur_emit xs c) = cursorCache c"
  by (simp_all add: cur_emit_def)

section \<open>Operations\<close>

definition createXorMask :: "qimage \<Rightarrow> u8 list" where
  "createXorMask im = concat (rev (img_argb32 im))"

definition same_cursor :: "cursor_update \<Rightarrow> cursor_update \<Rightarrow> bool" where
  "same_cursor a b \<longleftrightarrow> hotspot a = hotspot b \<and> cur_image a = cur_image b"

definition setCursorType :: "cursor_type \<Rightarrow> cursor \<Rightarrow> cursor" where
  "setCursorType type c =
     (if cursorType c = type then c
      else
        let c1 = c\<lparr>cursorType := type\<rparr>
        in if type \<noteq> Image
           then cur_emit [PointerSystem (if type = Hidden then SYSPTR_NULL else SYSPTR_DEFAULT)]
                  (c1\<lparr>lastUsedCursor := None\<rparr>)
           else c1)"

definition pointer_attr_of :: "cursor_update \<Rightarrow> pointer_attr" where
  "pointer_attr_of new =
     \<lparr>xorBpp = 32, cacheIndex = cacheId new,
      hotSpotX = fst (hotspot new), hotSpotY = snd (hotspot new),
      ptr_width = img_width (cur_image new), ptr_height = img_height (cur_image new),
      lengthAndMask = 0, lengthXorMask = int (length (createXorMask (cur_image new))),
      xorMaskData = createXorMask (cur_image new)\<rparr>"

definition new_pointer_pdu :: "cursor_update \<Rightarrow> pointer_pdu" where
  "new_pointer_pdu new =
     (if img_width (cur_image new) < 96 \<and> img_height (cur_image new) < 96
      then PointerNew (pointer_attr_of new) else PointerLarge (pointer_attr_of new))"

text \<open>The slot for a new pointer, and the cache without the entry that has to make room for it.\<close>

definition choose_slot ::
  "((u32 \<times> cursor_update) list \<Rightarrow> (u32 \<times> cursor_update) list) \<Rightarrow> u32 \<Rightarrow>
   (u32 \<times> cursor_update) list \<Rightarrow> (u32 \<times> (u32 \<times> cursor_update) list) option" where
  "choose_slot order pointerCacheSize cache =
     (if int (length cache) \<ge> uint pointerCacheSize
      then case min_element_by (\<lambda>a b. lastUsed (snd a) < lastUsed (snd b)) (order cache) of
             None \<Rightarrow> None
           | Some (k, lru) \<Rightarrow> Some (cacheId lru, AList.delete k cache)
      else Some (of_nat (length cache), cache))"

definition show_cached :: "u32 \<Rightarrow> cursor_update \<Rightarrow> ticks \<Rightarrow> cursor \<Rightarrow> cursor" where
  "show_cached k e now c =
     cur_emit [PointerCached (cacheId e)]
       (c\<lparr>lastUsedCursor := Some k, cursorCache := AList.update k (e\<lparr>lastUsed := now\<rparr>) (cursorCache c)\<rparr>)"

definition show_new ::
  "((u32 \<times> cursor_update) list \<Rightarrow> (u32 \<times> cursor_update) list) \<Rightarrow> u32 \<Rightarrow> ticks \<Rightarrow>
   cursor_update \<Rightarrow> cursor \<Rightarrow> cursor option" where
  "show_new order pointerCacheSize now u c =
     (case choose_slot order pointerCacheSize (cursorCache c) of
        None \<Rightarrow> None
      | Some (slot, cache) \<Rightarrow>
          let new = \<lparr>hotspot = hotspot u, cur_image = cur_image u, cacheId = slot, lastUsed = now\<rparr>
          in Some (cur_emit [new_pointer_pdu new, PointerCached slot]
               (c\<lparr>cursorCache := AList.update slot new cache, lastUsedCursor := Some slot\<rparr>)))"

definition find_or_show ::
  "((u32 \<times> cursor_update) list \<Rightarrow> (u32 \<times> cursor_update) list) \<Rightarrow> u32 \<Rightarrow> ticks \<Rightarrow>
   cursor_update \<Rightarrow> cursor \<Rightarrow> cursor option" where
  "find_or_show order pointerCacheSize now u c =
     (case find (\<lambda>(k, e). same_cursor u e) (order (cursorCache c)) of
        Some (k, e) \<Rightarrow> Some (show_cached k e now c)
      | None \<Rightarrow> show_new order pointerCacheSize now u c)"

definition cursor_update_step ::
  "((u32 \<times> cursor_update) list \<Rightarrow> (u32 \<times> cursor_update) list) \<Rightarrow> u32 \<Rightarrow> conn_state \<Rightarrow> ticks \<Rightarrow>
   cursor_update \<Rightarrow> cursor \<Rightarrow> cursor option" where
  "cursor_update_step order pointerCacheSize session_state now u c =
     (if session_state \<noteq> Streaming then Some c
      else if qimage_isNull (cur_image u) then Some c
      else if img_width (cur_image u) > 384 \<or> img_height (cur_image u) > 384
      then Some (setCursorType SystemDefault c)
      else
        let c1 = setCursorType Image c
        in case lastUsedCursor c1 of
             None \<Rightarrow> find_or_show order pointerCacheSize now u c1
           | Some k \<Rightarrow>
               (case map_of (cursorCache c1) k of
                  None \<Rightarrow> None
                | Some e \<Rightarrow>
                    if same_cursor e u
                    then Some (c1\<lparr>cursorCache := AList.update k (e\<lparr>lastUsed := now\<rparr>) (cursorCache c1)\<rparr>)
                    else find_or_show order pointerCacheSize now u c1))"

section \<open>The client\<close>

datatype shown = ShowDefault | ShowNull | ShowPointer pointer_attr | ShowUnknown

record client_pointers =
  slots :: "u32 \<rightharpoonup> pointer_attr"
  shows_ptr :: shown

definition client_init :: client_pointers where
  "client_init = \<lparr>slots = Map.empty, shows_ptr = ShowDefault\<rparr>"

fun client_apply :: "pointer_pdu \<Rightarrow> client_pointers \<Rightarrow> client_pointers" where
  "client_apply (PointerSystem SYSPTR_NULL) p = p\<lparr>shows_ptr := ShowNull\<rparr>"
| "client_apply (PointerSystem SYSPTR_DEFAULT) p = p\<lparr>shows_ptr := ShowDefault\<rparr>"
| "client_apply (PointerNew a) p =
     p\<lparr>slots := (slots p)(cacheIndex a \<mapsto> a), shows_ptr := ShowPointer a\<rparr>"
| "client_apply (PointerLarge a) p =
     p\<lparr>slots := (slots p)(cacheIndex a \<mapsto> a), shows_ptr := ShowPointer a\<rparr>"
| "client_apply (PointerCached i) p =
     p\<lparr>shows_ptr := (case slots p i of None \<Rightarrow> ShowUnknown | Some a \<Rightarrow> ShowPointer a)\<rparr>"

definition client_of :: "cursor \<Rightarrow> client_pointers" where
  "client_of c = fold client_apply (cur_log c) client_init"

lemma client_of_emit: "client_of (cur_emit xs c) = fold client_apply xs (client_of c)"
  by (simp add: client_of_def cur_emit_def)

lemma client_of_upd [simp]:
  "client_of (c\<lparr>cursorType := t\<rparr>) = client_of c"
  "client_of (c\<lparr>lastUsedCursor := l\<rparr>) = client_of c"
  "client_of (c\<lparr>cursorCache := al\<rparr>) = client_of c"
  by (simp_all add: client_of_def)

section \<open>Invariant\<close>

text \<open>
  The entries sit in slots \<open>0, 1, \<dots>\<close> without a gap, each under its own \<open>cacheId\<close>, and
  no two of them are the same pointer.
\<close>

definition entries_ok :: "(u32 \<rightharpoonup> cursor_update) \<Rightarrow> bool" where
  "entries_ok m \<longleftrightarrow> (\<forall>k e. m k = Some e \<longrightarrow> cacheId e = k) \<and>
     (\<forall>k k' e e'. m k = Some e \<longrightarrow> m k' = Some e' \<longrightarrow> same_cursor e e' \<longrightarrow> k = k')"

definition cache_ok :: "(u32 \<times> cursor_update) list \<Rightarrow> bool" where
  "cache_ok al \<longleftrightarrow> distinct (map fst al) \<and> fst ` set al = of_nat ` {..<length al} \<and>
     length al < 2 ^ 32 \<and> entries_ok (map_of al)"

definition cursor_inv :: "cursor \<Rightarrow> bool" where
  "cursor_inv c \<longleftrightarrow> cache_ok (cursorCache c) \<and>
     (\<forall>k. lastUsedCursor c = Some k \<longrightarrow> k \<in> fst ` set (cursorCache c)) \<and>
     (cursorType c \<noteq> Image \<longrightarrow> lastUsedCursor c = None)"

lemma length_keys: "distinct (map fst al) \<Longrightarrow> length al = card (fst ` set al)"
  by (metis distinct_card length_map list.set_map)

lemma same_cursor_attr:
  "same_cursor a b \<Longrightarrow> cacheId a = cacheId b \<Longrightarrow> pointer_attr_of a = pointer_attr_of b"
  by (simp add: same_cursor_def pointer_attr_of_def)

lemma same_cursor_sym: "same_cursor a b \<longleftrightarrow> same_cursor b a"
  by (auto simp: same_cursor_def)

lemma same_cursor_touch [simp]:
  "same_cursor (e\<lparr>lastUsed := t\<rparr>) u = same_cursor e u"
  "same_cursor u (e\<lparr>lastUsed := t\<rparr>) = same_cursor u e"
  "pointer_attr_of (e\<lparr>lastUsed := t\<rparr>) = pointer_attr_of e"
  by (simp_all add: same_cursor_def pointer_attr_of_def)

lemma entries_ok_sub: "entries_ok m \<Longrightarrow> m' \<subseteq>\<^sub>m m \<Longrightarrow> entries_ok m'"
  unfolding entries_ok_def map_le_def by (metis domI)

lemma entries_ok_upd:
  assumes "entries_ok m" and "cacheId new = k"
    and "\<And>k' e. m k' = Some e \<Longrightarrow> k' \<noteq> k \<Longrightarrow> \<not> same_cursor new e"
  shows "entries_ok (m(k \<mapsto> new))"
  using assms unfolding entries_ok_def by (auto simp: same_cursor_sym)

lemma entries_ok_touch:
  assumes "entries_ok m" and "m k = Some e"
  shows "entries_ok (m(k \<mapsto> e\<lparr>lastUsed := now\<rparr>))"
proof (rule entries_ok_upd [OF assms(1)])
  show "cacheId (e\<lparr>lastUsed := now\<rparr>) = k" using assms by (simp add: entries_ok_def)
  show "\<not> same_cursor (e\<lparr>lastUsed := now\<rparr>) e'" if "m k' = Some e'" "k' \<noteq> k" for k' e'
    using assms that unfolding entries_ok_def same_cursor_touch by blast
qed

lemma length_update_in:
  "k \<in> fst ` set al \<Longrightarrow> length (AList.update k v al) = length al"
  by (induction al) auto

lemma length_update_new:
  "k \<notin> fst ` set al \<Longrightarrow> length (AList.update k v al) = Suc (length al)"
  by (induction al) auto

lemma cache_ok_touch:
  assumes "cache_ok al" and "map_of al k = Some e"
  shows "cache_ok (AList.update k (e\<lparr>lastUsed := now\<rparr>) al)"
proof -
  have k: "k \<in> fst ` set al" using assms(2) by (metis image_eqI fst_conv map_of_SomeD)
  show ?thesis
    using assms k
    unfolding cache_ok_def update_conv'
    by (simp add: length_update_in distinct_update dom_update insert_absorb entries_ok_touch)
qed

lemma delete_keys_set: "fst ` set (AList.delete k al) = fst ` set al - {k}"
  by (induction al) auto

lemma delete_length_in:
  assumes d: "distinct (map fst al)" and k: "k \<in> fst ` set al"
  shows "Suc (length (AList.delete k al)) = length al"
proof -
  have "length (AList.delete k al) = card (fst ` set al - {k})"
    using length_keys [OF distinct_delete [OF d]] by (simp add: delete_keys_set)
  then show ?thesis
    using length_keys [OF d] k card_Suc_Diff1 [of "fst ` set al" k] by simp
qed

text \<open>The slot is one the cache without the evicted entry does not use, below the cache size.\<close>

lemma choose_slot_ok:
  assumes inv: "cache_ok al" and order: "iteration_order order"
    and slot: "choose_slot order N al = Some (slot, al')"
  shows "distinct (map fst al')" and "slot \<notin> fst ` set al'"
    and "insert slot (fst ` set al') = of_nat ` {..<Suc (length al')}"
    and "Suc (length al') \<le> max (length al) (unat N)"
    and "map_of al' \<subseteq>\<^sub>m map_of al"
proof -
  have d: "distinct (map fst al)" and keys: "fst ` set al = of_nat ` {..<length al}"
    and len: "length al < 2 ^ 32"
    using inv by (auto simp: cache_ok_def)
  have "distinct (map fst al') \<and> slot \<notin> fst ` set al' \<and>
    insert slot (fst ` set al') = of_nat ` {..<Suc (length al')} \<and>
    Suc (length al') \<le> max (length al) (unat N) \<and>
    map_of al' \<subseteq>\<^sub>m map_of al"
  proof (cases "int (length al) \<ge> uint N")
    case True
    then obtain k lru where m: "(k, lru) \<in> set al" "slot = cacheId lru" "al' = AList.delete k al"
      using slot order iteration_order_set [OF order, of al]
      by (auto simp: choose_slot_def split: option.splits dest!: min_element_by_in)
    have k: "k \<in> fst ` set al" and id: "slot = k"
      using m inv d by (force, auto simp: cache_ok_def entries_ok_def dest: map_of_is_SomeI)
    have "insert slot (fst ` set al') = fst ` set al" "Suc (length al') = length al"
      using k id m(3) delete_length_in [OF d k] by (auto simp: delete_keys_set)
    then show ?thesis
      using keys id m(3) d
      by (simp add: distinct_delete delete_keys_set delete_conv' map_le_def)
  next
    case False
    then have s: "slot = of_nat (length al)" "al' = al" and lt: "int (length al) < uint N"
      using slot by (auto simp: choose_slot_def)
    have "slot \<notin> of_nat ` {..<length al}"
    proof
      assume "slot \<in> of_nat ` {..<length al}"
      then obtain n where n: "n < length al" "(of_nat (length al) :: u32) = of_nat n"
        using s by auto
      have "unat (of_nat (length al) :: u32) = length al" "unat (of_nat n :: u32) = n"
        using len n(1) by (simp_all add: unsigned_of_nat take_bit_nat_eq_self)
      then show False using n by (metis less_irrefl)
    qed
    then have "slot \<notin> fst ` set al'" by (simp add: s(2) keys)
    moreover have "Suc (length al') \<le> max (length al) (unat N)"
      using lt unfolding s(2) unat_eq_nat_uint by linarith
    moreover have "insert slot (fst ` set al') = of_nat ` {..<Suc (length al')}"
      unfolding s keys lessThan_Suc image_insert ..
    ultimately show ?thesis
      using d by (simp only: s(2) map_le_refl simp_thms)
  qed
  then show "distinct (map fst al')" and "slot \<notin> fst ` set al'"
    and "insert slot (fst ` set al') = of_nat ` {..<Suc (length al')}"
    and "Suc (length al') \<le> max (length al) (unat N)"
    and "map_of al' \<subseteq>\<^sub>m map_of al"
    by blast+
qed


lemma show_new_ok:
  assumes inv: "cursor_inv c" and img: "cursorType c = Image" and order: "iteration_order order"
    and new: "\<forall>(k, e)\<in>set (cursorCache c). \<not> same_cursor u e"
    and c': "show_new order N now u c = Some c'"
  shows "cursor_inv c'" and "cursorType c' = Image"
    and "length (cursorCache c') \<le> max (length (cursorCache c)) (unat N)"
proof -
  let ?al = "cursorCache c"
  obtain slot al' where s: "choose_slot order N ?al = Some (slot, al')"
    using c' by (auto simp: show_new_def split: option.splits)
  let ?new = "\<lparr>hotspot = hotspot u, cur_image = cur_image u, cacheId = slot, lastUsed = now\<rparr>"
  have ok: "cache_ok ?al" using inv by (simp add: cursor_inv_def)
  note slot = choose_slot_ok [OF ok order s]
  have cc: "c' = cur_emit [new_pointer_pdu ?new, PointerCached slot]
      (c\<lparr>cursorCache := AList.update slot ?new al', lastUsedCursor := Some slot\<rparr>)"
    using c' s by (simp add: show_new_def Let_def)
  have len: "length (AList.update slot ?new al') = Suc (length al')"
    using slot(2) by (rule length_update_new)
  have N: "unat N < 2 ^ 32" using unsigned_less [of N] by simp
  have "entries_ok ((map_of al')(slot \<mapsto> ?new))"
  proof (rule entries_ok_upd)
    show "entries_ok (map_of al')"
      using ok entries_ok_sub slot(5) by (auto simp: cache_ok_def)
    show "\<not> same_cursor ?new e" if "map_of al' k' = Some e" for k' e
    proof -
      have "map_of ?al k' = Some e" using slot(5) that by (metis domI map_le_def)
      then have "(k', e) \<in> set ?al" by (rule map_of_SomeD)
      then show ?thesis using new by (auto simp: same_cursor_def)
    qed
  qed simp
  moreover have "Suc (length al') < 2 ^ 32" using slot(4) ok N unfolding cache_ok_def by linarith
  ultimately have "cache_ok (AList.update slot ?new al')"
    unfolding cache_ok_def len dom_update update_conv'
    using slot(1,3) by (simp only: distinct_update simp_thms insert_is_Un [symmetric])
  then show "cursor_inv c'"
    using img by (simp add: cc cursor_inv_def cur_emit_def dom_update)
  show "cursorType c' = Image" using img by (simp add: cc cur_emit_def)
  show "length (cursorCache c') \<le> max (length ?al) (unat N)"
    using slot(4) by (simp add: cc cur_emit_def len)
qed

lemma choose_slot_total:
  assumes "0 < N" and "iteration_order order"
  shows "\<exists>r. choose_slot order N al = Some r"
proof -
  have "0 < uint N" using assms(1) by (simp add: word_less_def)
  moreover have "order al = [] \<longleftrightarrow> al = []"
    using iteration_order_set [OF assms(2), of al] by auto
  ultimately show ?thesis
    by (cases "int (length al) \<ge> uint N") (auto simp: choose_slot_def split: option.split)
qed


lemma show_cached_ok:
  assumes inv: "cursor_inv c" and img: "cursorType c = Image"
    and k: "map_of (cursorCache c) k = Some e"
  shows "cursor_inv (show_cached k e now c)" and "cursorType (show_cached k e now c) = Image"
    and "length (cursorCache (show_cached k e now c)) = length (cursorCache c)"
proof -
  have in_keys: "k \<in> fst ` set (cursorCache c)" using k by (metis image_eqI fst_conv map_of_SomeD)
  have "cache_ok (AList.update k (e\<lparr>lastUsed := now\<rparr>) (cursorCache c))"
    using inv k cache_ok_touch by (simp add: cursor_inv_def)
  then show "cursor_inv (show_cached k e now c)"
    using img by (simp add: cursor_inv_def show_cached_def cur_emit_def dom_update)
  show "cursorType (show_cached k e now c) = Image"
    using img by (simp add: show_cached_def cur_emit_def)
  show "length (cursorCache (show_cached k e now c)) = length (cursorCache c)"
    using in_keys by (simp add: show_cached_def cur_emit_def length_update_in)
qed

lemma setCursorType_ok:
  "cursor_inv c \<Longrightarrow> cursor_inv (setCursorType t c)"
  "cursorType (setCursorType t c) = t"
  "cursorCache (setCursorType t c) = cursorCache c"
  by (auto simp: setCursorType_def cursor_inv_def cur_emit_def Let_def)

text \<open>An entry \<open>std::find_if\<close> returns is one of the cache; none means there is none.\<close>

lemma find_order_Some:
  assumes "find P (order al) = Some (k, e)" and "iteration_order order" and "distinct (map fst al)"
  shows "map_of al k = Some e" and "P (k, e)"
proof -
  have "P (k, e)" "(k, e) \<in> set (order al)"
    using assms(1) by (auto simp: find_Some_iff)
  then show "map_of al k = Some e" and "P (k, e)"
    using assms(2,3) by (simp_all add: iteration_order_set)
qed

lemma find_order_None:
  "find P (order al) = None \<Longrightarrow> iteration_order order \<Longrightarrow> \<forall>x\<in>set al. \<not> P x"
  by (simp add: find_None_iff iteration_order_set)

section \<open>The specification: what the client shows\<close>

text \<open>
  A picture is what a pointer looks like on the client: its hot spot, its size and its pixels,
  bottom row first, as RDP wants them.
\<close>

type_synonym pixels = "qpoint \<times> int \<times> int \<times> u8 list"

datatype picture = NoPointer | DefaultPointer | Pixels pixels | Garbage

definition pixels_of_update :: "cursor_update \<Rightarrow> pixels" where
  "pixels_of_update u =
     (hotspot u, img_width (cur_image u), img_height (cur_image u), createXorMask (cur_image u))"

definition pixels_of_attr :: "pointer_attr \<Rightarrow> pixels" where
  "pixels_of_attr a = ((hotSpotX a, hotSpotY a), ptr_width a, ptr_height a, xorMaskData a)"

definition picture_of :: "shown \<Rightarrow> picture" where
  "picture_of sh = (case sh of ShowDefault \<Rightarrow> DefaultPointer | ShowNull \<Rightarrow> NoPointer
     | ShowPointer a \<Rightarrow> Pixels (pixels_of_attr a) | ShowUnknown \<Rightarrow> Garbage)"

datatype cursor_event =
    CursorUpdate
      (ev_order: "(u32 \<times> cursor_update) list \<Rightarrow> (u32 \<times> cursor_update) list")
      (ev_cacheSize: u32) (ev_state: conn_state) (ev_now: ticks) (ev_update: cursor_update)
  | SetCursorType cursor_type

fun cursor_step :: "cursor_event \<Rightarrow> cursor \<Rightarrow> cursor option" where
  "cursor_step (CursorUpdate order N st now u) c = cursor_update_step order N st now u c"
| "cursor_step (SetCursorType t) c = Some (setCursorType t c)"

fun picture_step :: "cursor_event \<Rightarrow> picture \<Rightarrow> picture" where
  "picture_step (CursorUpdate order N st now u) p =
     (if st \<noteq> Streaming \<or> qimage_isNull (cur_image u) then p
      else if img_width (cur_image u) > 384 \<or> img_height (cur_image u) > 384 then DefaultPointer
      else Pixels (pixels_of_update u))"
| "picture_step (SetCursorType t) p =
     (case t of Hidden \<Rightarrow> NoPointer | SystemDefault \<Rightarrow> DefaultPointer | Image \<Rightarrow> p)"

text \<open>The cache size the client announced is not zero: what \<open>onCapabilities\<close> makes sure of.\<close>

fun cursor_event_ok :: "cursor_event \<Rightarrow> bool" where
  "cursor_event_ok (CursorUpdate order N st now u) \<longleftrightarrow> iteration_order order \<and> 0 < N"
| "cursor_event_ok (SetCursorType t) \<longleftrightarrow> True"

text \<open>
  The client holds every entry of the server's cache under the same index, and shows what the
  server believes it shows.
\<close>

definition mirrored :: "cursor \<Rightarrow> client_pointers \<Rightarrow> bool" where
  "mirrored c p \<longleftrightarrow> (\<forall>k e. map_of (cursorCache c) k = Some e \<longrightarrow> slots p k = Some (pointer_attr_of e))"

definition showing :: "cursor \<Rightarrow> client_pointers \<Rightarrow> bool" where
  "showing c p \<longleftrightarrow> (case cursorType c of
       Hidden \<Rightarrow> shows_ptr p = ShowNull
     | SystemDefault \<Rightarrow> shows_ptr p = ShowDefault
     | Image \<Rightarrow> (\<forall>k e. lastUsedCursor c = Some k \<longrightarrow> map_of (cursorCache c) k = Some e \<longrightarrow>
                 shows_ptr p = ShowPointer (pointer_attr_of e)))"

definition client_rel :: "cursor \<Rightarrow> picture \<Rightarrow> bool" where
  "client_rel c pic \<longleftrightarrow> cursor_inv c \<and> mirrored c (client_of c) \<and> showing c (client_of c) \<and>
     picture_of (shows_ptr (client_of c)) = pic"

lemma pixels_of_attr_of [simp]: "pixels_of_attr (pointer_attr_of u) = pixels_of_update u"
  by (simp add: pixels_of_attr_def pointer_attr_of_def pixels_of_update_def)

lemma pixels_of_update_same: "same_cursor a b \<Longrightarrow> pixels_of_update a = pixels_of_update b"
  by (simp add: same_cursor_def pixels_of_update_def)

lemma new_pointer_pdu_apply:
  "client_apply (new_pointer_pdu u) p =
     p\<lparr>slots := (slots p)(cacheId u \<mapsto> pointer_attr_of u), shows_ptr := ShowPointer (pointer_attr_of u)\<rparr>"
  by (simp add: new_pointer_pdu_def pointer_attr_of_def)


lemma setCursorType_rel:
  assumes "client_rel c pic"
  shows "client_rel (setCursorType t c) (picture_step (SetCursorType t) pic)"
proof (cases "cursorType c = t")
  case True
  with assms show ?thesis
    by (cases t) (auto simp: setCursorType_def client_rel_def showing_def picture_of_def)
next
  case False
  have "cursor_inv (setCursorType t c)" and inv: "cursor_inv c"
    using assms by (simp_all add: client_rel_def setCursorType_ok)
  moreover have "lastUsedCursor c = None" if "t = Image"
    using inv False that by (simp add: cursor_inv_def)
  ultimately show ?thesis
    using assms False unfolding client_rel_def
    by (cases t)
       (simp_all add: setCursorType_def showing_def mirrored_def picture_of_def Let_def
         client_of_emit)
qed

lemma show_cached_rel:
  assumes rel: "client_rel c pic" and img: "cursorType c = Image"
    and k: "map_of (cursorCache c) k = Some e"
  shows "client_rel (show_cached k e now c) (Pixels (pixels_of_update e))"
proof -
  have inv: "cursor_inv c" and m: "mirrored c (client_of c)" using rel by (auto simp: client_rel_def)
  have id: "cacheId e = k" using inv k by (simp add: cursor_inv_def cache_ok_def entries_ok_def)
  have slot: "slots (client_of c) k = Some (pointer_attr_of e)" using m k by (simp add: mirrored_def)
  have cl: "client_of (show_cached k e now c) = (client_of c)\<lparr>shows_ptr := ShowPointer (pointer_attr_of e)\<rparr>"
    unfolding show_cached_def client_of_emit
    by (simp add: id slot)
  have cache: "map_of (cursorCache (show_cached k e now c)) =
      (map_of (cursorCache c))(k \<mapsto> e\<lparr>lastUsed := now\<rparr>)"
    by (simp add: show_cached_def cur_emit_def update_conv')
  have last: "lastUsedCursor (show_cached k e now c) = Some k"
    by (simp add: show_cached_def cur_emit_def)
  show ?thesis
    using show_cached_ok [OF inv img k, of now] m k last
    unfolding client_rel_def cl mirrored_def showing_def cache
    by (simp add: picture_of_def split: if_splits)
qed

lemma show_new_rel:
  assumes rel: "client_rel c pic" and img: "cursorType c = Image" and order: "iteration_order order"
    and new: "\<forall>(k, e)\<in>set (cursorCache c). \<not> same_cursor u e"
    and c': "show_new order N now u c = Some c'"
  shows "client_rel c' (Pixels (pixels_of_update u))"
proof -
  have inv: "cursor_inv c" and m: "mirrored c (client_of c)" using rel by (auto simp: client_rel_def)
  obtain slot al' where s: "choose_slot order N (cursorCache c) = Some (slot, al')"
    using c' by (auto simp: show_new_def split: option.splits)
  let ?new = "\<lparr>hotspot = hotspot u, cur_image = cur_image u, cacheId = slot, lastUsed = now\<rparr>"
  have cc: "c' = cur_emit [new_pointer_pdu ?new, PointerCached slot]
      (c\<lparr>cursorCache := AList.update slot ?new al', lastUsedCursor := Some slot\<rparr>)"
    using c' s by (simp add: show_new_def Let_def)
  have sub: "map_of al' \<subseteq>\<^sub>m map_of (cursorCache c)"
    using choose_slot_ok(5) [OF _ order s] inv by (simp add: cursor_inv_def)
  have cl: "client_of c' = (client_of c)\<lparr>slots := (slots (client_of c))(slot \<mapsto> pointer_attr_of ?new),
      shows_ptr := ShowPointer (pointer_attr_of ?new)\<rparr>"
    unfolding cc client_of_emit
    by (simp add: new_pointer_pdu_apply)
  have cache: "map_of (cursorCache c') = (map_of al')(slot \<mapsto> ?new)" "lastUsedCursor c' = Some slot"
    by (simp_all add: cc cur_emit_def update_conv')
  have "slots (client_of c) k = Some (pointer_attr_of e)" if "map_of al' k = Some e" for k e
    using sub that m by (auto simp: mirrored_def map_le_def dom_def)
  moreover have "pixels_of_update ?new = pixels_of_update u"
    by (simp add: pixels_of_update_def)
  ultimately show ?thesis
    using show_new_ok(1,2) [OF inv img order new c']
    unfolding client_rel_def cl mirrored_def showing_def cache
    by (simp add: picture_of_def)
qed

lemma find_or_show_rel:
  assumes rel: "client_rel c pic" and img: "cursorType c = Image"
    and order: "iteration_order order" and N: "0 < N"
  shows "\<exists>c'. find_or_show order N now u c = Some c' \<and> client_rel c' (Pixels (pixels_of_update u)) \<and>
    length (cursorCache c') \<le> max (length (cursorCache c)) (unat N) \<and> cursorType c' = Image"
proof (cases "find (\<lambda>(k, e). same_cursor u e) (order (cursorCache c))")
  case None
  note new = find_order_None [OF None order]
  have inv: "cursor_inv c" using rel by (simp add: client_rel_def)
  obtain c' where c': "show_new order N now u c = Some c'"
    using choose_slot_total [OF N order, of "cursorCache c"]
    by (auto simp: show_new_def Let_def)
  have "\<forall>(k, e)\<in>set (cursorCache c). \<not> same_cursor u e" using new by fastforce
  then show ?thesis
    using None c' show_new_rel [OF rel img order _ c'] show_new_ok [OF inv img order _ c']
    by (simp add: find_or_show_def)
next
  case (Some ke)
  obtain k e where ke: "ke = (k, e)" by (cases ke)
  have inv: "cursor_inv c" using rel by (simp add: client_rel_def)
  then have d: "distinct (map fst (cursorCache c))" by (simp add: cursor_inv_def cache_ok_def)
  have k: "map_of (cursorCache c) k = Some e" and same: "same_cursor u e"
    using find_order_Some [OF Some [unfolded ke] order d] by simp_all
  show ?thesis
    using show_cached_rel [OF rel img k] show_cached_ok [OF inv img k] Some ke
      pixels_of_update_same [OF same]
    by (simp add: find_or_show_def)
qed

section \<open>Every step of the cache is a step of the picture\<close>

lemma touch_rel:
  assumes rel: "client_rel c pic" and img: "cursorType c = Image"
    and last: "lastUsedCursor c = Some k" and k: "map_of (cursorCache c) k = Some e"
  shows "client_rel (c\<lparr>cursorCache := AList.update k (e\<lparr>lastUsed := now\<rparr>) (cursorCache c)\<rparr>)
    (Pixels (pixels_of_update e))"
proof -
  have inv: "cursor_inv c" and m: "mirrored c (client_of c)" and sh: "showing c (client_of c)"
    using rel by (auto simp: client_rel_def)
  have "cursor_inv (c\<lparr>cursorCache := AList.update k (e\<lparr>lastUsed := now\<rparr>) (cursorCache c)\<rparr>)"
    using inv k img cache_ok_touch by (auto simp: cursor_inv_def dom_update)
  moreover have "shows_ptr (client_of c) = ShowPointer (pointer_attr_of e)"
    using sh img last k by (simp add: showing_def)
  ultimately show ?thesis
    using m k img last
    by (simp add: client_rel_def mirrored_def showing_def update_conv' picture_of_def)
qed

lemma cursor_step_rel:
  assumes rel: "client_rel c pic" and ok: "cursor_event_ok e"
  shows "\<exists>c'. cursor_step e c = Some c' \<and> client_rel c' (picture_step e pic)"
proof (cases e)
  case (SetCursorType t)
  then show ?thesis using setCursorType_rel [OF rel, of t] by simp
next
  case e: (CursorUpdate order N st now u)
  let ?c = "setCursorType Image c"
  have order: "iteration_order order" and N: "0 < N" using ok e by simp_all
  have rel1: "client_rel ?c pic" and img: "cursorType ?c = Image"
    using setCursorType_rel [OF rel, of Image] by (simp_all add: setCursorType_ok)
  show ?thesis
  proof (cases "st \<noteq> Streaming \<or> qimage_isNull (cur_image u) \<or> img_width (cur_image u) > 384
      \<or> img_height (cur_image u) > 384")
    case True
    then show ?thesis
      using rel setCursorType_rel [OF rel, of SystemDefault] e by (auto simp: cursor_update_step_def)
  next
    case False
    note fos = find_or_show_rel [OF rel1 img order N, of now u]
    show ?thesis
    proof (cases "lastUsedCursor ?c")
      case None
      then show ?thesis using False fos e by (auto simp: cursor_update_step_def)
    next
      case (Some k)
      have "k \<in> fst ` set (cursorCache ?c)"
        using rel1 Some by (simp add: client_rel_def cursor_inv_def)
      then obtain x where x: "map_of (cursorCache ?c) k = Some x"
        by (metis map_of_eq_None_iff not_Some_eq)
      show ?thesis
      proof (cases "same_cursor x u")
        case True
        then show ?thesis
          using touch_rel [OF rel1 img Some x] pixels_of_update_same [OF True] Some x e False
          by (simp add: cursor_update_step_def Let_def)
      next
        case False': False
        then show ?thesis using False Some x fos e by (auto simp: cursor_update_step_def)
      qed
    qed
  qed
qed

interpretation pointer: simulation "lift_step cursor_step" picture_step cursor_event_ok
  "\<lambda>o' pic. returns_with (\<lambda>c. client_rel c pic) o'"
proof unfold_locales
  fix o' pic e
  assume "returns_with (\<lambda>c. client_rel c pic) o'" "cursor_event_ok e"
  then show "returns_with (\<lambda>c. client_rel c (picture_step e pic)) (lift_step cursor_step e o')"
    using cursor_step_rel by (auto simp: returns_with_iff)
qed

lemma client_rel_init: "client_rel cursor_init DefaultPointer"
  by (simp add: client_rel_def cursor_inv_def cache_ok_def entries_ok_def mirrored_def showing_def
      client_of_def cursor_init_def client_init_def picture_of_def)


definition dot :: "nat \<Rightarrow> cursor_update" where
  "dot n = \<lparr>hotspot = (0, 0),
     cur_image = \<lparr>img_format = 5, img_width = 1, img_height = 2,
       img_argb32 = [[of_nat n, 0, 0, 0], [1, 1, 1, of_nat n]]\<rparr>, cacheId = 0, lastUsed = 0\<rparr>"


section \<open>Bounds of the cache and of the PDUs\<close>

lemma concat_chunk:
  "\<forall>row\<in>set rows. length row = k \<Longrightarrow> y < length rows \<Longrightarrow>
   take k (drop (k * y) (concat rows)) = rows ! y"
proof (induction rows arbitrary: y)
  case (Cons r rows)
  then show ?case by (cases y) auto
qed simp

fun pdu_index :: "pointer_pdu \<Rightarrow> u32 option" where
  "pdu_index (PointerSystem t) = None"
| "pdu_index (PointerCached i) = Some i"
| "pdu_index (PointerNew a) = Some (cacheIndex a)"
| "pdu_index (PointerLarge a) = Some (cacheIndex a)"

definition index_below :: "u32 \<Rightarrow> pointer_pdu \<Rightarrow> bool" where
  "index_below N p \<longleftrightarrow> (case pdu_index p of None \<Rightarrow> True | Some i \<Rightarrow> i < N)"

text \<open>The client announces its cache size once, so all events carry the same one.\<close>

fun event_of_size :: "u32 \<Rightarrow> cursor_event \<Rightarrow> bool" where
  "event_of_size N (CursorUpdate order M st now u) \<longleftrightarrow> iteration_order order \<and> M = N"
| "event_of_size N (SetCursorType t) \<longleftrightarrow> True"

definition bounded_inv :: "u32 \<Rightarrow> cursor \<Rightarrow> bool" where
  "bounded_inv N c \<longleftrightarrow> cursor_inv c \<and> length (cursorCache c) \<le> unat N \<and>
     list_all (index_below N) (cur_log c)"

lemma slot_below:
  assumes "k \<in> of_nat ` {..<n}" and "n \<le> unat N"
  shows "k < (N :: u32)"
proof -
  obtain m where m: "k = of_nat m" "m < n" using assms(1) by auto
  have "unat (of_nat m :: u32) \<le> m" by (simp add: unsigned_of_nat)
  then show ?thesis using m assms(2) by (simp add: word_less_nat_alt)
qed

lemma cache_slot_below:
  assumes "cache_ok al" and "map_of al k = Some e" and "length al \<le> unat N"
  shows "k < N" and "cacheId e = k"
proof -
  have "k \<in> fst ` set al" using assms(2) by (metis image_eqI fst_conv map_of_SomeD)
  then show "k < N" using assms slot_below by (auto simp: cache_ok_def)
  show "cacheId e = k" using assms by (simp add: cache_ok_def entries_ok_def)
qed

lemma setCursorType_bounded: "bounded_inv N c \<Longrightarrow> bounded_inv N (setCursorType t c)"
  using setCursorType_ok(1)
  by (auto simp: bounded_inv_def setCursorType_def cur_emit_def Let_def index_below_def)

lemma find_or_show_bounded:
  assumes b: "bounded_inv N c" and img: "cursorType c = Image" and order: "iteration_order order"
    and c': "find_or_show order N now u c = Some c'"
  shows "bounded_inv N c'"
proof (cases "find (\<lambda>(k, e). same_cursor u e) (order (cursorCache c))")
  case None
  have inv: "cursor_inv c" and len: "length (cursorCache c) \<le> unat N"
    and log: "list_all (index_below N) (cur_log c)"
    using b by (simp_all add: bounded_inv_def)
  have new: "\<forall>(k, e)\<in>set (cursorCache c). \<not> same_cursor u e"
    using find_order_None [OF None order] by fastforce
  have sn: "show_new order N now u c = Some c'" using c' None by (simp add: find_or_show_def)
  note ok = show_new_ok [OF inv img order new sn]
  obtain slot al' where s: "choose_slot order N (cursorCache c) = Some (slot, al')"
    using sn by (auto simp: show_new_def split: option.splits)
  note sl = choose_slot_ok [OF _ order s]
  have co: "cache_ok (cursorCache c)" using inv by (simp add: cursor_inv_def)
  have "slot \<in> of_nat ` {..<Suc (length al')}" using sl(3) [OF co] by blast
  moreover have "Suc (length al') \<le> unat N" using sl(4) [OF co] len by simp
  ultimately have "slot < N" by (rule slot_below)
  moreover have "cur_log c' = cur_log c @
      [new_pointer_pdu \<lparr>hotspot = hotspot u, cur_image = cur_image u, cacheId = slot, lastUsed = now\<rparr>,
       PointerCached slot]"
    using sn s by (auto simp: show_new_def Let_def cur_emit_def)
  ultimately show ?thesis
    using ok len log
    by (simp add: bounded_inv_def index_below_def new_pointer_pdu_def pointer_attr_of_def)
next
  case (Some ke)
  obtain k e where ke: "ke = (k, e)" by (cases ke)
  have inv: "cursor_inv c" and len: "length (cursorCache c) \<le> unat N"
    and log: "list_all (index_below N) (cur_log c)"
    using b by (simp_all add: bounded_inv_def)
  then have co: "cache_ok (cursorCache c)" by (simp add: cursor_inv_def)
  then have k: "map_of (cursorCache c) k = Some e"
    using find_order_Some(1) [OF Some [unfolded ke] order] by (simp add: cache_ok_def)
  show ?thesis
    using show_cached_ok [OF inv img k, of now] cache_slot_below [OF co k len] c' Some ke len log
    by (auto simp: bounded_inv_def find_or_show_def show_cached_def cur_emit_def index_below_def)
qed

lemma cursor_step_bounded:
  assumes b: "bounded_inv N c" and ok: "event_of_size N e" and s: "cursor_step e c = Some c'"
  shows "bounded_inv N c'"
proof (cases e)
  case (SetCursorType t)
  then show ?thesis using setCursorType_bounded [OF b, of t] s by auto
next
  case e: (CursorUpdate order M st now u)
  let ?c = "setCursorType Image c"
  have order: "iteration_order order" and M: "M = N" using ok e by simp_all
  have b1: "bounded_inv N ?c" and img: "cursorType ?c = Image"
    by (simp_all add: setCursorType_bounded [OF b] setCursorType_ok)
  have fos: "bounded_inv N x" if "find_or_show order N now u ?c = Some x" for x
    using find_or_show_bounded [OF b1 img order that] .
  have touch: "bounded_inv N (?c\<lparr>cursorCache := AList.update k (x\<lparr>lastUsed := now\<rparr>) (cursorCache ?c)\<rparr>)"
    if k: "map_of (cursorCache ?c) k = Some x" for k x
  proof -
    have "k \<in> fst ` set (cursorCache ?c)" using k by (metis image_eqI fst_conv map_of_SomeD)
    then show ?thesis
      using b1 img k cache_ok_touch
      by (auto simp: bounded_inv_def cursor_inv_def dom_update length_update_in)
  qed
  have s': "cursor_update_step order N st now u c = Some c'" using s e M by simp
  show ?thesis
    using s' b fos touch setCursorType_bounded [OF b, of SystemDefault]
    unfolding cursor_update_step_def Let_def
    by (auto split: if_splits option.splits simp del: setCursorType_ok)
qed

interpretation bounded: machine "lift_step cursor_step" "Some cursor_init"
  "\<lambda>e. 0 < N \<and> event_of_size N e"
  "\<lambda>o'. returns_with (\<lambda>c. (\<exists>p. client_rel c p) \<and> bounded_inv N c) o'" for N
proof unfold_locales
  show "returns_with (\<lambda>c. (\<exists>p. client_rel c p) \<and> bounded_inv N c) (Some cursor_init)"
    using client_rel_init
    by (auto simp: bounded_inv_def cursor_init_def client_rel_def)
next
  fix o' e
  assume *: "returns_with (\<lambda>c. (\<exists>p. client_rel c p) \<and> bounded_inv N c) o'"
    "0 < N \<and> event_of_size N e"
  then have "cursor_event_ok e" by (cases e) auto
  then show "returns_with (\<lambda>c. (\<exists>p. client_rel c p) \<and> bounded_inv N c) (lift_step cursor_step e o')"
    using * cursor_step_rel cursor_step_bounded by (fastforce simp: returns_with_iff)
qed

text \<open>
C32. The server never holds more pointers than the client announced room for, keeps them in the
slots \<open>0, 1, \<dots>\<close> without a gap, never holds the same pointer twice, and never names a slot
at or above the announced size in a PDU.
\<close>

theorem pointer_cache_bounded:
  assumes "0 < N" and "list_all (event_of_size N) es"
  shows "\<exists>c. fold (lift_step cursor_step) es (Some cursor_init) = Some c \<and>
    length (cursorCache c) \<le> unat N \<and>
    fst ` set (cursorCache c) = of_nat ` {..<length (cursorCache c)} \<and>
    (\<forall>(k, a)\<in>set (cursorCache c). \<forall>(l, b)\<in>set (cursorCache c). same_cursor a b \<longrightarrow> k = l) \<and>
    list_all (index_below N) (cur_log c)"
proof -
  have "list_all (\<lambda>e. 0 < N \<and> event_of_size N e) es" using assms by (simp add: list_all_iff)
  then obtain c where c: "fold (lift_step cursor_step) es (Some cursor_init) = Some c"
    and b: "bounded_inv N c"
    using bounded.inv_reach [of N es] by (auto simp: returns_with_iff)
  then have "cache_ok (cursorCache c)" by (simp add: bounded_inv_def cursor_inv_def)
  then have "\<forall>(k, a)\<in>set (cursorCache c). \<forall>(l, b)\<in>set (cursorCache c). same_cursor a b \<longrightarrow> k = l"
    and "fst ` set (cursorCache c) = of_nat ` {..<length (cursorCache c)}"
    by (auto simp: cache_ok_def entries_ok_def)
  then show ?thesis using b c by (auto simp: bounded_inv_def)
qed

theorem pointer_cache_bounded_witness:
  "\<exists>c. fold (lift_step cursor_step)
     (map (\<lambda>n. CursorUpdate rev 2 Streaming (int n) (dot n)) [1, 2, 3, 1]) (Some cursor_init) = Some c \<and>
     length (cursorCache c) \<le> 2"
  using pointer_cache_bounded
    [of 2 "map (\<lambda>n. CursorUpdate rev 2 Streaming (int n) (dot n)) [1, 2, 3, 1]"]
  by (auto simp: iteration_order_id)

text \<open>
The XOR mask of a pointer PDU is the image bottom row first: row \<open>y\<close> of the mask is scan
line \<open>height - 1 - y\<close>. Its length is four bytes per pixel, which for a pointer of the small
PDU (below 96 by 96) fits the 16-bit length field of that PDU, and for the large one (at most 384 by
384) stays below 600 kB; the PDU says its true length and size.
\<close>

theorem xor_mask_rows_and_size:
  assumes wf: "qimage_wf (cur_image u)" and null: "\<not> qimage_isNull (cur_image u)"
    and w: "img_width (cur_image u) \<le> 384" and h: "img_height (cur_image u) \<le> 384"
    and y: "y < nat (img_height (cur_image u))"
  shows "take (nat (4 * img_width (cur_image u)))
        (drop (nat (4 * img_width (cur_image u)) * y) (createXorMask (cur_image u))) =
      img_argb32 (cur_image u) ! (nat (img_height (cur_image u)) - 1 - y) \<and>
    (case new_pointer_pdu u of
       PointerNew a \<Rightarrow> lengthXorMask a = 4 * ptr_width a * ptr_height a \<and> lengthXorMask a < 2 ^ 16 \<and>
         lengthXorMask a = int (length (xorMaskData a))
     | PointerLarge a \<Rightarrow> lengthXorMask a = 4 * ptr_width a * ptr_height a \<and> lengthXorMask a \<le> 589824 \<and>
         lengthXorMask a = int (length (xorMaskData a))
     | _ \<Rightarrow> False)"
proof -
  let ?im = "cur_image u" and ?k = "nat (4 * img_width (cur_image u))"
  have pos: "0 < img_width ?im" "0 < img_height ?im" using null by (auto simp: qimage_isNull_def)
  have rows: "\<forall>row\<in>set (rev (img_argb32 ?im)). length row = ?k"
    and n: "length (img_argb32 ?im) = nat (img_height ?im)"
    using wf pos by (auto simp: qimage_wf_def list_all_iff)
  have "take ?k (drop (?k * y) (concat (rev (img_argb32 ?im)))) = rev (img_argb32 ?im) ! y"
    using concat_chunk [OF rows] y n by simp
  then have 1: "take ?k (drop (?k * y) (createXorMask ?im)) =
      img_argb32 ?im ! (nat (img_height ?im) - 1 - y)"
    using y n by (simp add: createXorMask_def rev_nth)
  have len: "int (length (createXorMask ?im)) = 4 * img_width ?im * img_height ?im"
    using wf pos concat_rev_length [of "4 * img_width ?im" "img_argb32 ?im"]
    by (simp add: qimage_wf_def createXorMask_def)
  have small: "4 * img_width ?im * img_height ?im < 2 ^ 16"
    if "img_width ?im < 96" "img_height ?im < 96"
    using mult_mono [of "img_width ?im" 95 "img_height ?im" 95] that pos
    by (simp add: algebra_simps)
  have large: "4 * img_width ?im * img_height ?im \<le> 589824"
    using mult_mono [of "img_width ?im" 384 "img_height ?im" 384] w h pos
    by (simp add: algebra_simps)
  show ?thesis
    using 1 small large len by (simp add: new_pointer_pdu_def pointer_attr_of_def)
qed

theorem xor_mask_rows_and_size_witness:
  "take 4 (drop (4 * 1) (createXorMask (cur_image (dot 7)))) = [7, 0, 0, 0]"
  using xor_mask_rows_and_size [of "dot 7" 1]
  by (simp add: dot_def qimage_wf_def qimage_isNull_def)

text \<open>
When the cache is full, the entry that makes room is one that was shown least recently, the new
pointer takes its slot, and every other entry is kept as it was.
\<close>

theorem full_cache_evicts_least_recent:
  assumes inv: "cursor_inv c" and order: "iteration_order order" and N: "0 < N"
    and full: "uint N \<le> int (length (cursorCache c))"
    and c': "show_new order N now u c = Some c'"
  shows "\<exists>slot lru. map_of (cursorCache c) slot = Some lru \<and>
    (\<forall>(k, e)\<in>set (cursorCache c). lastUsed lru \<le> lastUsed e) \<and>
    map_of (cursorCache c') = (map_of (cursorCache c))
      (slot \<mapsto> \<lparr>hotspot = hotspot u, cur_image = cur_image u, cacheId = slot, lastUsed = now\<rparr>) \<and>
    lastUsedCursor c' = Some slot"
proof -
  obtain k lru where m: "min_element_by (\<lambda>a b. lastUsed (snd a) < lastUsed (snd b))
      (order (cursorCache c)) = Some (k, lru)"
    using c' full by (auto simp: show_new_def choose_slot_def split: option.splits)
  have "(k, lru) \<in> set (cursorCache c)"
    using min_element_by_in [OF m] order by (simp add: iteration_order_set)
  then have k: "map_of (cursorCache c) k = Some lru" and id: "cacheId lru = k"
    using inv by (auto simp: cursor_inv_def cache_ok_def entries_ok_def)
  have least: "\<forall>(i, e)\<in>set (cursorCache c). lastUsed lru \<le> lastUsed e"
    using min_element_by_key [OF m] order by (fastforce simp: iteration_order_set)
  show ?thesis
    using k id least m c' full
    by (intro exI [of _ k] exI [of _ lru])
       (auto simp: show_new_def choose_slot_def Let_def update_conv' delete_conv')
qed

definition one_entry :: cursor where
  "one_entry = cursor_init\<lparr>cursorType := Image, cursorCache := [(0, (dot 3)\<lparr>lastUsed := 5\<rparr>)],
     lastUsedCursor := Some 0\<rparr>"

theorem full_cache_evicts_least_recent_witness:
  "\<exists>c' slot. show_new rev 1 9 (dot 4) one_entry = Some c' \<and>
     map_of (cursorCache c') = [slot \<mapsto> (dot 4)\<lparr>cacheId := slot, lastUsed := 9\<rparr>]"
proof -
  have inv: "cursor_inv one_entry"
    by (auto simp: one_entry_def cursor_inv_def cache_ok_def entries_ok_def cursor_init_def dot_def
        lessThan_Suc)
  obtain c' where c': "show_new rev 1 9 (dot 4) one_entry = Some c'"
    by (simp add: show_new_def choose_slot_def one_entry_def Let_def)
  then show ?thesis
    using full_cache_evicts_least_recent [OF inv iteration_order_id(2) _ _ c']
    by (auto simp: one_entry_def dot_def split: if_splits)
qed

end
