(* ===== verification/AbstractSession.thy ===== *)
theory AbstractSession
  imports Server
begin

text \<open>
  What the portal session and the Plasma session share, \<open>src/AbstractSession.cpp\<close>: the monitor they
  are to show, the PipeWire stream they found, and the system clipboard. Two interfaces are stated
  here: the owner of a file descriptor, which this class is, and the session as its user sees it, which
  the two subclasses provide.
\<close>

section \<open>State\<close>

text \<open>\<open>None\<close> as MIME data is a null pointer; text is present or not.\<close>

datatype session_out =
    CloseFd int
  | StartedSignal
  | ErrorSignal
  | ClipboardDataChanged "qstring option"
  | SetSystemClipboard "qstring option"
  | ClearSystemClipboard

record session =
  s_activeStream :: "int option"
  s_virtualMonitor :: "virtual_monitor option"
  s_started :: bool
  s_size :: qsize
  s_logicalSize :: qsize
  s_nodeId :: u32
  s_pipeWireFd :: int
  s_objectSerial :: u64
  s_log :: "session_out list"

definition session_init :: session where
  "session_init = \<lparr>s_activeStream = None, s_virtualMonitor = None, s_started = False,
     s_size = qsize_default, s_logicalSize = qsize_default, s_nodeId = 0, s_pipeWireFd = - 1,
     s_objectSerial = - 1, s_log = []\<rparr>"

definition s_emit :: "session_out list \<Rightarrow> session \<Rightarrow> session" where
  "s_emit xs s = s\<lparr>s_log := s_log s @ xs\<rparr>"

section \<open>Operations\<close>

text \<open>
  The slot on the system clipboard. \<open>is_clipboard\<close>: the change is of the clipboard, not of the
  selection; \<open>owned\<close>: this program put the data there; \<open>mime\<close>: the data, with its text if any.
\<close>

definition onSystemClipboardChanged :: "bool \<Rightarrow> bool \<Rightarrow> qstring option option \<Rightarrow> session \<Rightarrow> session" where
  "onSystemClipboardChanged is_clipboard owned mime s =
     (if \<not> is_clipboard then s
      else if owned then s
      else case mime of
             None \<Rightarrow> s
           | Some data \<Rightarrow>
               let txt = (case data of Some t \<Rightarrow> t | None \<Rightarrow> [])
               in s_emit [ClipboardDataChanged (if txt \<noteq> [] then Some txt else None)] s)"

definition setClipboardData :: "qstring option option \<Rightarrow> session \<Rightarrow> session" where
  "setClipboardData data s =
     (case data of Some d \<Rightarrow> s_emit [SetSystemClipboard d] s | None \<Rightarrow> s_emit [ClearSystemClipboard] s)"

text \<open>The two setters assert that the other choice was not made: \<open>None\<close> is a failed assertion.\<close>

definition setActiveStream :: "int \<Rightarrow> session \<Rightarrow> session option" where
  "setActiveStream strm s =
     (if s_virtualMonitor s \<noteq> None then None else Some (s\<lparr>s_activeStream := Some strm\<rparr>))"

definition setVirtualMonitor :: "virtual_monitor \<Rightarrow> session \<Rightarrow> session option" where
  "setVirtualMonitor vm s =
     (if s_activeStream s \<noteq> None then None else Some (s\<lparr>s_virtualMonitor := Some vm\<rparr>))"

definition session_setSize :: "qsize \<Rightarrow> session \<Rightarrow> session" where
  "session_setSize sz s = s\<lparr>s_size := sz\<rparr>"

definition setLogicalSize :: "qsize \<Rightarrow> session \<Rightarrow> session" where
  "setLogicalSize sz s = s\<lparr>s_logicalSize := sz\<rparr>"

definition takePipeWireFd :: "session \<Rightarrow> int \<times> session" where
  "takePipeWireFd s = (s_pipeWireFd s, s\<lparr>s_pipeWireFd := - 1\<rparr>)"

definition setNodeId :: "u32 \<Rightarrow> session \<Rightarrow> session" where
  "setNodeId n s = s\<lparr>s_nodeId := n\<rparr>"

definition setPipeWireFd :: "int \<Rightarrow> session \<Rightarrow> session" where
  "setPipeWireFd fd s =
     (let s1 = (if s_pipeWireFd s \<ge> 0 then s_emit [CloseFd (s_pipeWireFd s)] s else s)
      in s1\<lparr>s_pipeWireFd := fd\<rparr>)"

definition setStarted :: "bool \<Rightarrow> session \<Rightarrow> session" where
  "setStarted b s = (let s1 = s\<lparr>s_started := b\<rparr> in if b then s_emit [StartedSignal] s1 else s1)"

definition setObjectSerial :: "u64 \<Rightarrow> session \<Rightarrow> session" where
  "setObjectSerial serial s = s\<lparr>s_objectSerial := serial\<rparr>"

definition session_destroy :: "session \<Rightarrow> session" where
  "session_destroy s = (if s_pipeWireFd s \<ge> 0 then s_emit [CloseFd (s_pipeWireFd s)] s else s)"

lemma s_emit_fields [simp]:
  "s_activeStream (s_emit xs s) = s_activeStream s" "s_virtualMonitor (s_emit xs s) = s_virtualMonitor s"
  "s_started (s_emit xs s) = s_started s" "s_pipeWireFd (s_emit xs s) = s_pipeWireFd s"
  "s_log (s_emit xs s) = s_log s @ xs" "s_nodeId (s_emit xs s) = s_nodeId s"
  "s_size (s_emit xs s) = s_size s"
  by (simp_all add: s_emit_def)

section \<open>Who owns a file descriptor\<close>

text \<open>
  An owner takes descriptors in, gives the one it holds away, and is destroyed in the end. The run of
  an owner records what came in and what was given away.
\<close>

datatype fd_event = PutFd int | TakeFd

fun own_step ::
  "(int \<Rightarrow> 's \<Rightarrow> 's) \<Rightarrow> ('s \<Rightarrow> int \<times> 's) \<Rightarrow> fd_event \<Rightarrow> 's \<times> int list \<times> int list \<Rightarrow> 's \<times> int list \<times> int list" where
  "own_step put take_fd (PutFd fd) (s, came, went) = (put fd s, came @ [fd], went)"
| "own_step put take_fd TakeFd (s, came, went) =
     (let (fd, s') = take_fd s in (s', came, if fd \<ge> 0 then went @ [fd] else went))"

fun valid_fd :: "fd_event \<Rightarrow> bool" where
  "valid_fd (PutFd fd) = (0 \<le> fd)"
| "valid_fd TakeFd = True"

locale fd_owner =
  fixes put :: "int \<Rightarrow> 's \<Rightarrow> 's"
    and take_fd :: "'s \<Rightarrow> int \<times> 's"
    and finish :: "'s \<Rightarrow> 's"
    and held :: "'s \<Rightarrow> int list"
    and closed_fds :: "'s \<Rightarrow> int list"
  assumes held_put: "0 \<le> fd \<Longrightarrow> held (put fd s) = [fd]"
    and closed_put: "closed_fds (put fd s) = closed_fds s @ held s"
    and take_gives: "held s = (if fst (take_fd s) \<ge> 0 then [fst (take_fd s)] else [])"
    and held_take: "held (snd (take_fd s)) = []"
    and closed_take: "closed_fds (snd (take_fd s)) = closed_fds s"
    and closed_finish: "closed_fds (finish s) = closed_fds s @ held s"
begin

lemma accounted_run:
  assumes "fold (own_step put take_fd) es (s, came, went) = (s', came', went')"
    and "list_all valid_fd es"
    and "mset came = mset (closed_fds s) + mset went + mset (held s)"
  shows "mset came' = mset (closed_fds s') + mset went' + mset (held s')"
  using assms
proof (induction es arbitrary: s came went)
  case (Cons e es)
  show ?case
  proof (cases e)
    case (PutFd fd)
    show ?thesis
      by (rule Cons.IH [of "put fd s" "came @ [fd]" went])
        (use PutFd Cons.prems in \<open>auto simp: held_put closed_put\<close>)
  next
    case TakeFd
    obtain fd s1 where t: "take_fd s = (fd, s1)" by (cases "take_fd s")
    then have "held s1 = []" "closed_fds s1 = closed_fds s" "held s = (if fd \<ge> 0 then [fd] else [])"
      using held_take [of s] closed_take [of s] take_gives [of s] by simp_all
    then show ?thesis
      by (intro Cons.IH [of s1 came "if fd \<ge> 0 then went @ [fd] else went"])
        (use TakeFd t Cons.prems in \<open>auto split: if_splits\<close>)
  qed
qed simp

text \<open>In the end nothing is held: every descriptor was closed or given away, exactly once.\<close>

lemma accounted_end:
  assumes "fold (own_step put take_fd) es (s, [], []) = (s', came, went)"
    and "list_all valid_fd es" and "closed_fds s = []" and "held s = []"
  shows "mset came = mset (closed_fds (finish s')) + mset went"
  using accounted_run [OF assms(1,2)] assms(3,4) by (simp add: closed_finish)

end

text \<open>The session as the owner of the PipeWire descriptor.\<close>

definition held_fd :: "session \<Rightarrow> int list" where
  "held_fd s = (if s_pipeWireFd s \<ge> 0 then [s_pipeWireFd s] else [])"

fun closed_by :: "session_out list \<Rightarrow> int list" where
  "closed_by [] = []"
| "closed_by (CloseFd fd # xs) = fd # closed_by xs"
| "closed_by (_ # xs) = closed_by xs"

lemma closed_by_append [simp]: "closed_by (xs @ ys) = closed_by xs @ closed_by ys"
  by (induction xs rule: closed_by.induct) simp_all

interpretation fds: fd_owner setPipeWireFd takePipeWireFd session_destroy held_fd "\<lambda>s. closed_by (s_log s)"
  by unfold_locales
    (simp_all add: held_fd_def setPipeWireFd_def takePipeWireFd_def session_destroy_def Let_def)

text \<open>
C18. No file descriptor is lost, and none is closed twice: whatever descriptors are handed to a session
and whenever its user takes the current one, by the time the session is destroyed each of them was
either closed by the session, once, or taken by the user, once.
\<close>

theorem descriptors_accounted_for:
  assumes "list_all valid_fd es"
    and "fold (own_step setPipeWireFd takePipeWireFd) es (session_init, [], []) = (s, came, went)"
  shows "mset came = mset (closed_by (s_log (session_destroy s))) + mset went"
  by (rule fds.accounted_end [OF assms(2,1)]) (simp_all add: session_init_def held_fd_def)

theorem descriptors_accounted_for_witness:
  "\<exists>s. fold (own_step setPipeWireFd takePipeWireFd) [PutFd 5, PutFd 7, TakeFd, TakeFd, PutFd 9] (session_init, [], []) =
     (s, [5, 7, 9], [7]) \<and>
   mset [5, 7, 9] = mset (closed_by (s_log (session_destroy s))) + mset [7]"
proof -
  obtain s where s: "fold (own_step setPipeWireFd takePipeWireFd) [PutFd 5, PutFd 7, TakeFd, TakeFd, PutFd 9]
      (session_init, [], []) = (s, [5, 7, 9], [7])"
    by (simp add: setPipeWireFd_def takePipeWireFd_def session_init_def Let_def)
  have "list_all valid_fd [PutFd 5, PutFd 7, TakeFd, TakeFd, PutFd 9]" by simp
  from descriptors_accounted_for [OF this s] s show ?thesis by blast
qed

section \<open>A session as its user sees it\<close>

text \<open>
  A backend is a machine with a session inside. Its user relies on this: the session announces its
  start exactly when it is started, stays started, and hands no input on before that.
\<close>

locale session_backend = machine step start ok inv
  for step :: "'e \<Rightarrow> 's \<Rightarrow> 's" and start ok inv +
  fixes base :: "'s \<Rightarrow> session"
    and injected :: "'s \<Rightarrow> 'i list"
  assumes announced: "inv s \<Longrightarrow> StartedSignal \<in> set (s_log (base s)) \<longleftrightarrow> s_started (base s)"
    and stays_started: "inv s \<Longrightarrow> s_started (base s) \<Longrightarrow> s_started (base (step e s))"
    and no_early_input: "inv s \<Longrightarrow> injected s \<noteq> [] \<Longrightarrow> s_started (base s)"
begin

lemma started_run:
  "inv s \<Longrightarrow> list_all ok es \<Longrightarrow> s_started (base s) \<Longrightarrow> s_started (base (fold step es s))"
  by (induction es arbitrary: s) (auto intro: inv_step stays_started)

lemma quiet_before_start:
  assumes "list_all ok es" and "StartedSignal \<notin> set (s_log (base (fold step es start)))"
  shows "injected (fold step es start) = []"
  using assms announced no_early_input inv_reach by blast

lemma quiet_prefix:
  assumes "list_all ok (es @ es')" and "StartedSignal \<notin> set (s_log (base (fold step (es @ es') start)))"
  shows "injected (fold step es start) = [] \<and> \<not> s_started (base (fold step es start))"
proof -
  have ok: "list_all ok es" "list_all ok es'" using assms(1) by simp_all
  have "\<not> s_started (base (fold step es start))"
    using assms(2) started_run [OF inv_reach [OF ok(1)] ok(2)] announced [OF inv_reach [OF assms(1)]]
    by auto
  then show ?thesis using no_early_input inv_reach [OF ok(1)] by blast
qed

end

section \<open>Setting up and keeping a session\<close>

text \<open>Which monitor the session is to show: the user calls at most one of the two setters.\<close>

datatype monitor_choice = WholeWorkspace | TheMonitor int | AVirtualMonitor virtual_monitor

definition choose_monitor :: "monitor_choice \<Rightarrow> session \<Rightarrow> session option" where
  "choose_monitor m s =
     (case m of
        WholeWorkspace \<Rightarrow> Some s
      | TheMonitor i \<Rightarrow> setActiveStream i s
      | AVirtualMonitor vm \<Rightarrow> setVirtualMonitor vm s)"

text \<open>A session is started exactly when it has announced it, and shows one thing.\<close>

definition base_good :: "session \<Rightarrow> bool" where
  "base_good s \<longleftrightarrow> (StartedSignal \<in> set (s_log s) \<longleftrightarrow> s_started s) \<and>
     (s_activeStream s = None \<or> s_virtualMonitor s = None)"

text \<open>The session is unchanged for this purpose, or it has become started.\<close>

definition base_step :: "session \<Rightarrow> session \<Rightarrow> bool" where
  "base_step s s' \<longleftrightarrow> base_good s \<longrightarrow> (base_good s' \<and> (s_started s \<longrightarrow> s_started s'))"

lemma base_step_refl [simp]: "base_step s s"
  by (simp add: base_step_def)

lemma base_step_trans: "base_step a b \<Longrightarrow> base_step b c \<Longrightarrow> base_step a c"
  by (auto simp: base_step_def)

lemma base_step_emit: "StartedSignal \<notin> set xs \<Longrightarrow> base_step s (s_emit xs s)"
  by (auto simp: base_step_def base_good_def)

lemma base_step_ops [simp]:
  "base_step s (session_setSize sz s)" "base_step s (setLogicalSize sz s)" "base_step s (setNodeId n s)"
  "base_step s (setObjectSerial w s)" "base_step s (snd (takePipeWireFd s))" "base_step s (setStarted True s)"
  by (auto simp: base_step_def base_good_def session_setSize_def setLogicalSize_def setNodeId_def
      setObjectSerial_def takePipeWireFd_def setStarted_def s_emit_def)

lemma base_step_fd [simp]: "base_step s (setPipeWireFd fd s)"
  by (auto simp: base_step_def base_good_def setPipeWireFd_def s_emit_def Let_def)

lemma base_step_clipboard [simp]:
  "base_step s (onSystemClipboardChanged a b d s)" "base_step s (setClipboardData d s)"
  by (auto simp: onSystemClipboardChanged_def setClipboardData_def Let_def intro: base_step_emit split: option.split)

lemma base_step_active: "s_activeStream s \<noteq> None \<Longrightarrow> setActiveStream i s = Some s' \<Longrightarrow> base_step s s'"
  by (auto simp: setActiveStream_def base_step_def base_good_def split: if_splits)

end
