(* ===== verification/EiConnection.thy ===== *)
theory EiConnection
  imports InputHandler Server Doubles
begin

text \<open>
  Input on its way to the compositor, \<open>src/EiConnection.cpp\<close>: the devices libei announced, and
  \<open>sendEvent\<close>, which turns the input handler's events into calls on them. A device is what libei
  says of it; the calls are a log. \<open>None\<close> is a null pointer that is followed.
\<close>

section \<open>State\<close>

datatype capability = CapPointerAbsolute | CapButton | CapScroll | CapKeyboard | CapText

record ei_region =
  reg_x :: u32
  reg_y :: u32
  reg_width :: u32
  reg_height :: u32
  reg_scale :: real
  reg_mapping :: "qstring option"

record ei_device =
  dev_id :: nat
  dev_caps :: "capability list"
  dev_regions :: "ei_region list"

record region =
  rect_x :: real
  rect_y :: real
  rect_width :: real
  rect_height :: real
  region_scale :: real

record eis_pointer =
  ptr_device :: ei_device
  m_regions :: "qstring \<rightharpoonup> region"

datatype ei_out =
    Button nat int bool
  | MotionAbsolute nat real real
  | ScrollDiscrete nat int int
  | KeyboardKey nat u32 bool
  | TextKeysym nat u32 bool
  | DeviceFrame nat
  | StartEmulating nat
  | SeatBindAll
  | SeatRequestDevice
  | EiDisconnect
  | EiErrorSignal

record ei_connection =
  m_ei :: bool
  m_pointerDevices :: "eis_pointer list"
  m_keyboardDevice :: "ei_device option"
  m_textDevice :: "ei_device option"
  ei_log :: "ei_out list"

definition has_cap :: "capability \<Rightarrow> ei_device \<Rightarrow> bool" where
  "has_cap cap d \<longleftrightarrow> cap \<in> set (dev_caps d)"

definition ei_emit :: "ei_out list \<Rightarrow> ei_connection \<Rightarrow> ei_connection" where
  "ei_emit xs c = c\<lparr>ei_log := ei_log c @ xs\<rparr>"

definition region_of :: "ei_region \<Rightarrow> region" where
  "region_of r = \<lparr>rect_x = of_int (uint (reg_x r)), rect_y = of_int (uint (reg_y r)),
     rect_width = of_int (uint (reg_width r)), rect_height = of_int (uint (reg_height r)),
     region_scale = reg_scale r\<rparr>"

text \<open>A region without a mapping id is left out; of two with the same id the later one stays.\<close>

definition eis_pointer_of :: "ei_device \<Rightarrow> eis_pointer" where
  "eis_pointer_of d = \<lparr>ptr_device = d,
     m_regions = fold (\<lambda>r m. case reg_mapping r of None \<Rightarrow> m | Some k \<Rightarrow> m(k \<mapsto> region_of r))
                   (dev_regions d) Map.empty\<rparr>"

definition regionForMapping :: "qstring \<Rightarrow> eis_pointer \<Rightarrow> region option" where
  "regionForMapping mappingId p = m_regions p mappingId"

text \<open>Whether \<open>ei_new_sender\<close> gave a context and \<open>ei_setup_backend_fd\<close> returned 0.\<close>

definition ei_new :: "bool \<Rightarrow> bool \<Rightarrow> ei_connection" where
  "ei_new created backend =
     \<lparr>m_ei = (created \<and> backend), m_pointerDevices = [], m_keyboardDevice = None, m_textDevice = None,
      ei_log = []\<rparr>"

section \<open>Sending input\<close>

definition BTN_LEFT :: int where "BTN_LEFT = 0x110"
definition BTN_RIGHT :: int where "BTN_RIGHT = 0x111"
definition BTN_MIDDLE :: int where "BTN_MIDDLE = 0x112"
definition BTN_SIDE :: int where "BTN_SIDE = 0x113"
definition BTN_EXTRA :: int where "BTN_EXTRA = 0x114"

fun button_code :: "mouse_button \<Rightarrow> int option" where
  "button_code LeftButton = Some BTN_LEFT"
| "button_code MiddleButton = Some BTN_MIDDLE"
| "button_code RightButton = Some BTN_RIGHT"
| "button_code BackButton = Some BTN_SIDE"
| "button_code ForwardButton = Some BTN_EXTRA"
| "button_code NoButton = None"

definition findPointerDeviceWithCapability :: "capability \<Rightarrow> ei_connection \<Rightarrow> ei_device option" where
  "findPointerDeviceWithCapability cap c =
     find (has_cap cap) (map ptr_device (m_pointerDevices c))"

fun find_mapping :: "qstring \<Rightarrow> eis_pointer list \<Rightarrow> (ei_device \<times> region) option" where
  "find_mapping mappingId [] = None"
| "find_mapping mappingId (p # ps) =
     (case regionForMapping mappingId p of
        Some r \<Rightarrow> Some (ptr_device p, r)
      | None \<Rightarrow> find_mapping mappingId ps)"

text \<open>One coordinate of the mapped position: scaled to the region, then moved to it.\<close>

definition map_coordinate :: "int \<Rightarrow> int \<Rightarrow> real \<Rightarrow> real \<Rightarrow> real" where
  "map_coordinate pos stream_extent origin extent =
     fl (origin + fl (fl (of_int pos / of_int stream_extent) * extent))"

definition send_button :: "bool \<Rightarrow> mouse_button \<Rightarrow> ei_connection \<Rightarrow> ei_connection" where
  "send_button press b c =
     (case button_code b of
        None \<Rightarrow> c
      | Some button \<Rightarrow>
          (case if m_ei c then findPointerDeviceWithCapability CapButton c else None of
             None \<Rightarrow> c
           | Some d \<Rightarrow> ei_emit [Button (dev_id d) button press, DeviceFrame (dev_id d)] c))"

definition send_motion :: "qpoint \<Rightarrow> qsize \<Rightarrow> qstring \<Rightarrow> ei_connection \<Rightarrow> ei_connection option" where
  "send_motion pos streamSize mappingId c =
     (if \<not> m_ei c \<or> m_pointerDevices c = [] then Some c
      else if qsize_isEmpty streamSize then Some c
      else if mappingId \<noteq> []
      then case find_mapping mappingId (m_pointerDevices c) of
             None \<Rightarrow> Some c
           | Some (d, r) \<Rightarrow>
               Some (ei_emit [MotionAbsolute (dev_id d)
                                (map_coordinate (fst pos) (width streamSize) (rect_x r) (rect_width r))
                                (map_coordinate (snd pos) (height streamSize) (rect_y r) (rect_height r)),
                              DeviceFrame (dev_id d)] c)
      else case findPointerDeviceWithCapability CapPointerAbsolute c of
             None \<Rightarrow> None
           | Some d \<Rightarrow>
               Some (ei_emit [MotionAbsolute (dev_id d) (of_int (fst pos)) (of_int (snd pos)),
                              DeviceFrame (dev_id d)] c))"

definition send_wheel :: "qpoint \<Rightarrow> ei_connection \<Rightarrow> ei_connection" where
  "send_wheel delta c =
     (case if m_ei c then findPointerDeviceWithCapability CapScroll c else None of
        None \<Rightarrow> c
      | Some d \<Rightarrow> ei_emit [ScrollDiscrete (dev_id d) (fst delta) (snd delta), DeviceFrame (dev_id d)] c)"

definition send_key :: "bool \<Rightarrow> u32 \<Rightarrow> u32 \<Rightarrow> ei_connection \<Rightarrow> ei_connection" where
  "send_key press scanCode virtualKey c =
     (if scanCode \<noteq> 0
      then (case if m_ei c then m_keyboardDevice c else None of
              None \<Rightarrow> c
            | Some d \<Rightarrow> ei_emit [KeyboardKey (dev_id d) scanCode press, DeviceFrame (dev_id d)] c)
      else if virtualKey \<noteq> 0
      then (case if m_ei c then m_textDevice c else None of
              None \<Rightarrow> c
            | Some d \<Rightarrow> ei_emit [TextKeysym (dev_id d) virtualKey press, DeviceFrame (dev_id d)] c)
      else c)"

fun ei_sendEvent :: "input_event \<Rightarrow> qsize \<Rightarrow> qstring \<Rightarrow> ei_connection \<Rightarrow> ei_connection option" where
  "ei_sendEvent (QMouseEvent MouseButtonPress pos b) streamSize mappingId c = Some (send_button True b c)"
| "ei_sendEvent (QMouseEvent MouseButtonRelease pos b) streamSize mappingId c = Some (send_button False b c)"
| "ei_sendEvent (QMouseEvent MouseMove pos b) streamSize mappingId c = send_motion pos streamSize mappingId c"
| "ei_sendEvent (QWheelEvent pos pixel angle) streamSize mappingId c = Some (send_wheel angle c)"
| "ei_sendEvent (QKeyEvent kind scanCode virtualKey) streamSize mappingId c =
     Some (send_key (kind = KeyPress) scanCode virtualKey c)"

section \<open>Events of libei\<close>

datatype eis_event =
    EisConnect
  | EisDisconnect
  | EisSeatAdded
  | EisDeviceAdded ei_device
  | EisDeviceRemoved nat
  | EisDeviceResumed nat
  | EisOther

fun eis_event_step :: "eis_event \<Rightarrow> ei_connection \<Rightarrow> ei_connection" where
  "eis_event_step EisConnect c = c"
| "eis_event_step EisDisconnect c = ei_emit [EiErrorSignal] c"
| "eis_event_step EisSeatAdded c = ei_emit [SeatBindAll, SeatRequestDevice] c"
| "eis_event_step (EisDeviceAdded d) c =
     ei_emit [StartEmulating (dev_id d)]
       (c\<lparr>m_pointerDevices := m_pointerDevices c @
            (if has_cap CapPointerAbsolute d then [eis_pointer_of d] else []),
         m_keyboardDevice := (if m_keyboardDevice c = None \<and> has_cap CapKeyboard d then Some d
                              else m_keyboardDevice c),
         m_textDevice := (if m_textDevice c = None \<and> has_cap CapText d then Some d else m_textDevice c)\<rparr>)"
| "eis_event_step (EisDeviceRemoved i) c =
     c\<lparr>m_pointerDevices := filter (\<lambda>p. dev_id (ptr_device p) \<noteq> i) (m_pointerDevices c),
       m_keyboardDevice := (if map_option dev_id (m_keyboardDevice c) = Some i then None else m_keyboardDevice c),
       m_textDevice := (if map_option dev_id (m_textDevice c) = Some i then None else m_textDevice c)\<rparr>"
| "eis_event_step (EisDeviceResumed i) c = ei_emit [StartEmulating i] c"
| "eis_event_step EisOther c = c"

text \<open>\<open>onEisReadyRead\<close>: without a context nothing, else every event that is there.\<close>

definition processEisEvents :: "eis_event list \<Rightarrow> ei_connection \<Rightarrow> ei_connection" where
  "processEisEvents es c = fold eis_event_step es c"

definition onEisReadyRead :: "eis_event list \<Rightarrow> ei_connection \<Rightarrow> ei_connection" where
  "onEisReadyRead es c = (if \<not> m_ei c then c else processEisEvents es c)"

text \<open>The destructor disconnects, drops the events that are left and releases the context.\<close>

definition ei_destroy :: "ei_connection \<Rightarrow> ei_connection" where
  "ei_destroy c = (if \<not> m_ei c then c else (ei_emit [EiDisconnect] c)\<lparr>m_ei := False\<rparr>)"

section \<open>Positions\<close>

lemma map_coordinate_between:
  assumes "0 \<le> pos" "pos \<le> stream_extent" "0 < stream_extent"
    and "0 \<le> a" "a \<le> 2 ^ 32" "0 \<le> e" "e \<le> 2 ^ 32"
  shows "of_int a \<le> map_coordinate pos stream_extent (of_int a) (of_int e)"
    and "map_coordinate pos stream_extent (of_int a) (of_int e) \<le> of_int (a + e)"
proof -
  let ?l = "fl (fl (of_int pos / of_int stream_extent) * of_int e)"
  have rep: "fl (of_int n) = of_int n" if "0 \<le> n" "n \<le> 2 ^ 33" for n
    using that by (intro fl_of_int) simp
  have l: "0 \<le> ?l" "?l \<le> of_int e"
    using assms rep [of e]
    by (auto intro!: fl.scale_between [where w = "of_int stream_extent"])
  have "of_int a \<le> of_int a + ?l" using l(1) by simp
  then show "of_int a \<le> map_coordinate pos stream_extent (of_int a) (of_int e)"
    unfolding map_coordinate_def using assms(4,5) by (intro fl.rnd_ge rep) simp_all
  have "of_int a + ?l \<le> of_int (a + e)" using l(2) by simp
  then show "map_coordinate pos stream_extent (of_int a) (of_int e) \<le> of_int (a + e)"
    unfolding map_coordinate_def using assms(4-7) by (intro fl.rnd_le rep) simp_all
qed

lemma find_mapping_in: "find_mapping k ps = Some (d, r) \<Longrightarrow> \<exists>p \<in> set ps. ptr_device p = d \<and> m_regions p k = Some r"
  by (induction ps) (auto simp: regionForMapping_def split: option.splits)

lemma region_from:
  "m_regions (eis_pointer_of d) k = Some r \<Longrightarrow> \<exists>e \<in> set (dev_regions d). r = region_of e"
proof -
  have "fold (\<lambda>r m. case reg_mapping r of None \<Rightarrow> m | Some k \<Rightarrow> m(k \<mapsto> region_of r)) es m k = Some r \<Longrightarrow>
      m k = Some r \<or> (\<exists>e \<in> set es. r = region_of e)" for es m
    by (induction es arbitrary: m) (fastforce split: option.splits if_splits)+
  then show "m_regions (eis_pointer_of d) k = Some r \<Longrightarrow> \<exists>e \<in> set (dev_regions d). r = region_of e"
    by (fastforce simp: eis_pointer_of_def)
qed

section \<open>The devices that are used are there\<close>

text \<open>The devices libei has announced and not removed since.\<close>

fun present_step :: "eis_event \<Rightarrow> ei_device list \<Rightarrow> ei_device list" where
  "present_step (EisDeviceAdded d) ds = ds @ [d]"
| "present_step (EisDeviceRemoved i) ds = filter (\<lambda>d. dev_id d \<noteq> i) ds"
| "present_step _ ds = ds"

definition ei_track :: "eis_event \<Rightarrow> ei_connection \<times> ei_device list \<Rightarrow> ei_connection \<times> ei_device list" where
  "ei_track e cd = (eis_event_step e (fst cd), present_step e (snd cd))"

definition fine_pointer :: "ei_device list \<Rightarrow> eis_pointer \<Rightarrow> bool" where
  "fine_pointer ds p \<longleftrightarrow> ptr_device p \<in> set ds \<and> has_cap CapPointerAbsolute (ptr_device p) \<and>
     p = eis_pointer_of (ptr_device p)"

definition fine_device :: "ei_device list \<Rightarrow> capability \<Rightarrow> ei_device option \<Rightarrow> bool" where
  "fine_device ds cap x \<longleftrightarrow> (case x of None \<Rightarrow> True | Some d \<Rightarrow> d \<in> set ds \<and> has_cap cap d)"

definition ei_inv :: "ei_connection \<times> ei_device list \<Rightarrow> bool" where
  "ei_inv cd \<longleftrightarrow> (case cd of (c, ds) \<Rightarrow>
     list_all (fine_pointer ds) (m_pointerDevices c) \<and>
     fine_device ds CapKeyboard (m_keyboardDevice c) \<and> fine_device ds CapText (m_textDevice c))"

lemma ei_emit_fields [simp]:
  "m_ei (ei_emit xs c) = m_ei c" "m_pointerDevices (ei_emit xs c) = m_pointerDevices c"
  "m_keyboardDevice (ei_emit xs c) = m_keyboardDevice c" "m_textDevice (ei_emit xs c) = m_textDevice c"
  "ei_log (ei_emit xs c) = ei_log c @ xs"
  by (simp_all add: ei_emit_def)

lemma ei_inv_iff:
  "ei_inv (c, ds) \<longleftrightarrow> list_all (fine_pointer ds) (m_pointerDevices c) \<and>
     fine_device ds CapKeyboard (m_keyboardDevice c) \<and> fine_device ds CapText (m_textDevice c)"
  by (simp add: ei_inv_def)

lemma ptr_device_of [simp]: "ptr_device (eis_pointer_of d) = d"
  by (simp add: eis_pointer_of_def)

lemma ei_inv_emit [simp]: "ei_inv (ei_emit xs c, ds) = ei_inv (c, ds)"
  by (simp only: ei_inv_iff ei_emit_fields)

lemma fine_pointer_added: "fine_pointer ds p \<Longrightarrow> fine_pointer (ds @ [d]) p"
  by (simp add: fine_pointer_def)

lemma fine_pointer_new: "has_cap CapPointerAbsolute d \<Longrightarrow> fine_pointer (ds @ [d]) (eis_pointer_of d)"
  by (simp add: fine_pointer_def)

lemma fine_device_added:
  "fine_device ds cap x \<Longrightarrow> fine_device (ds @ [d]) cap (if x = None \<and> has_cap cap d then Some d else x)"
  by (cases x) (simp_all add: fine_device_def)

lemma fine_pointer_removed:
  "fine_pointer ds p \<Longrightarrow> dev_id (ptr_device p) \<noteq> i \<Longrightarrow> fine_pointer (filter (\<lambda>d. dev_id d \<noteq> i) ds) p"
  by (simp add: fine_pointer_def)

lemma fine_device_removed:
  "fine_device ds cap x \<Longrightarrow>
     fine_device (filter (\<lambda>d. dev_id d \<noteq> i) ds) cap (if map_option dev_id x = Some i then None else x)"
  by (cases x) (simp_all add: fine_device_def)

lemma ei_inv_added:
  assumes "ei_inv (c, ds)"
  shows "ei_inv (eis_event_step (EisDeviceAdded d) c, ds @ [d])"
proof -
  note inv = assms [unfolded ei_inv_iff]
  have ptrs: "list_all (fine_pointer (ds @ [d]))
     (m_pointerDevices c @ (if has_cap CapPointerAbsolute d then [eis_pointer_of d] else []))"
    using inv fine_pointer_added [of ds _ d] fine_pointer_new [of d ds]
    by (cases "has_cap CapPointerAbsolute d") (simp_all add: list_all_iff)
  show ?thesis
    using ptrs fine_device_added [of ds CapKeyboard "m_keyboardDevice c" d]
      fine_device_added [of ds CapText "m_textDevice c" d] inv
    by (simp add: ei_inv_iff)
qed

lemma ei_inv_removed:
  assumes "ei_inv (c, ds)"
  shows "ei_inv (eis_event_step (EisDeviceRemoved i) c, filter (\<lambda>d. dev_id d \<noteq> i) ds)"
proof -
  note inv = assms [unfolded ei_inv_iff]
  have ptrs: "list_all (fine_pointer (filter (\<lambda>d. dev_id d \<noteq> i) ds))
     (filter (\<lambda>p. dev_id (ptr_device p) \<noteq> i) (m_pointerDevices c))"
    using inv fine_pointer_removed [of ds] by (simp add: list_all_iff)
  show ?thesis
    using ptrs fine_device_removed [of ds CapKeyboard "m_keyboardDevice c" i]
      fine_device_removed [of ds CapText "m_textDevice c" i] inv
    by (simp add: ei_inv_iff)
qed

interpretation eis: machine ei_track "(ei_new created backend, [])" "\<lambda>_. True" ei_inv for created backend
proof unfold_locales
  show "ei_inv (ei_new created backend, [])" by (simp add: ei_inv_def ei_new_def fine_device_def)
  fix e cd assume "ei_inv cd"
  then have "ei_inv (fst cd, snd cd)" by simp
  then show "ei_inv (ei_track e cd)"
    by (cases e) (simp_all add: ei_track_def ei_inv_added ei_inv_removed del: eis_event_step.simps(4,5))
qed

text \<open>The input that was sent, and a connection in a state it can be in.\<close>

fun is_input :: "ei_out \<Rightarrow> bool" where
  "is_input (Button i b p) = True"
| "is_input (MotionAbsolute i x y) = True"
| "is_input (ScrollDiscrete i x y) = True"
| "is_input (KeyboardKey i k p) = True"
| "is_input (TextKeysym i k p) = True"
| "is_input _ = False"

definition ei_input :: "ei_connection option \<Rightarrow> ei_out list" where
  "ei_input x = (case x of None \<Rightarrow> [] | Some c \<Rightarrow> filter is_input (ei_log c))"

definition ei_sound :: "ei_connection option \<Rightarrow> bool" where
  "ei_sound x \<longleftrightarrow> (case x of None \<Rightarrow> True | Some c \<Rightarrow> \<exists>ds. ei_inv (c, ds))"

lemma ei_sound_onEisReadyRead: "ei_sound (Some c) \<Longrightarrow> ei_sound (Some (onEisReadyRead es c))"
proof -
  assume "ei_sound (Some c)"
  then obtain ds where "ei_inv (c, ds)" by (auto simp: ei_sound_def)
  then have "ei_inv (fold ei_track es (c, ds))"
    by (rule eis.inv_run) (simp add: list_all_iff)
  moreover have "fst (fold ei_track es (c, ds)) = processEisEvents es c" for c ds
    by (induction es arbitrary: c ds) (simp_all add: processEisEvents_def ei_track_def)
  ultimately show ?thesis
    using \<open>ei_sound (Some c)\<close> by (auto simp: ei_sound_def onEisReadyRead_def) (metis prod.collapse)
qed

lemma eis_event_step_input [simp]:
  "filter is_input (ei_log (eis_event_step e c)) = filter is_input (ei_log c)"
  by (cases e) simp_all

lemma onEisReadyRead_input [simp]: "ei_input (Some (onEisReadyRead es c)) = ei_input (Some c)"
proof -
  have "filter is_input (ei_log (fold eis_event_step es c)) = filter is_input (ei_log c)"
    by (induction es arbitrary: c) simp_all
  then show ?thesis by (simp add: ei_input_def onEisReadyRead_def processEisEvents_def)
qed

lemma ei_sound_new: "ei_sound (Some (ei_new a b))"
  using eis.inv_start by (auto simp: ei_sound_def)

lemma ei_input_new [simp]: "ei_input (Some (ei_new a b)) = []"
  by (simp add: ei_input_def ei_new_def)

text \<open>What a call needs of the device it is made on.\<close>

fun call_ok :: "ei_device list \<Rightarrow> ei_out \<Rightarrow> bool" where
  "call_ok ds (Button i b p) = (\<exists>d \<in> set ds. dev_id d = i \<and> has_cap CapButton d)"
| "call_ok ds (MotionAbsolute i x y) = (\<exists>d \<in> set ds. dev_id d = i \<and> has_cap CapPointerAbsolute d)"
| "call_ok ds (ScrollDiscrete i x y) = (\<exists>d \<in> set ds. dev_id d = i \<and> has_cap CapScroll d)"
| "call_ok ds (KeyboardKey i k p) = (\<exists>d \<in> set ds. dev_id d = i \<and> has_cap CapKeyboard d)"
| "call_ok ds (TextKeysym i k p) = (\<exists>d \<in> set ds. dev_id d = i \<and> has_cap CapText d)"
| "call_ok ds (DeviceFrame i) = (\<exists>d \<in> set ds. dev_id d = i)"
| "call_ok ds _ = True"

lemma find_cap:
  assumes "ei_inv (c, ds)" "findPointerDeviceWithCapability cap c = Some d"
  shows "d \<in> set ds" "has_cap cap d"
  using assms by (auto simp: ei_inv_def findPointerDeviceWithCapability_def find_Some_iff list_all_iff fine_pointer_def)

lemma find_absolute:
  assumes "ei_inv (c, ds)" "m_pointerDevices c \<noteq> []"
  shows "findPointerDeviceWithCapability CapPointerAbsolute c \<noteq> None"
  using assms
  by (auto simp: ei_inv_def findPointerDeviceWithCapability_def find_None_iff neq_Nil_conv fine_pointer_def)

text \<open>A step that makes calls on suitable devices and nothing else.\<close>

definition sends :: "ei_device list \<Rightarrow> ei_connection \<Rightarrow> ei_connection \<Rightarrow> bool" where
  "sends ds c c' \<longleftrightarrow> (\<exists>xs. c' = ei_emit xs c \<and> list_all (call_ok ds) xs)"

lemma sends_none [simp]: "sends ds c c"
  unfolding sends_def by (rule exI [of _ "[]"]) (simp add: ei_emit_def)

lemma call_ok_one: "call_ok [d] x \<Longrightarrow> d \<in> set ds \<Longrightarrow> call_ok ds x"
  by (cases x) auto

lemma sends_emit: "d \<in> set ds \<Longrightarrow> list_all (call_ok [d]) xs \<Longrightarrow> sends ds c (ei_emit xs c)"
  unfolding sends_def list_all_iff using call_ok_one by blast

lemma send_motion_ok:
  assumes "ei_inv (c, ds)"
  shows "\<exists>c'. send_motion pos sz k c = Some c' \<and> sends ds c c'"
proof (cases "\<not> m_ei c \<or> m_pointerDevices c = [] \<or> qsize_isEmpty sz")
  case True
  then show ?thesis by (auto simp: send_motion_def)
next
  case False
  show ?thesis
  proof (cases "k = []")
    case True
    obtain d where "findPointerDeviceWithCapability CapPointerAbsolute c = Some d"
      using find_absolute [OF assms] False by auto
    then show ?thesis using False True find_cap [OF assms, of CapPointerAbsolute d]
      by (auto simp: send_motion_def intro: sends_emit [of d])
  next
    case k: False
    show ?thesis
    proof (cases "find_mapping k (m_pointerDevices c)")
      case None
      then show ?thesis using False k by (simp add: send_motion_def)
    next
      case (Some dr)
      then obtain p where "p \<in> set (m_pointerDevices c)" "ptr_device p = fst dr"
        using find_mapping_in [of k _ "fst dr" "snd dr"] by auto
      then have "fst dr \<in> set ds" "has_cap CapPointerAbsolute (fst dr)"
        using assms by (auto simp: ei_inv_def list_all_iff fine_pointer_def)
      then show ?thesis using False k Some
        by (auto simp: send_motion_def intro: sends_emit [of "fst dr"] split: prod.splits)
    qed
  qed
qed

lemma send_others_ok:
  assumes "ei_inv (c, ds)"
  shows "sends ds c (send_button p b c)" "sends ds c (send_wheel a c)" "sends ds c (send_key p s v c)"
proof -
  show "sends ds c (send_button p b c)"
    using find_cap [OF assms, of CapButton] by (auto simp: send_button_def intro: sends_emit split: option.split)
  show "sends ds c (send_wheel a c)"
    using find_cap [OF assms, of CapScroll] by (auto simp: send_wheel_def intro: sends_emit split: option.split)
  show "sends ds c (send_key p s v c)"
    using assms by (auto simp: send_key_def ei_inv_def fine_device_def intro: sends_emit split: option.split)
qed

lemma send_event_ok:
  assumes "ei_inv (c, ds)"
  shows "\<exists>c'. ei_sendEvent ev sz k c = Some c' \<and> sends ds c c'"
proof (cases ev)
  case (QMouseEvent kind pos b)
  then show ?thesis using send_others_ok(1) [OF assms] send_motion_ok [OF assms] by (cases kind) auto
qed (use send_others_ok [OF assms] in auto)

lemma ei_sound_sendEvent:
  assumes "ei_sound (Some c)"
  shows "\<exists>c'. ei_sendEvent ev sz k c = Some c' \<and> ei_sound (Some c')"
proof -
  obtain ds where ds: "ei_inv (c, ds)" using assms by (auto simp: ei_sound_def)
  then obtain c' where "ei_sendEvent ev sz k c = Some c'" "sends ds c c'" using send_event_ok by blast
  then show ?thesis using ds by (auto simp: sends_def ei_sound_def)
qed

text \<open>
C13. Input goes to devices that are there and can take it. Whatever devices libei announces and removes,
in whatever order: sending an event returns, without following the null pointer that a motion without
an absolute pointer device would meet, and every call it makes is on a device that was announced, was
not removed since, and has the capability the call needs.
\<close>

theorem input_reaches_present_devices:
  "\<exists>c. ei_sendEvent ev sz k (fst (fold ei_track es (ei_new created backend, []))) = Some c \<and>
     (\<exists>xs. c = ei_emit xs (fst (fold ei_track es (ei_new created backend, []))) \<and>
        list_all (call_ok (snd (fold ei_track es (ei_new created backend, [])))) xs)"
proof -
  have "ei_inv (fold ei_track es (ei_new created backend, []))"
    by (rule eis.inv_reach) (simp add: list_all_iff)
  then show ?thesis
    using send_event_ok [of "fst (fold ei_track es (ei_new created backend, []))"] by (simp add: sends_def)
qed

text \<open>
C25. The pointer stays on the monitor it is meant for. With a mapping id, a position inside the stream
is sent as a position inside the region of the device that carries this id, although every quotient,
product and sum is rounded.
\<close>

theorem pointer_stays_in_region:
  assumes "ei_inv (c, ds)" and "m_ei c" and "k \<noteq> []"
    and "find_mapping k (m_pointerDevices c) = Some (d, r)"
    and "0 \<le> x" "x \<le> width sz" "0 < width sz" and "0 \<le> y" "y \<le> height sz" "0 < height sz"
  shows "\<exists>px py. ei_sendEvent (QMouseEvent MouseMove (x, y) b) sz k c =
       Some (ei_emit [MotionAbsolute (dev_id d) px py, DeviceFrame (dev_id d)] c) \<and>
     rect_x r \<le> px \<and> px \<le> rect_x r + rect_width r \<and> rect_y r \<le> py \<and> py \<le> rect_y r + rect_height r"
proof -
  obtain p where p: "p \<in> set (m_pointerDevices c)" "ptr_device p = d" "m_regions p k = Some r"
    using find_mapping_in [OF assms(4)] by blast
  then have "p = eis_pointer_of d" using assms(1) by (auto simp: ei_inv_def list_all_iff fine_pointer_def)
  then obtain e where e: "r = region_of e" using region_from [of d k r] p by auto
  have bounds: "0 \<le> uint w" "uint w \<le> 2 ^ 32" for w :: u32
    using uint_lt2p [of w] by simp_all
  note in_region = map_coordinate_between
    [OF assms(5-7) bounds [of "reg_x e"] bounds [of "reg_width e"]]
    map_coordinate_between [OF assms(8-10) bounds [of "reg_y e"] bounds [of "reg_height e"]]
  have devs: "m_pointerDevices c \<noteq> []" using p by auto
  have "\<not> qsize_isEmpty sz" using assms by (simp add: qsize_isEmpty_def)
  then have send: "ei_sendEvent (QMouseEvent MouseMove (x, y) b) sz k c =
     Some (ei_emit [MotionAbsolute (dev_id d) (map_coordinate x (width sz) (rect_x r) (rect_width r))
            (map_coordinate y (height sz) (rect_y r) (rect_height r)), DeviceFrame (dev_id d)] c)"
    using assms devs by (simp add: send_motion_def)
  show ?thesis unfolding send
    by (rule exI, rule exI, rule conjI, rule refl) (use in_region in \<open>simp add: e region_of_def\<close>)
qed

definition demo_device :: ei_device where
  "demo_device = \<lparr>dev_id = 3, dev_caps = [CapPointerAbsolute, CapButton],
     dev_regions = [\<lparr>reg_x = 1920, reg_y = 0, reg_width = 2560, reg_height = 1440, reg_scale = 1,
                     reg_mapping = Some [118]\<rparr>]\<rparr>"

theorem pointer_stays_in_region_witness:
  "\<exists>px py. ei_sendEvent (QMouseEvent MouseMove (640, 480) NoButton) \<lparr>width = 1024, height = 768\<rparr> [118]
       (eis_event_step (EisDeviceAdded demo_device) (ei_new True True)) =
     Some (ei_emit [MotionAbsolute 3 px py, DeviceFrame 3]
       (eis_event_step (EisDeviceAdded demo_device) (ei_new True True))) \<and>
     1920 \<le> px \<and> px \<le> 4480 \<and> 0 \<le> py \<and> py \<le> 1440"
proof -
  let ?c = "eis_event_step (EisDeviceAdded demo_device) (ei_new True True)"
  have inv: "ei_inv (?c, [demo_device])"
    using eis.inv_reach [of "[EisDeviceAdded demo_device]" True True] by (simp add: ei_track_def)
  have m: "m_ei ?c" "find_mapping [118] (m_pointerDevices ?c) =
      Some (demo_device, \<lparr>rect_x = 1920, rect_y = 0, rect_width = 2560, rect_height = 1440, region_scale = 1\<rparr>)"
    by (simp_all add: ei_new_def demo_device_def has_cap_def eis_pointer_of_def regionForMapping_def
        region_of_def)
  show ?thesis
    using pointer_stays_in_region [OF inv m(1) _ m(2), of 640 "\<lparr>width = 1024, height = 768\<rparr>" 480 NoButton]
    by (simp add: demo_device_def)
qed

end
