(* ===== verification/PlasmaSession.thy ===== *)
theory PlasmaSession
  imports AbstractSession EiConnection
begin

text \<open>
  The session on Plasma's own protocols, \<open>src/PlasmaScreencastV1Session.cpp\<close> and
  \<open>src/screencasting.cpp\<close>: the stream it asks KWin for, the events of that stream, and the input
  server. The screens are what Qt says of them; requests to KWin are a log. \<open>None\<close> is an index out
  of the range that \<open>QList::at\<close> asserts.
\<close>

section \<open>Streams\<close>

record screen =
  scr_name :: qstring
  scr_geometry :: qrect
  scr_virtualSize :: qsize
  scr_wl_output :: bool

datatype kwin_call =
    StreamOutput qstring u32
  | StreamRegion qrect real u32
  | StreamVirtualOutput qstring qsize real u32
  | EisDisconnectCall int

record screencast_stream =
  sc_nodeId :: u32
  sc_size :: qsize
  sc_objectSerial :: u64

definition stream_new :: screencast_stream where
  "stream_new = \<lparr>sc_nodeId = 0, sc_size = qsize_default, sc_objectSerial = - 1\<rparr>"

text \<open>\<open>CursorMode::Metadata\<close>.\<close>

definition Metadata :: u32 where "Metadata = 4"

text \<open>
  Each of the four makes a stream object and a request, or neither: a screen without a Wayland output,
  a protocol that is not active or no screen at all give a null pointer.
\<close>

definition createOutputStream :: "bool \<Rightarrow> screen \<Rightarrow> u32 \<Rightarrow> screencast_stream option \<times> kwin_call list" where
  "createOutputStream active scr mode =
     (if \<not> active then (None, [])
      else if \<not> scr_wl_output scr then (None, [])
      else (Some (stream_new\<lparr>sc_size := scr_virtualSize scr\<rparr>), [StreamOutput (scr_name scr) mode]))"

definition createRegionStream :: "qrect \<Rightarrow> real \<Rightarrow> u32 \<Rightarrow> screencast_stream option \<times> kwin_call list" where
  "createRegionStream g scale mode =
     (Some (stream_new\<lparr>sc_size := \<lparr>width = rw g, height = rh g\<rparr>\<rparr>), [StreamRegion g scale mode])"

text \<open>\<open>QRect::operator|\<close>: a null rectangle is left out, a negative extent is turned round.\<close>

definition qrect_null :: qrect where
  "qrect_null = \<lparr>rx = 0, ry = 0, rw = 0, rh = 0\<rparr>"

definition low_edge :: "int \<Rightarrow> int \<Rightarrow> int" where
  "low_edge pos extent = (if extent < 0 then pos + extent else pos)"

definition high_edge :: "int \<Rightarrow> int \<Rightarrow> int" where
  "high_edge pos extent = (if extent < 0 then pos else pos + extent)"

definition qrect_union :: "qrect \<Rightarrow> qrect \<Rightarrow> qrect" where
  "qrect_union a b =
     (if rw a = 0 \<and> rh a = 0 then b
      else if rw b = 0 \<and> rh b = 0 then a
      else let l = min (low_edge (rx a) (rw a)) (low_edge (rx b) (rw b));
               t = min (low_edge (ry a) (rh a)) (low_edge (ry b) (rh b));
               r = max (high_edge (rx a) (rw a)) (high_edge (rx b) (rw b));
               bt = max (high_edge (ry a) (rh a)) (high_edge (ry b) (rh b))
           in \<lparr>rx = l, ry = t, rw = r - l, rh = bt - t\<rparr>)"

definition createWorkspaceStream :: "bool \<Rightarrow> screen list \<Rightarrow> u32 \<Rightarrow> screencast_stream option \<times> kwin_call list" where
  "createWorkspaceStream active screens mode =
     (case screens of
        [] \<Rightarrow> (None, [])
      | [scr] \<Rightarrow> createOutputStream active scr mode
      | _ \<Rightarrow> createRegionStream (fold (\<lambda>scr w. qrect_union w (scr_geometry scr)) screens qrect_null) 1 mode)"

definition createVirtualMonitorStream ::
  "qstring \<Rightarrow> qsize \<Rightarrow> real \<Rightarrow> u32 \<Rightarrow> screencast_stream option \<times> kwin_call list" where
  "createVirtualMonitorStream name resolution dpr mode =
     (Some stream_new, [StreamVirtualOutput name resolution dpr mode])"

text \<open>The serial comes in two halves.\<close>

definition object_serial :: "u32 \<Rightarrow> u32 \<Rightarrow> u64" where
  "object_serial hi low = or (push_bit 32 (ucast hi)) (ucast low)"

section \<open>State\<close>

record plasma =
  k_base :: session
  k_request :: "screencast_stream option"
  k_ei :: "ei_connection option"
  k_eisCookie :: int
  k_mappingId :: qstring
  k_eisPending :: bool
  k_calls :: "kwin_call list"

text \<open>The constructor has asked KWin for its input server.\<close>

definition plasma_init :: "session \<Rightarrow> plasma" where
  "plasma_init s = \<lparr>k_base = s, k_request = None, k_ei = None, k_eisCookie = 0, k_mappingId = [],
     k_eisPending = True, k_calls = []\<rparr>"

definition k_on_base :: "(session \<Rightarrow> session) \<Rightarrow> plasma \<Rightarrow> plasma" where
  "k_on_base f k = k\<lparr>k_base := f (k_base k)\<rparr>"

section \<open>Operations\<close>

text \<open>The answer to \<open>connectToEIS\<close>: the cookie, and what libei makes of the descriptor.\<close>

definition onEisReply :: "(int \<times> bool \<times> bool) option \<Rightarrow> plasma \<Rightarrow> plasma" where
  "onEisReply reply k =
     (case reply of
        None \<Rightarrow> k
      | Some (cookie, created, backend) \<Rightarrow> k\<lparr>k_ei := Some (ei_new created backend), k_eisCookie := cookie\<rparr>)"

definition set_request :: "screencast_stream option \<times> kwin_call list \<Rightarrow> plasma \<Rightarrow> plasma" where
  "set_request made k = k\<lparr>k_request := fst made, k_calls := k_calls k @ snd made\<rparr>"

definition plasma_start :: "bool \<Rightarrow> screen list \<Rightarrow> plasma \<Rightarrow> plasma option" where
  "plasma_start active screens k =
     (case s_virtualMonitor (k_base k) of
        Some vm \<Rightarrow>
          Some ((set_request (createVirtualMonitorStream (mon_name vm) (mon_size vm) (mon_dpr vm) Metadata) k)
                  \<lparr>k_mappingId := qs ''Virtual-'' @ mon_name vm\<rparr>)
      | None \<Rightarrow>
          (case s_activeStream (k_base k) of
             Some i \<Rightarrow>
               if i \<ge> int (length screens) then Some k
               else if i < 0 then None
               else Some ((set_request (createOutputStream active (screens ! nat i) Metadata) k)
                            \<lparr>k_mappingId := scr_name (screens ! nat i)\<rparr>)
           | None \<Rightarrow> Some (set_request (createWorkspaceStream active screens Metadata) k)))"

definition plasma_sendEvent :: "input_event \<Rightarrow> plasma \<Rightarrow> plasma option" where
  "plasma_sendEvent ev k =
     (case k_ei k of
        None \<Rightarrow> Some k
      | Some c \<Rightarrow>
          if s_started (k_base k)
          then map_option (\<lambda>c'. k\<lparr>k_ei := Some c'\<rparr>) (ei_sendEvent ev (s_size (k_base k)) (k_mappingId k) c)
          else Some k)"

text \<open>The events of the stream, which come only when there is one.\<close>

definition onCreated :: "u32 \<Rightarrow> plasma \<Rightarrow> plasma" where
  "onCreated node k =
     (case k_request k of
        None \<Rightarrow> k
      | Some r \<Rightarrow>
          k_on_base (\<lambda>s. setStarted True (setNodeId node (setLogicalSize (sc_size r) s)))
            (k\<lparr>k_request := Some (r\<lparr>sc_nodeId := node\<rparr>)\<rparr>))"

definition onFailed :: "plasma \<Rightarrow> plasma" where
  "onFailed k = (if k_request k = None then k else k_on_base (s_emit [ErrorSignal]) k)"

definition onSerial :: "u32 \<Rightarrow> u32 \<Rightarrow> plasma \<Rightarrow> plasma" where
  "onSerial hi low k =
     (case k_request k of
        None \<Rightarrow> k
      | Some r \<Rightarrow> k_on_base (setObjectSerial (object_serial hi low))
                    (k\<lparr>k_request := Some (r\<lparr>sc_objectSerial := object_serial hi low\<rparr>)\<rparr>))"

definition plasma_destroy :: "plasma \<Rightarrow> plasma" where
  "plasma_destroy k =
     (let k1 = (if k_eisCookie k \<noteq> 0 then k\<lparr>k_calls := k_calls k @ [EisDisconnectCall (k_eisCookie k)]\<rparr> else k)
      in k_on_base session_destroy (k1\<lparr>k_ei := map_option ei_destroy (k_ei k1)\<rparr>))"

datatype plasma_event =
    KEisReply "(int \<times> bool \<times> bool) option"
  | KCreated u32
  | KFailed
  | KSerial u32 u32
  | KEisEvents "eis_event list"
  | KInput input_event
  | KSetSize qsize
  | KTakeFd
  | KClipboardChanged bool bool "qstring option option"
  | KSetClipboard "qstring option option"

fun plasma_step :: "plasma_event \<Rightarrow> plasma \<Rightarrow> plasma option" where
  "plasma_step (KEisReply reply) k =
     Some (if k_eisPending k then onEisReply reply (k\<lparr>k_eisPending := False\<rparr>) else k)"
| "plasma_step (KCreated node) k = Some (onCreated node k)"
| "plasma_step KFailed k = Some (onFailed k)"
| "plasma_step (KSerial hi low) k = Some (onSerial hi low k)"
| "plasma_step (KEisEvents es) k =
     Some (case k_ei k of None \<Rightarrow> k | Some c \<Rightarrow> k\<lparr>k_ei := Some (onEisReadyRead es c)\<rparr>)"
| "plasma_step (KInput ev) k = plasma_sendEvent ev k"
| "plasma_step (KSetSize sz) k = Some (k_on_base (session_setSize sz) k)"
| "plasma_step KTakeFd k = Some (k_on_base (\<lambda>s. snd (takePipeWireFd s)) k)"
| "plasma_step (KClipboardChanged c w d) k = Some (k_on_base (onSystemClipboardChanged c w d) k)"
| "plasma_step (KSetClipboard d) k = Some (k_on_base (setClipboardData d) k)"

definition plasma_begin :: "monitor_choice \<Rightarrow> bool \<Rightarrow> screen list \<Rightarrow> plasma option" where
  "plasma_begin m active screens =
     Option.bind (choose_monitor m session_init) (\<lambda>s. plasma_start active screens (plasma_init s))"

section \<open>The Plasma session as a session\<close>

definition plasma_good :: "plasma \<Rightarrow> bool" where
  "plasma_good k \<longleftrightarrow> base_good (k_base k) \<and> ei_sound (k_ei k) \<and>
     (ei_input (k_ei k) \<noteq> [] \<longrightarrow> s_started (k_base k))"

definition plasma_keeps :: "plasma \<Rightarrow> plasma \<Rightarrow> bool" where
  "plasma_keeps k k' \<longleftrightarrow> base_step (k_base k) (k_base k') \<and> (ei_sound (k_ei k) \<longrightarrow> ei_sound (k_ei k')) \<and>
     (ei_input (k_ei k') \<noteq> [] \<longrightarrow> ei_input (k_ei k) \<noteq> [] \<or> s_started (k_base k'))"

lemma plasma_good_keeps: "plasma_keeps k k' \<Longrightarrow> plasma_good k \<Longrightarrow> plasma_good k'"
  by (auto simp: plasma_keeps_def plasma_good_def base_step_def)

lemma plasma_keeps_base: "base_step (k_base k) (k_base k') \<Longrightarrow> k_ei k' = k_ei k \<Longrightarrow> plasma_keeps k k'"
  by (simp add: plasma_keeps_def)

lemma stream_events_keep:
  "plasma_keeps k (onCreated node k)" "plasma_keeps k (onFailed k)" "plasma_keeps k (onSerial hi low k)"
proof -
  have "base_step s (setStarted True (setNodeId node (setLogicalSize sz s)))" for s sz
    by (intro base_step_trans [OF _ base_step_ops(6)] base_step_trans [OF _ base_step_ops(3)] base_step_ops(2))
  then show "plasma_keeps k (onCreated node k)"
    by (auto simp: onCreated_def k_on_base_def intro!: plasma_keeps_base split: option.split)
qed (auto simp: onFailed_def onSerial_def k_on_base_def base_step_emit intro!: plasma_keeps_base split: option.split)

lemma plasma_step_keeps:
  assumes "plasma_good k"
  shows "\<exists>k'. plasma_step e k = Some k' \<and> plasma_keeps k k'"
proof -
  have sound: "ei_sound (k_ei k)" using assms by (simp add: plasma_good_def)
  have on_base: "plasma_keeps k (k_on_base f k)" if "base_step (k_base k) (f (k_base k))" for f
    using that by (intro plasma_keeps_base) (simp_all add: k_on_base_def)
  show ?thesis
  proof (cases e)
    case (KEisReply reply)
    then show ?thesis
      by (cases reply) (auto simp: onEisReply_def plasma_keeps_def ei_sound_new)
  next
    case (KEisEvents es)
    then show ?thesis
      using sound ei_sound_onEisReadyRead
      by (cases "k_ei k") (auto simp: plasma_keeps_def)
  next
    case (KInput ev)
    show ?thesis
    proof (cases "k_ei k")
      case (Some c)
      then obtain c' where "ei_sendEvent ev (s_size (k_base k)) (k_mappingId k) c = Some c'" "ei_sound (Some c')"
        using sound ei_sound_sendEvent [of c ev "s_size (k_base k)" "k_mappingId k"] by auto
      then show ?thesis using KInput Some by (auto simp: plasma_sendEvent_def plasma_keeps_def)
    qed (simp add: KInput plasma_sendEvent_def plasma_keeps_def)
  qed (auto simp: stream_events_keep intro: on_base)
qed

text \<open>Every index but a negative one lets the session begin.\<close>

fun sensible :: "monitor_choice \<Rightarrow> bool" where
  "sensible (TheMonitor i) = (0 \<le> i)"
| "sensible _ = True"

lemma plasma_good_begin:
  assumes "sensible m"
  shows "returns_with plasma_good (plasma_begin m active screens)"
proof -
  obtain s where s: "choose_monitor m session_init = Some s" "base_good s"
      "\<forall>i. s_activeStream s = Some i \<longrightarrow> 0 \<le> i"
    using assms by (cases m) (auto simp: choose_monitor_def setActiveStream_def setVirtualMonitor_def
        session_init_def base_good_def)
  then show ?thesis
    by (auto simp: plasma_begin_def plasma_start_def plasma_init_def plasma_good_def set_request_def
        ei_sound_def ei_input_def returns_with_iff split: option.split)
qed

definition of_plasma :: "plasma option \<Rightarrow> session" where
  "of_plasma o' = (case o' of Some k \<Rightarrow> k_base k | None \<Rightarrow> session_init)"

definition plasma_input :: "plasma option \<Rightarrow> ei_out list" where
  "plasma_input o' = (case o' of Some k \<Rightarrow> ei_input (k_ei k) | None \<Rightarrow> [])"

text \<open>A negative index is taken out of the way: what begins is then a session without a monitor.\<close>

definition plasma_begin_at :: "monitor_choice \<Rightarrow> bool \<Rightarrow> screen list \<Rightarrow> plasma option" where
  "plasma_begin_at m active screens = plasma_begin (if sensible m then m else WholeWorkspace) active screens"

interpretation plasma_be: session_backend "lift_step plasma_step" "plasma_begin_at m active screens"
  "\<lambda>_. True" "returns_with plasma_good" of_plasma plasma_input for m active screens
proof unfold_locales
  show "returns_with plasma_good (plasma_begin_at m active screens)"
    unfolding plasma_begin_at_def by (rule plasma_good_begin) simp
  fix e x assume "returns_with plasma_good x"
  then obtain k where k: "x = Some k" "plasma_good k" by (auto simp: returns_with_iff)
  obtain k' where k': "plasma_step e k = Some k'" "plasma_keeps k k'" using plasma_step_keeps [OF k(2)] by blast
  show "returns_with plasma_good (lift_step plasma_step e x)"
    using k k' plasma_good_keeps by simp
  show "(StartedSignal \<in> set (s_log (of_plasma x))) = s_started (of_plasma x)"
    using k by (simp add: of_plasma_def plasma_good_def base_good_def)
  show "s_started (of_plasma (lift_step plasma_step e x))" if "s_started (of_plasma x)"
    using k k' that by (auto simp: of_plasma_def plasma_keeps_def base_step_def plasma_good_def)
  show "s_started (of_plasma x)" if "plasma_input x \<noteq> []"
    using k that by (simp add: of_plasma_def plasma_input_def plasma_good_def)
qed

lemma plasma_begin_negative: "\<not> sensible m \<Longrightarrow> plasma_begin m active screens = None"
  by (cases m) (auto simp: plasma_begin_def choose_monitor_def setActiveStream_def session_init_def
      plasma_start_def plasma_init_def)

lemma lift_step_None [simp]: "fold (lift_step plasma_step) es None = None"
  by (induction es) simp_all


text \<open>The two halves of a serial do not mix.\<close>

lemma object_serial_value: "uint (object_serial hi low) = 2 ^ 32 * uint hi + uint low"
proof -
  have "uint hi < 2 ^ 32" using uint_lt2p [of hi] by simp
  then have "uint (ucast hi :: u64) = uint hi" "take_bit 64 (push_bit 32 (uint hi)) = push_bit 32 (uint hi)"
    by (simp_all add: unsigned_ucast_eq take_bit_int_eq_self_iff push_bit_eq_mult take_bit_eq_mod)
  then have hi: "uint (push_bit 32 (ucast hi :: u64)) = push_bit 32 (uint hi)"
    by (subst unsigned_push_bit_eq) simp_all
  have "and (push_bit 32 (uint hi)) (uint low) = 0"
    by (rule bit_eqI) (auto simp: bit_simps dest: bit_imp_le_length)
  then have "or (push_bit 32 (uint hi)) (uint low) = push_bit 32 (uint hi) + uint low"
    using plus_and_or [of "push_bit 32 (uint hi)" "uint low"] by simp
  moreover have "uint (ucast low :: u64) = uint low"
    using uint_lt2p [of low] by (simp add: unsigned_ucast_eq take_bit_eq_mod)
  ultimately show ?thesis
    unfolding object_serial_def unsigned_or_eq hi by (simp add: push_bit_eq_mult mult.commute)
qed

end
