(* ===== verification/InputPath.thy ===== *)
theory InputPath
  imports InputHandler EiConnection
begin

text \<open>
  Input from the client to the compositor: the input handler of a connection and the libei connection
  of its session, joined as \<open>SessionWrapper\<close> joins them. Every event the handler emits is sent on.
\<close>

definition send_one :: "qsize \<Rightarrow> qstring \<Rightarrow> input_event \<Rightarrow> ei_connection option \<Rightarrow> ei_connection option" where
  "send_one sz k ev o' = Option.bind o' (ei_sendEvent ev sz k)"

definition send_all :: "qsize \<Rightarrow> qstring \<Rightarrow> input_event list \<Rightarrow> ei_connection \<Rightarrow> ei_connection option" where
  "send_all sz k evs c = fold (send_one sz k) evs (Some c)"

text \<open>The keys a compositor that executes the calls has down.\<close>

fun call_effect :: "ei_out \<Rightarrow> u32 set \<Rightarrow> u32 set" where
  "call_effect (KeyboardKey i key press) down = (if press then insert key down else down - {key})"
| "call_effect _ down = down"

definition keys_down :: "ei_out list \<Rightarrow> u32 set" where
  "keys_down xs = fold call_effect xs {}"

lemma keys_down_append: "keys_down (xs @ ys) = fold call_effect ys (keys_down xs)"
  by (simp add: keys_down_def)

text \<open>The handler sends a key by its scan code or by its symbol, never both.\<close>

fun one_code :: "input_event \<Rightarrow> bool" where
  "one_code (QKeyEvent kind sc vk) = (sc = 0 \<or> vk = 0)"
| "one_code _ = True"

lemma input_pdu_step_one_code:
  "list_all one_code (in_log s) \<Longrightarrow> list_all one_code (in_log (snd (input_pdu_step t p s)))"
proof (cases p)
  case (Mouse flags x y)
  have "list_all one_code (wheel_events pos flags)" for pos by (simp add: wheel_events_def Let_def)
  then show "list_all one_code (in_log s) \<Longrightarrow> ?thesis" using Mouse by (simp add: mouseEvent_def Let_def)
next
  case (ExtendedMouse flags x y)
  have "list_all one_code (wheel_events pos fl)" for pos fl by (simp add: wheel_events_def Let_def)
  then show "list_all one_code (in_log s) \<Longrightarrow> ?thesis"
    using ExtendedMouse by (simp add: extendedMouseEvent_def mouseEvent_def Let_def)
qed (auto simp: synchronize_log keyboardEvent_def unicodeKeyboardEvent_def Let_def list_all_iff)

interpretation codes: machine input_step input_init "\<lambda>_. True" "\<lambda>s. list_all one_code (in_log s)"
proof unfold_locales
  show "list_all one_code (in_log input_init)" by (simp add: input_init_def)
  show "list_all one_code (in_log (input_step e s))" if "list_all one_code (in_log s)" for e s
    using that input_pdu_step_one_code by (cases e) simp
qed

section \<open>One event\<close>

text \<open>A connection with a context and a keyboard, in a state it can be in.\<close>

definition keyboard_ready :: "ei_device list \<Rightarrow> ei_device \<Rightarrow> ei_connection \<Rightarrow> bool" where
  "keyboard_ready ds d c \<longleftrightarrow> ei_inv (c, ds) \<and> m_ei c \<and> m_keyboardDevice c = Some d"

lemma keyboard_ready_sends: "keyboard_ready ds d c \<Longrightarrow> sends ds c c' \<Longrightarrow> keyboard_ready ds d c'"
  by (auto simp: keyboard_ready_def sends_def)

lemma other_events_keep_keys:
  assumes "keyboard_ready ds d c" and "ei_sendEvent ev sz k c = Some c'"
    and "\<And>kind sc vk. ev \<noteq> QKeyEvent kind sc vk"
  shows "keys_down (ei_log c') = keys_down (ei_log c)"
proof (cases ev)
  case (QMouseEvent kind pos b)
  show ?thesis
  proof (cases "kind = MouseMove")
    case True
    then show ?thesis
      using assms(2) QMouseEvent
      by (auto simp: send_motion_def keys_down_append split: if_splits option.splits)
  next
    case False
    have "keys_down (ei_log (send_button p b c)) = keys_down (ei_log c)" for p
      by (auto simp: send_button_def keys_down_append split: option.split)
    then show ?thesis using assms(2) QMouseEvent False by (cases kind) auto
  qed
next
  case (QWheelEvent pos pixel angle)
  have "keys_down (ei_log (send_wheel a c)) = keys_down (ei_log c)" for a
    by (simp add: send_wheel_def keys_down_append split: option.split)
  from this [of angle] show ?thesis using assms(2) QWheelEvent by simp
qed (use assms(3) in blast)

lemma event_effect:
  assumes "keyboard_ready ds d c" and "one_code ev"
    and "keys_down (ei_log c) = held - {0}"
  shows "\<exists>c'. ei_sendEvent ev sz k c = Some c' \<and> keyboard_ready ds d c' \<and>
     keys_down (ei_log c') = key_effect ev held - {0}"
proof -
  obtain c' where c': "ei_sendEvent ev sz k c = Some c'" "sends ds c c'"
    using send_event_ok [of c ds ev sz k] assms(1) by (auto simp: keyboard_ready_def)
  have "keys_down (ei_log c') = key_effect ev held - {0}"
  proof (cases "\<exists>kind sc vk. ev = QKeyEvent kind sc vk")
    case True
    then obtain kind sc vk where ev: "ev = QKeyEvent kind sc vk" by blast
    have d: "m_ei c" "m_keyboardDevice c = Some d" using assms(1) by (simp_all add: keyboard_ready_def)
    show ?thesis
    proof (cases "sc = 0")
      case True
      have "keys_down (ei_log c') = keys_down (ei_log c)"
        using c'(1) ev True by (auto simp: send_key_def keys_down_append split: option.splits if_splits)
      then show ?thesis using assms(3) ev True by (auto simp: key_effect_def split: key_type.split)
    next
      case False
      then have "keys_down (ei_log c') = call_effect (KeyboardKey (dev_id d) sc (kind = KeyPress)) (keys_down (ei_log c))"
        using c'(1) ev d by (auto simp: send_key_def keys_down_append)
      moreover have "vk = 0" using assms(2) ev False by simp
      ultimately show ?thesis using assms(3) ev False by (cases kind) (auto simp: key_effect_def)
    qed
  next
    case False
    then have "key_effect ev held = held" by (cases ev) (auto simp: key_effect_def)
    then show ?thesis using other_events_keep_keys [OF assms(1) c'(1)] False assms(3) by auto
  qed
  then show ?thesis using c' keyboard_ready_sends [OF assms(1)] by blast
qed

lemma send_all_effect:
  assumes "keyboard_ready ds d c" and "list_all one_code evs" and "keys_down (ei_log c) = held - {0}"
  shows "\<exists>c'. send_all sz k evs c = Some c' \<and> keyboard_ready ds d c' \<and>
     keys_down (ei_log c') = fold key_effect evs held - {0}"
  using assms
proof (induction evs arbitrary: c held)
  case Nil
  then show ?case by (simp add: send_all_def)
next
  case (Cons ev evs)
  obtain c1 where c1: "ei_sendEvent ev sz k c = Some c1" "keyboard_ready ds d c1"
      "keys_down (ei_log c1) = key_effect ev held - {0}"
    using event_effect [OF Cons.prems(1) _ Cons.prems(3), of ev sz k] Cons.prems(2) by auto
  then show ?case
    using Cons.IH [OF c1(2) _ c1(3)] Cons.prems(2) by (simp add: send_all_def send_one_def)
qed

text \<open>
C11. The keys that are down in the desktop are the keys the client holds. Whatever PDUs a client sends,
sending every event the handler makes of them through a session with a keyboard returns, and leaves the
compositor with exactly the keys down that the handler counts as pressed (key code 0, which no table
means, is not sent); so a synchronize PDU at the end leaves none.
\<close>

theorem desktop_keys_match_handler:
  assumes "keyboard_ready ds d c" and "ei_log c = []" and "list_all tables_ok ps"
  shows "\<exists>c'. send_all sz k (in_log (input_run ps)) c = Some c' \<and>
     keys_down (ei_log c') = set (pressedKeys (input_run ps)) - {0}"
proof -
  have "list_all one_code (in_log (input_run ps))"
    unfolding input_run_def by (rule codes.inv_reach) (simp add: list_all_iff)
  then obtain c' where "send_all sz k (in_log (input_run ps)) c = Some c'"
      "keys_down (ei_log c') = fold key_effect (in_log (input_run ps)) {} - {0}"
    using send_all_effect [of ds d c "in_log (input_run ps)" "{}" sz k] assms(1,2) by (auto simp: keys_down_def)
  moreover have "keys_tracked (input_run ps)"
    unfolding input_run_def by (rule keys.inv_reach) (rule assms(3))
  ultimately show ?thesis by (simp add: keys_tracked_def held_keys_def)
qed

definition demo_keyboard :: ei_device where
  "demo_keyboard = \<lparr>dev_id = 7, dev_caps = [CapKeyboard], dev_regions = []\<rparr>"

definition demo_keyboard_connection :: ei_connection where
  "demo_keyboard_connection = \<lparr>m_ei = True, m_pointerDevices = [], m_keyboardDevice = Some demo_keyboard,
     m_textDevice = None, ei_log = []\<rparr>"

theorem desktop_keys_match_handler_witness:
  "\<exists>c'. send_all \<lparr>width = 1920, height = 1080\<rparr> []
       (in_log (input_run [(plain_tables, Keyboard 0 30), (plain_tables, Keyboard 0 31),
          (plain_tables, Keyboard 0x8000 30)])) demo_keyboard_connection = Some c' \<and>
     keys_down (ei_log c') = {40}"
proof -
  let ?ps = "[(plain_tables, Keyboard 0 30), (plain_tables, Keyboard 0 31), (plain_tables, Keyboard 0x8000 30)]"
  have "keyboard_ready [demo_keyboard] demo_keyboard demo_keyboard_connection"
    by (simp add: keyboard_ready_def demo_keyboard_connection_def ei_inv_def fine_device_def demo_keyboard_def
        has_cap_def)
  moreover have "ei_log demo_keyboard_connection = []" by (simp add: demo_keyboard_connection_def)
  moreover have "list_all tables_ok ?ps" by (simp add: tables_ok_def plain_tables_def iteration_order_id)
  moreover have "set (pressedKeys (input_run ?ps)) = {40}"
    by (simp add: plain_tables_def input_run_def keyboardEvent_def Let_def
      key_type_of_def has_flag_def input_flags evdev_keycode_def input_init_def)
  ultimately show ?thesis
    using desktop_keys_match_handler [of "[demo_keyboard]" demo_keyboard demo_keyboard_connection ?ps
      "\<lparr>width = 1920, height = 1080\<rparr>" "[]"] by simp
qed

end
