(* ===== verification/VideoSource.thy ===== *)
theory VideoSource
  imports VideoStream
begin

text \<open>
  What KPipeWire's two streams have been told, whatever the order in which the codec is negotiated
  (\<open>VideoStreamSurface::setActiveEncodingMode\<close>), the session's source arrives
  (\<open>setPipeWireSource\<close>), streaming is switched (\<open>setStreamingEnabled\<close>) and the client's size
  comes (\<open>setRequestedSize\<close>): each operation tells an existing stream what is new and keeps it for a
  stream that is made later. The state of a stream is read off the log of the calls to it.
\<close>

section \<open>What the streams have been told\<close>

record enc_view =
  ev_size :: "qsize option"
  ev_source :: "(u64 \<times> u32) option"
  ev_fd :: "int option"
  ev_on :: bool

definition enc_none :: enc_view where
  "enc_none = \<lparr>ev_size = None, ev_source = None, ev_fd = None, ev_on = False\<rparr>"

fun enc_listen :: "video_out \<Rightarrow> enc_view \<Rightarrow> enc_view" where
  "enc_listen (EncNew q hz) v = enc_none"
| "enc_listen (EncSetRequestedSize sz) v = v\<lparr>ev_size := Some sz\<rparr>"
| "enc_listen (EncSetSource serial node) v = v\<lparr>ev_source := Some (serial, node)\<rparr>"
| "enc_listen (EncSetFd fd) v = v\<lparr>ev_fd := Some fd\<rparr>"
| "enc_listen EncStart v = v\<lparr>ev_on := True\<rparr>"
| "enc_listen EncResume v = v\<lparr>ev_on := True\<rparr>"
| "enc_listen EncPause v = v\<lparr>ev_on := False\<rparr>"
| "enc_listen EncStop v = v\<lparr>ev_on := False\<rparr>"
| "enc_listen _ v = v"

record src_view =
  sv_size :: "qsize option"
  sv_created :: "video_out option"
  sv_on :: bool

definition src_none :: src_view where
  "src_none = \<lparr>sv_size = None, sv_created = None, sv_on = False\<rparr>"

fun src_listen :: "video_out \<Rightarrow> src_view \<Rightarrow> src_view" where
  "src_listen (SrcNew hz) v = src_none"
| "src_listen (SrcSetRequestedSize sz) v = v\<lparr>sv_size := Some sz\<rparr>"
| "src_listen (SrcCreateBySerial serial fd) v = v\<lparr>sv_created := Some (SrcCreateBySerial serial fd)\<rparr>"
| "src_listen (SrcCreateByNode node fd) v = v\<lparr>sv_created := Some (SrcCreateByNode node fd)\<rparr>"
| "src_listen (SrcSetActive on) v = v\<lparr>sv_on := on\<rparr>"
| "src_listen SrcStop v = v\<lparr>sv_on := False\<rparr>"
| "src_listen _ v = v"

definition enc_told :: "video_stream \<Rightarrow> enc_view" where
  "enc_told s = fold enc_listen (vs_log s) enc_none"

definition src_told :: "video_stream \<Rightarrow> src_view" where
  "src_told s = fold src_listen (vs_log s) src_none"

definition wanted :: "video_stream \<Rightarrow> bool" where
  "wanted s \<longleftrightarrow> streamingEnabled s \<and> nodeId (surf s) \<noteq> 0"

text \<open>The stream was closed, or its source could not be opened and the session was told to close.\<close>

definition gave_up :: "video_stream \<Rightarrow> bool" where
  "gave_up s \<longleftrightarrow> StreamClosed \<in> set (vs_log s) \<or> SessionClose VideoInitFailed \<in> set (vs_log s)"

definition encoder_told :: "video_stream \<Rightarrow> bool" where
  "encoder_told s \<longleftrightarrow> ev_on (enc_told s) = wanted s \<and>
     (nodeId (surf s) \<noteq> 0 \<longrightarrow> ev_source (enc_told s) = Some (objectSerial (surf s), nodeId (surf s))) \<and>
     (nodeId (surf s) \<noteq> 0 \<and> pipeWireFd (surf s) > 0 \<longrightarrow> ev_fd (enc_told s) = Some (pipeWireFd (surf s))) \<and>
     (qsize_isValid (requestedSize (surf s)) \<longrightarrow> ev_size (enc_told s) = Some (requestedSize (surf s)))"

definition source_told :: "video_stream \<Rightarrow> bool" where
  "source_told s \<longleftrightarrow> sv_on (src_told s) = wanted s \<and>
     (nodeId (surf s) \<noteq> 0 \<and> pipeWireFd (surf s) \<noteq> 0 \<longrightarrow>
        sv_created (src_told s) = Some (create_call (surf s) (pipeWireFd (surf s)))) \<and>
     (qsize_isValid (requestedSize (surf s)) \<longrightarrow> sv_size (src_told s) = Some (requestedSize (surf s)))"

definition streams_told :: "video_stream \<Rightarrow> bool" where
  "streams_told s \<longleftrightarrow> gave_up s \<or>
     (encodedStream (surf s) = (activeEncodingMode s = Some H264) \<and>
      sourceStream (surf s) = (activeEncodingMode s = Some Progressive) \<and>
      (encodedStream (surf s) \<longrightarrow> encoder_told s) \<and> (sourceStream (surf s) \<longrightarrow> source_told s))"

section \<open>Operations aside\<close>

definition elsewhere :: "video_out \<Rightarrow> bool" where
  "elsewhere x \<longleftrightarrow> (\<forall>v. enc_listen x v = v) \<and> (\<forall>v. src_listen x v = v)"

definition aside :: "video_stream \<Rightarrow> video_stream \<Rightarrow> bool" where
  "aside s s' \<longleftrightarrow> encodedStream (surf s') = encodedStream (surf s) \<and>
     sourceStream (surf s') = sourceStream (surf s) \<and> nodeId (surf s') = nodeId (surf s) \<and>
     pipeWireFd (surf s') = pipeWireFd (surf s) \<and> objectSerial (surf s') = objectSerial (surf s) \<and>
     requestedSize (surf s') = requestedSize (surf s) \<and> streamingEnabled s' = streamingEnabled s \<and>
     activeEncodingMode s' = activeEncodingMode s \<and> vs_enabled s' = vs_enabled s \<and>
     (\<exists>xs. vs_log s' = vs_log s @ xs \<and> list_all elsewhere xs)"

lemma fold_elsewhere:
  "list_all elsewhere xs \<Longrightarrow> fold enc_listen xs v = v" "list_all elsewhere xs \<Longrightarrow> fold src_listen xs w = w"
  by (induction xs) (simp_all add: elsewhere_def)

lemma told_append:
  "vs_log s' = vs_log s @ xs \<Longrightarrow> enc_told s' = fold enc_listen xs (enc_told s)"
  "vs_log s' = vs_log s @ xs \<Longrightarrow> src_told s' = fold src_listen xs (src_told s)"
  by (simp_all add: enc_told_def src_told_def)

lemma streams_told_aside:
  assumes "aside s s'" and "streams_told s" shows "streams_told s'"
proof -
  obtain xs where xs: "vs_log s' = vs_log s @ xs" "list_all elsewhere xs"
    using assms(1) by (auto simp: aside_def)
  then have "enc_told s' = enc_told s" "src_told s' = src_told s"
    using told_append [OF xs(1)] fold_elsewhere [OF xs(2)] by simp_all
  moreover have "gave_up s \<Longrightarrow> gave_up s'" using xs(1) by (auto simp: gave_up_def)
  moreover have "wanted s' = wanted s" "create_call (surf s') = create_call (surf s)"
    using assms(1) by (auto simp: aside_def wanted_def create_call_def fun_eq_iff)
  moreover have "encodedStream (surf s') = encodedStream (surf s)" "sourceStream (surf s') = sourceStream (surf s)"
      "nodeId (surf s') = nodeId (surf s)" "pipeWireFd (surf s') = pipeWireFd (surf s)"
      "objectSerial (surf s') = objectSerial (surf s)" "requestedSize (surf s') = requestedSize (surf s)"
      "activeEncodingMode s' = activeEncodingMode s"
    using assms(1) by (simp_all add: aside_def)
  ultimately show ?thesis
    using assms(2) unfolding streams_told_def encoder_told_def source_told_def by metis
qed

lemma elsewhere_simps [simp]:
  "elsewhere (EncSetQuality q)" "elsewhere (EncSetPaused b)" "elsewhere (SessionClose cr)"
  "elsewhere (SizeChanged sz)" "elsewhere EnabledChanged" "elsewhere StreamClosed"
  "elsewhere QueueUpdateBackpressure" "elsewhere GfxInitialize" "elsewhere GfxOpen" "elsewhere GfxClose"
  "elsewhere (CapsConfirm cs)" "elsewhere (ResetGraphics w h)" "elsewhere (CreateSurface sid w h b)"
  "elsewhere (MapSurfaceToOutput sid)" "elsewhere (DeleteEncodingContext sid cid)" "elsewhere (DeleteSurface sid)"
  "elsewhere (ProgressiveCreate sid w h b)" "elsewhere (ProgressiveDelete sid)" "elsewhere (DesktopResize w h)"
  "elsewhere (StartFrame t fid b)" "elsewhere (SurfaceCommand sid cd wh bytes rects)" "elsewhere (EndFrame fid)"
  "elsewhere (SurfaceFrameCommand sid ctx ext wh bytes t fid)"
  by (simp_all add: elsewhere_def)

lemma aside_refl [simp]: "aside s s"
  by (simp add: aside_def)

lemma aside_trans: "aside s t \<Longrightarrow> aside t u \<Longrightarrow> aside s u"
  by (auto simp: aside_def)

named_theorems aside_intros

lemma aside_emitI [aside_intros]: "aside s t \<Longrightarrow> list_all elsewhere xs \<Longrightarrow> aside s (vs_emit xs t)"
  by (auto simp: aside_def vs_emit_def)

lemma aside_surfI [aside_intros]:
  "aside s t \<Longrightarrow> aside s (upd_surf (\<lambda>v. v\<lparr>pendingReset := b\<rparr>) t)"
  "aside s t \<Longrightarrow> aside s (upd_surf (\<lambda>v. v\<lparr>surface := sf\<rparr>) t)"
  "aside s t \<Longrightarrow> aside s (upd_surf (\<lambda>v. v\<lparr>surface := g v\<rparr>) t)"
  "aside s t \<Longrightarrow> aside s (upd_surf (\<lambda>v. v\<lparr>vsize := sz\<rparr>) t)"
  by (simp_all add: aside_def upd_surf_def)

lemma aside_updates [aside_intros]:
  "aside s t \<Longrightarrow> aside s (t\<lparr>frameQueue := q\<rparr>)" "aside s t \<Longrightarrow> aside s (t\<lparr>pendingFrames := fs\<rparr>)"
  "aside s t \<Longrightarrow> aside s (t\<lparr>frameAcknowledgementSuspended := b\<rparr>)"
  "aside s t \<Longrightarrow> aside s (t\<lparr>rate := r\<rparr>)" "aside s t \<Longrightarrow> aside s (t\<lparr>qual := ql\<rparr>)"
  "aside s t \<Longrightarrow> aside s (t\<lparr>frameId := fid\<rparr>)" "aside s t \<Longrightarrow> aside s (t\<lparr>channelId := cid\<rparr>)"
  "aside s t \<Longrightarrow> aside s (t\<lparr>channelOpen := b\<rparr>)"
  "aside s t \<Longrightarrow> aside s (t\<lparr>capsConfirmed := b\<rparr>)" "aside s t \<Longrightarrow> aside s (t\<lparr>progressive := b\<rparr>)"
  "aside s t \<Longrightarrow> aside s (t\<lparr>frameSubmissionThread := b\<rparr>)" "aside s t \<Longrightarrow> aside s (t\<lparr>gfxContext := b\<rparr>)"
  "aside s t \<Longrightarrow> aside s (t\<lparr>initialized := b\<rparr>)" "aside s t \<Longrightarrow> aside s (t\<lparr>nextSurfaceId := i\<rparr>)"
  by (simp_all add: aside_def)

lemma aside_surface [aside_intros]:
  "aside s t \<Longrightarrow> aside s (setSize sz t)" "aside s t \<Longrightarrow> aside s (failVideoInitialization t)"
  "aside s t \<Longrightarrow> aside s (destroySurface t)"
  unfolding setSize_def failVideoInitialization_def destroySurface_def Let_def
  by (auto intro!: aside_intros)

lemma aside_map_surface [aside_intros]: "aside s t \<Longrightarrow> aside s (map_surface a sid t)"
  unfolding map_surface_def Let_def by (auto intro!: aside_intros)

lemma aside_performReset [aside_intros]: "aside s t \<Longrightarrow> aside s (performReset a sz t)"
  unfolding performReset_def Let_def by (auto intro!: aside_intros)

lemma aside_on_quality [aside_intros]: "aside s t \<Longrightarrow> aside s (on_quality f t)"
  unfolding on_quality_def Let_def applyQuality_def surface_setVideoQuality_def
  by (auto intro!: aside_intros split: prod.split)

lemma aside_frames [aside_intros]:
  "aside s t \<Longrightarrow> aside s (updateBackpressure paused t)" "aside s t \<Longrightarrow> aside s (enqueue f t)"
  unfolding updateBackpressure_def enqueue_def Let_def
  by (auto intro!: aside_intros split: option.split encoding_mode.split)

lemma aside_sending [aside_intros]:
  "aside s t \<Longrightarrow> aside s (finish_frame fid submitted t)" "aside s t \<Longrightarrow> aside s (snd (register_frame t))"
  "aside s t \<Longrightarrow> aside s (snd (sendFrameH264 now ans fid f t))"
  "aside s t \<Longrightarrow> aside s (snd (sendFrameProgressive rects lib cmpr now fid f t))"
  unfolding finish_frame_def register_frame_def sendFrameH264_def sendFrameProgressive_def Let_def
  by (auto intro!: aside_intros split: option.split)

lemma aside_sendFrame [aside_intros]:
  assumes "aside s t" shows "aside s (sendFrame env f t)"
proof (cases "sendFrame_prepare env f t")
  case (Some t1)
  have "aside s t1"
    using Some assms unfolding sendFrame_prepare_def Let_def by (auto split: if_splits intro!: aside_intros)
  moreover obtain fid t2 where r: "register_frame t1 = (fid, t2)" by (cases "register_frame t1")
  ultimately have "aside s t2" using aside_sending(2) [of s t1] by simp
  then have "aside s (snd (submit_frame env fid f t2))"
    unfolding submit_frame_def by (auto intro!: aside_intros)
  then show ?thesis
    using Some r by (auto simp: sendFrame_def split: prod.split intro!: aside_intros)
qed (use assms in \<open>simp add: sendFrame_def\<close>)

lemma aside_submission_round [aside_intros]: "aside s t \<Longrightarrow> aside s (submission_round env t)"
  unfolding submission_round_def by (auto intro!: aside_intros split: list.split)

lemma aside_callbacks [aside_intros]:
  "aside s t \<Longrightarrow> aside s (queueFrame st paused f t)"
  "aside s t \<Longrightarrow> aside s (snd (onFrameAcknowledge fid depth t))"
  "aside s t \<Longrightarrow> aside s (snd (openChannel b t))"
  "aside s t \<Longrightarrow> aside s (snd (onChannelIdAssigned cid t))"
  unfolding queueFrame_def onFrameAcknowledge_def openChannel_def onChannelIdAssigned_def Let_def
  by (auto intro!: aside_intros)

lemma aside_setters [aside_intros]:
  "aside s t \<Longrightarrow> aside s (stream_reset t)"
  "aside s t \<Longrightarrow> aside s (stream_seedQuality q t)"
  "aside s t \<Longrightarrow> aside s (stream_updateAdaptiveQuality g now avg mn t)"
  unfolding stream_reset_def stream_seedQuality_def stream_updateAdaptiveQuality_def
  by (auto intro!: aside_intros)

section \<open>Operations on the streams\<close>

lemma gave_up_emit [simp]:
  "gave_up (vs_emit xs s) \<longleftrightarrow>
     gave_up s \<or> StreamClosed \<in> set xs \<or> SessionClose VideoInitFailed \<in> set xs"
  by (auto simp: gave_up_def)

lemma told_emit [simp]:
  "enc_told (vs_emit xs s) = fold enc_listen xs (enc_told s)"
  "src_told (vs_emit xs s) = fold src_listen xs (src_told s)"
  by (simp_all add: enc_told_def src_told_def)

lemma told_upd [simp]:
  "enc_told (upd_surf f s) = enc_told s" "src_told (upd_surf f s) = src_told s"
  "gave_up (upd_surf f s) = gave_up s"
  by (simp_all add: enc_told_def src_told_def gave_up_def)

lemma told_fields [simp]:
  "enc_told (s\<lparr>frameQueue := q\<rparr>) = enc_told s" "src_told (s\<lparr>frameQueue := q\<rparr>) = src_told s"
  "enc_told (s\<lparr>activeEncodingMode := m\<rparr>) = enc_told s" "src_told (s\<lparr>activeEncodingMode := m\<rparr>) = src_told s"
  "enc_told (s\<lparr>streamingEnabled := b\<rparr>) = enc_told s" "src_told (s\<lparr>streamingEnabled := b\<rparr>) = src_told s"
  "gave_up (s\<lparr>frameQueue := q\<rparr>) = gave_up s" "gave_up (s\<lparr>activeEncodingMode := m\<rparr>) = gave_up s"
  "gave_up (s\<lparr>streamingEnabled := b\<rparr>) = gave_up s"
  by (simp_all add: enc_told_def src_told_def gave_up_def)

lemma streaming_kept [simp]:
  "streamingEnabled (vs_emit xs s) = streamingEnabled s" "streamingEnabled (upd_surf f s) = streamingEnabled s"
  by (simp_all add: vs_emit_def upd_surf_def)

lemmas told_defs = streams_told_def encoder_told_def source_told_def wanted_def enc_none_def src_none_def

lemma create_call_listen [simp]:
  "enc_listen (create_call v fd) w = w" "src_listen (create_call v fd) u = u\<lparr>sv_created := Some (create_call v fd)\<rparr>"
  "create_call v fd \<noteq> StreamClosed" "StreamClosed \<noteq> create_call v fd"
  "create_call v fd \<noteq> SessionClose cr" "SessionClose cr \<noteq> create_call v fd"
  by (simp_all add: create_call_def)

lemma gave_up_told: "gave_up s \<Longrightarrow> streams_told s"
  by (simp add: streams_told_def)

lemma streams_told_size:
  assumes "streams_told s" shows "streams_told (surface_setRequestedSize sz s)"
proof (cases "gave_up s")
  case True
  then show ?thesis by (auto simp: surface_setRequestedSize_def Let_def intro!: gave_up_told)
next
  case False
  then have "\<not> (encodedStream (surf s) \<and> sourceStream (surf s))"
    using assms by (auto simp: streams_told_def)
  then show ?thesis
    using False assms
    by (cases "encodedStream (surf s)"; cases "sourceStream (surf s)")
      (simp_all add: surface_setRequestedSize_def Let_def told_defs create_call_def)
qed

lemma streams_told_setSize: "streams_told s \<Longrightarrow> streams_told (setSize sz s)"
  by (rule streams_told_aside [OF aside_surface(1) [OF aside_refl]])

lemma streams_told_streaming:
  assumes "streams_told s" shows "streams_told (stream_setStreamingEnabled paused on s)"
proof (cases "gave_up s")
  case True
  then show ?thesis
    by (auto simp: stream_setStreamingEnabled_def surface_setStreamingEnabled_def Let_def intro!: gave_up_told)
next
  case False
  then have "\<not> (encodedStream (surf s) \<and> sourceStream (surf s))"
    using assms by (auto simp: streams_told_def)
  then show ?thesis
    using False assms
    by (cases "encodedStream (surf s)"; cases "sourceStream (surf s)")
      (simp_all add: stream_setStreamingEnabled_def surface_setStreamingEnabled_def Let_def told_defs create_call_def)
qed

lemma streams_told_source:
  assumes "streams_told s" and "node \<noteq> 0"
  shows "streams_told (surface_setPipeWireSource created sz node serial fd s)"
proof (cases "gave_up s")
  case True
  then show ?thesis
    by (auto simp: surface_setPipeWireSource_def Let_def setSize_def failVideoInitialization_def intro!: gave_up_told)
next
  case False
  define t where "t = upd_surf (\<lambda>v. v\<lparr>nodeId := node, objectSerial := serial, pipeWireFd := fd\<rparr>) s"
  have mode: "encodedStream (surf t) = (activeEncodingMode t = Some H264)"
      "sourceStream (surf t) = (activeEncodingMode t = Some Progressive)"
    using assms(1) False by (simp_all add: t_def streams_told_def)
  have size: "qsize_isValid (requestedSize (surf t)) \<Longrightarrow> encodedStream (surf t) \<Longrightarrow>
        ev_size (enc_told t) = Some (requestedSize (surf t))"
      "qsize_isValid (requestedSize (surf t)) \<Longrightarrow> sourceStream (surf t) \<Longrightarrow>
        sv_size (src_told t) = Some (requestedSize (surf t))"
      "encodedStream (surf t) \<Longrightarrow> \<not> streamingEnabled t \<Longrightarrow> \<not> ev_on (enc_told t)"
    using assms(1) False by (simp_all add: t_def streams_told_def encoder_told_def source_told_def wanted_def)
  have node: "nodeId (surf t) = node" "objectSerial (surf t) = serial" "pipeWireFd (surf t) = fd"
    by (simp_all add: t_def)
  show ?thesis
  proof (cases "encodedStream (surf t)")
    case True
    then show ?thesis
      using mode size node assms(2) unfolding surface_setPipeWireSource_def Let_def t_def [symmetric]
      by (simp add: streams_told_def encoder_told_def wanted_def)
  next
    case no_encoder: False
    show ?thesis
    proof (cases "sourceStream (surf t)")
      case True
      then show ?thesis
        using no_encoder mode size node assms(2) unfolding surface_setPipeWireSource_def Let_def t_def [symmetric]
        by (simp add: streams_told_def source_told_def wanted_def setSize_def failVideoInitialization_def create_call_def)
    next
      case False
      then show ?thesis
        using no_encoder mode unfolding surface_setPipeWireSource_def Let_def t_def [symmetric]
        by (simp add: streams_told_def)
    qed
  qed
qed

lemma drop_streams_fields [simp]:
  "encodedStream (surf (drop_streams s)) = False" "sourceStream (surf (drop_streams s)) = False"
  "nodeId (surf (drop_streams s)) = nodeId (surf s)" "objectSerial (surf (drop_streams s)) = objectSerial (surf s)"
  "pipeWireFd (surf (drop_streams s)) = pipeWireFd (surf s)"
  "requestedSize (surf (drop_streams s)) = requestedSize (surf s)"
  "streamingEnabled (drop_streams s) = streamingEnabled s" "gave_up (drop_streams s) = gave_up s"
  by (simp_all add: drop_streams_def Let_def)

lemma setup_encoded_told:
  "encoder_told (setup_encoded q hz s)"
  by (simp add: setup_encoded_def Let_def told_defs)

lemma setup_source_told:
  "gave_up (setup_source created sz hz s) \<or> source_told (setup_source created sz hz s)"
  by (simp add: setup_source_def Let_def told_defs failVideoInitialization_def create_call_def)

lemma setup_fields [simp]:
  "encodedStream (surf (setup_encoded q hz s))" "sourceStream (surf (setup_encoded q hz s)) = sourceStream (surf s)"
  "sourceStream (surf (setup_source created sz hz s))"
  "encodedStream (surf (setup_source created sz hz s)) = encodedStream (surf s)"
  "gave_up (setup_encoded q hz s) = gave_up s" "gave_up s \<Longrightarrow> gave_up (setup_source created sz hz s)"
  by (simp_all add: setup_encoded_def setup_source_def failVideoInitialization_def Let_def)

lemma streams_told_mode:
  assumes "streams_told s"
  shows "streams_told (stream_setActiveEncodingMode created sz mode s)"
proof (cases "activeEncodingMode s = Some mode")
  case False
  define t where "t = drop_streams (s\<lparr>frameQueue := []\<rparr>)"
  let ?q = "quality (qual s)" and ?hz = "requestedFrameRate (rate s)"
  have told: "encoder_told (u\<lparr>activeEncodingMode := m\<rparr>) = encoder_told u"
    "source_told (u\<lparr>activeEncodingMode := m\<rparr>) = source_told u" for u m
    by (simp_all add: told_defs)
  have "streams_told ((if mode = H264 then setup_encoded ?q ?hz t else setup_source created sz ?hz t)
      \<lparr>activeEncodingMode := Some mode\<rparr>)"
  proof (cases mode)
    case H264
    then show ?thesis using setup_encoded_told [of ?q ?hz t] by (simp add: streams_told_def told t_def)
  next
    case Progressive
    then show ?thesis using setup_source_told [of created sz ?hz t] by (auto simp: streams_told_def told t_def)
  qed
  then show ?thesis
    using False
    by (cases mode) (simp_all add: stream_setActiveEncodingMode_def surface_setActiveEncodingMode_def t_def Let_def)
qed (use assms in \<open>simp add: stream_setActiveEncodingMode_def\<close>)

text \<open>Sources with node 0 do not exist in PipeWire, and no session announces one.\<close>

fun real_source :: "'r vs_event \<Rightarrow> bool" where
  "real_source (SetPipeWireSource created sz node serial fd) = (node \<noteq> 0)"
| "real_source _ = True"

lemma streams_told_caps:
  assumes "streams_told s" shows "streams_told (snd (onCapsAdvertise no_avc created sz st caps s))"
proof -
  define s1 where "s1 = (if capsConfirmed s
      then destroySurface (upd_surf (\<lambda>v. v\<lparr>pendingReset := True\<rparr>) (s\<lparr>capsConfirmed := False\<rparr>)) else s)"
  have "aside s s1" unfolding s1_def by (auto intro!: aside_intros)
  then have 1: "streams_told s1" using assms streams_told_aside by blast
  have 2: "streams_told u" if "aside (stream_setActiveEncodingMode created sz mode s1) u" for mode u
    using streams_told_aside [OF that] streams_told_mode [OF 1] by blast
  have 3: "streams_told u" if "aside s1 u" for u using streams_told_aside [OF that 1] .
  show ?thesis
  proof (cases "negotiated_mode no_avc caps")
    case None
    then show ?thesis
      unfolding onCapsAdvertise_def Let_def s1_def [symmetric] by (auto intro!: 3 aside_intros)
  next
    case (Some mode)
    then show ?thesis
      unfolding onCapsAdvertise_def Let_def s1_def [symmetric]
      by (auto split: option.split intro!: 2 [of mode] aside_intros)
  qed
qed

lemma streams_told_initialize:
  assumes "streams_told s" shows "streams_told (snd (stream_initialize cn gi pn w h s))"
proof -
  define s2 where "s2 = (vs_emit [GfxInitialize] (s\<lparr>gfxContext := True\<rparr>))\<lparr>progressive := True\<rparr>"
  define cs where "cs = \<lparr>width = to_int32 (uint w), height = to_int32 (uint h)\<rparr>"
  define s3 where "s3 = (if \<not> qsize_isValid (requestedSize (surf s2)) \<and> \<not> qsize_isEmpty cs
      then surface_setRequestedSize cs s2 else s2)"
  have a: "streams_told u" if "aside s u" for u using streams_told_aside [OF that assms] .
  have "streams_told s2" unfolding s2_def by (rule a) (auto intro!: aside_intros)
  then have "streams_told s3" unfolding s3_def using streams_told_size by auto
  then have 3: "streams_told (s3\<lparr>initialized := True, frameSubmissionThread := True\<rparr>)"
    by (rule streams_told_aside [rotated]) (auto intro!: aside_intros)
  show ?thesis
    unfolding stream_initialize_def Let_def s2_def [symmetric] cs_def [symmetric] s3_def [symmetric]
    by (auto intro!: a aside_intros assms 3)
qed

lemma streams_told_enabled:
  assumes "streams_told s" shows "streams_told (stream_setEnabled on s)"
proof -
  have "streams_told (t\<lparr>vs_enabled := b\<rparr>) = streams_told t" for t b
    by (simp add: told_defs gave_up_def enc_told_def src_told_def)
  moreover have "streams_told (vs_emit [EnabledChanged] t)" if "streams_told t" for t
    using that by (rule streams_told_aside [rotated]) (auto intro!: aside_intros)
  ultimately show ?thesis using assms by (simp add: stream_setEnabled_def)
qed

lemma vs_step_told:
  assumes told: "streams_told s" and "real_source e" shows "streams_told (vs_step e s)"
proof (cases e)
  case (VsInitialize cn gi pn w h)
  then show ?thesis using streams_told_initialize [OF told] by simp
next
  case VsClose
  then show ?thesis by (auto simp: stream_close_def Let_def intro!: gave_up_told)
next
  case (CapsAdvertise no_avc created sz st caps)
  then show ?thesis using streams_told_caps [OF told] by simp
next
  case (SetStreamingEnabled paused on)
  then show ?thesis using streams_told_streaming [OF told] by simp
next
  case (SetEnabled on)
  then show ?thesis using streams_told_enabled [OF told] by simp
next
  case (SetRequestedSize sz)
  then show ?thesis using streams_told_size [OF told] by simp
next
  case (SetPipeWireSource created sz node serial fd)
  then show ?thesis using streams_told_source [OF told] assms(2) by simp
qed (auto intro!: streams_told_aside [OF _ told] aside_intros)

lemma stream_init_told: "streams_told stream_init"
  by (simp add: streams_told_def stream_init_def surface_init_def)

interpretation streams: machine vs_step stream_init real_source streams_told
  by unfold_locales (auto intro: vs_step_told stream_init_told)

section \<open>Entry points of the stream\<close>

text \<open>
  The slot the constructor connects to the display control's signal, the calls of the session wrapper,
  and the frames KPipeWire delivers.
\<close>

definition stream_setRequestedSize :: "qsize \<Rightarrow> video_stream \<Rightarrow> video_stream" where
  "stream_setRequestedSize sz s = surface_setRequestedSize sz s"

definition stream_onDisplayLayoutChanged :: "virtual_monitor list \<Rightarrow> video_stream \<Rightarrow> video_stream" where
  "stream_onDisplayLayoutChanged displays s =
     (case displays of [] \<Rightarrow> s | d # _ \<Rightarrow> stream_setRequestedSize (mon_size d) s)"

definition stream_setPipeWireSource ::
  "bool \<Rightarrow> qsize \<Rightarrow> u32 \<Rightarrow> u64 \<Rightarrow> int \<Rightarrow> video_stream \<Rightarrow> video_stream" where
  "stream_setPipeWireSource created sourceSize node serial fd s =
     surface_setPipeWireSource created sourceSize node serial fd s"

definition stream_onPacketReceived :: "conn_state \<Rightarrow> bool \<Rightarrow> packet \<Rightarrow> video_stream \<Rightarrow> video_stream" where
  "stream_onPacketReceived st paused data s = queueFrame st paused (onPacketReceived data s) s"

definition stream_onFrameReceived ::
  "conn_state \<Rightarrow> bool \<Rightarrow> qimage option \<Rightarrow> pipewire_frame \<Rightarrow> video_stream \<Rightarrow> video_stream" where
  "stream_onFrameReceived st paused download data s =
     (case onFrameReceived download data of None \<Rightarrow> s | Some f \<Rightarrow> queueFrame st paused f s)"

text \<open>The value of \<open>KRDP_DISABLE_H264\<close>, 0 when it is not set or not a number, decides once and for all.\<close>

definition h264Disabled :: "int \<Rightarrow> bool" where
  "h264Disabled env_value \<longleftrightarrow> env_value \<noteq> 0"

text \<open>The names in the log messages.\<close>

definition encodingModeName :: "encoding_mode \<Rightarrow> string" where
  "encodingModeName mode = (case mode of H264 \<Rightarrow> ''h264'' | Progressive \<Rightarrow> ''progressive'')"

definition capVersionToString :: "u32 \<Rightarrow> string" where
  "capVersionToString version =
     (if version = RDPGFX_CAPVERSION_107 then ''RDPGFX_CAPVERSION_107''
      else if version = RDPGFX_CAPVERSION_106 then ''RDPGFX_CAPVERSION_106''
      else if version = RDPGFX_CAPVERSION_105 then ''RDPGFX_CAPVERSION_105''
      else if version = RDPGFX_CAPVERSION_104 then ''RDPGFX_CAPVERSION_104''
      else if version = RDPGFX_CAPVERSION_103 then ''RDPGFX_CAPVERSION_103''
      else if version = RDPGFX_CAPVERSION_102 then ''RDPGFX_CAPVERSION_102''
      else if version = RDPGFX_CAPVERSION_101 then ''RDPGFX_CAPVERSION_101''
      else if version = RDPGFX_CAPVERSION_10 then ''RDPGFX_CAPVERSION_10''
      else if version = RDPGFX_CAPVERSION_81 then ''RDPGFX_CAPVERSION_81''
      else if version = RDPGFX_CAPVERSION_8 then ''RDPGFX_CAPVERSION_8''
      else ''UNKNOWN_VERSION'')"

lemma aside_entries [aside_intros]:
  "aside s t \<Longrightarrow> aside s (stream_onPacketReceived st paused data t)"
  "aside s t \<Longrightarrow> aside s (stream_onFrameReceived st paused download raw t)"
  unfolding stream_onPacketReceived_def stream_onFrameReceived_def
  by (auto intro!: aside_intros split: option.split)

section \<open>What an operation leaves alone\<close>

text \<open>
  What only the session and the client decide: the size asked for, the source, whether the client wants
  a picture and whether to stream.
\<close>

lemma enabled_kept [simp]:
  "vs_enabled (vs_emit xs s) = vs_enabled s" "vs_enabled (upd_surf f s) = vs_enabled s"
  by (simp_all add: vs_emit_def upd_surf_def)

definition same_request :: "video_stream \<Rightarrow> video_stream \<Rightarrow> bool" where
  "same_request s s' \<longleftrightarrow> requestedSize (surf s') = requestedSize (surf s) \<and>
     nodeId (surf s') = nodeId (surf s) \<and> objectSerial (surf s') = objectSerial (surf s) \<and>
     streamingEnabled s' = streamingEnabled s \<and> vs_enabled s' = vs_enabled s"

lemma aside_same: "aside s s' \<Longrightarrow> same_request s s'"
  by (simp add: aside_def same_request_def)

lemma same_request_trans: "same_request s t \<Longrightarrow> same_request t u \<Longrightarrow> same_request s u"
  by (simp add: same_request_def)

lemma same_request_mode: "same_request s (stream_setActiveEncodingMode created sz mode s)"
  by (simp add: stream_setActiveEncodingMode_def surface_setActiveEncodingMode_def setup_encoded_def
      setup_source_def drop_streams_def failVideoInitialization_def same_request_def Let_def)

lemma same_request_caps: "same_request s (snd (onCapsAdvertise no_avc created sz st caps s))"
proof -
  define s1 where "s1 = (if capsConfirmed s
      then destroySurface (upd_surf (\<lambda>v. v\<lparr>pendingReset := True\<rparr>) (s\<lparr>capsConfirmed := False\<rparr>)) else s)"
  have "aside s s1" unfolding s1_def by (auto intro!: aside_intros)
  then have 1: "same_request s s1" by (rule aside_same)
  have 2: "same_request s u" if "aside (stream_setActiveEncodingMode created sz mode s1) u" for mode u
    using same_request_trans [OF 1 same_request_trans [OF same_request_mode aside_same [OF that]]] .
  show ?thesis
  proof (cases "negotiated_mode no_avc caps")
    case None
    then show ?thesis
      unfolding onCapsAdvertise_def Let_def s1_def [symmetric] using 1 by (auto simp: same_request_def vs_emit_def)
  next
    case (Some mode)
    then show ?thesis
      unfolding onCapsAdvertise_def Let_def s1_def [symmetric]
      by (auto split: option.split intro!: 2 [of mode] aside_intros)
  qed
qed

text \<open>Initializing sets the size only where none has been asked for.\<close>

lemma initialize_request:
  "nodeId (surf (snd (stream_initialize cn gi pn w h s))) = nodeId (surf s)"
  "objectSerial (surf (snd (stream_initialize cn gi pn w h s))) = objectSerial (surf s)"
  "streamingEnabled (snd (stream_initialize cn gi pn w h s)) = streamingEnabled s"
  "vs_enabled (snd (stream_initialize cn gi pn w h s)) = vs_enabled s"
  "qsize_isValid (requestedSize (surf s)) \<Longrightarrow>
     requestedSize (surf (snd (stream_initialize cn gi pn w h s))) = requestedSize (surf s)"
  by (simp_all add: stream_initialize_def surface_setRequestedSize_def Let_def)

lemma stream_close_request: "same_request s (stream_close s)"
  by (simp add: stream_close_def same_request_def Let_def destroySurface_def)

end
