(* ===== verification/ServerSessions.thy ===== *)
theory ServerSessions
  imports Server
begin

text \<open>
  The server's list of connections, \<open>Server::incomingConnection\<close> of \<open>src/Server.cpp\<close>: a connection is
  made for a socket, kept while it lives, taken out of the list when the queued signal says that it is
  closed, and destroyed. Its destruction can run a nested event loop, so anything may happen between
  the two: they are separate steps.
\<close>

text \<open>Connections are named by the order they were made in.\<close>

record server_sessions =
  ss_next :: nat
  ss_sessions :: "nat list"
  ss_dying :: "nat list"
  ss_destroyed :: "nat list"

definition sessions_init :: server_sessions where
  "sessions_init = \<lparr>ss_next = 0, ss_sessions = [], ss_dying = [], ss_destroyed = []\<rparr>"

definition incomingConnection :: "server_sessions \<Rightarrow> nat \<times> server_sessions" where
  "incomingConnection s =
     (ss_next s, s\<lparr>ss_next := Suc (ss_next s), ss_sessions := ss_sessions s @ [ss_next s]\<rparr>)"

text \<open>The slot: it looks the sender up, moves it out of the vector and erases its place.\<close>

definition onStateChanged :: "nat \<Rightarrow> conn_state \<Rightarrow> server_sessions \<Rightarrow> server_sessions" where
  "onStateChanged c st s =
     (if st = Closed
      then (if c \<notin> set (ss_sessions s) then s
            else s\<lparr>ss_sessions := remove1 c (ss_sessions s), ss_dying := c # ss_dying s\<rparr>)
      else s)"

text \<open>The end of the slot, where the local pointer destroys what it holds: the innermost one first.\<close>

definition destroy_innermost :: "server_sessions \<Rightarrow> server_sessions" where
  "destroy_innermost s =
     (case ss_dying s of
        [] \<Rightarrow> s
      | c # rest \<Rightarrow> s\<lparr>ss_dying := rest, ss_destroyed := ss_destroyed s @ [c]\<rparr>)"

datatype sessions_event =
    Incoming
  | StateSignal nat conn_state
  | DestroyDone

fun sessions_step :: "sessions_event \<Rightarrow> server_sessions \<Rightarrow> server_sessions" where
  "sessions_step Incoming s = snd (incomingConnection s)"
| "sessions_step (StateSignal c st) s = onStateChanged c st s"
| "sessions_step DestroyDone s = destroy_innermost s"

text \<open>Every connection ever made is in exactly one place.\<close>

definition sessions_inv :: "server_sessions \<Rightarrow> bool" where
  "sessions_inv s \<longleftrightarrow> mset (ss_sessions s) + mset (ss_dying s) + mset (ss_destroyed s) = mset [0..<ss_next s]"

interpretation sess: machine sessions_step sessions_init "\<lambda>_. True" sessions_inv
proof unfold_locales
  show "sessions_inv sessions_init" by (simp add: sessions_inv_def sessions_init_def)
  fix e s assume inv: "sessions_inv s"
  show "sessions_inv (sessions_step e s)"
  proof (cases e)
    case (StateSignal c st)
    then show ?thesis
      using inv by (auto simp: onStateChanged_def sessions_inv_def ac_simps)
  qed (use inv in \<open>auto simp: sessions_inv_def ac_simps incomingConnection_def destroy_innermost_def split: list.split\<close>)
qed

lemma sessions_inv_distinct:
  assumes "sessions_inv s"
  shows "distinct (ss_sessions s @ ss_dying s @ ss_destroyed s)"
    and "set (ss_sessions s @ ss_dying s @ ss_destroyed s) = {..<ss_next s}"
proof -
  have m: "mset (ss_sessions s @ ss_dying s @ ss_destroyed s) = mset [0..<ss_next s]"
    using assms by (simp add: sessions_inv_def ac_simps)
  show "distinct (ss_sessions s @ ss_dying s @ ss_destroyed s)"
    using mset_eq_imp_distinct_iff [OF m] by simp
  show "set (ss_sessions s @ ss_dying s @ ss_destroyed s) = {..<ss_next s}"
    using mset_eq_setD [OF m] by (simp add: lessThan_atLeast0)
qed

text \<open>
C33. Every connection is destroyed at most once and none is lost, even when its destruction runs a nested
event loop in which others arrive and close: at any time each connection made so far is exactly one of
kept, being destroyed and destroyed; and a connection that is kept leaves the list as soon as the server
hears that it is closed.
\<close>

theorem connections_accounted_for:
  "let s = fold sessions_step es sessions_init
   in mset (ss_sessions s @ ss_dying s @ ss_destroyed s) = mset [0..<ss_next s] \<and>
      c \<notin> set (ss_sessions (sessions_step (StateSignal c Closed) s))"
proof -
  let ?s = "fold sessions_step es sessions_init"
  have inv: "sessions_inv ?s" by (rule sess.inv_reach) (simp add: list_all_iff)
  have "distinct (ss_sessions ?s)" using sessions_inv_distinct(1) [OF inv] by simp
  then show ?thesis
    using inv by (auto simp: Let_def sessions_inv_def onStateChanged_def ac_simps)
qed

end
