(* ===== verification/SessionController.thy ===== *)
theory SessionController
  imports ServerSessions AbstractSession
begin

text \<open>
  The session controller, \<open>server/SessionController.cpp\<close>: for every connection that is activated a
  wrapper with a session, set up as the operation mode and the command line say, and the screen lock
  of the desktop. Connections are named by numbers; calls on them, on the desktop and on the session's
  \<open>start\<close> are a log. \<open>None\<close> is a failed assertion or the exception of an empty \<open>optional\<close>.
\<close>

section \<open>State\<close>

datatype operation_mode = RemoteAccess | SharedAccess | AdditionalDisplay

datatype session_type = PortalType | PlasmaType

datatype controller_out =
    CloseConnection nat close_reason
  | SwitchToGreeter
  | LockSession
  | UnlockSession
  | StreamSetAdaptive nat bool
  | StreamSetQuality nat u8
  | StreamSetSource nat u32 u64 int
  | StreamSetStreaming nat bool
  | StreamCursor nat "int \<times> int" qimage
  | StartSessionOf nat session_type session
  | StopUnit
  | QuitApplication
  | GetLogindSession
  | ConnectPropertiesChanged qstring

record wrapper =
  w_id :: nat
  w_connection :: nat
  w_session :: session
  w_sessionStarted :: bool

record controller =
  m_sessionType :: session_type
  m_monitorIndex :: "int option"
  m_quality :: "int option"
  m_adaptiveQuality :: bool
  m_virtualMonitor :: "virtual_monitor option"
  m_wrappers :: "wrapper list"
  m_operatingMode :: operation_mode
  ctl_watched :: "nat list"
  ctl_activeWatched :: bool
  ctl_next :: nat
  ctl_log :: "controller_out list"

definition ctl_emit :: "controller_out list \<Rightarrow> controller \<Rightarrow> controller" where
  "ctl_emit xs c = c\<lparr>ctl_log := ctl_log c @ xs\<rparr>"

text \<open>
  The constructor asks logind for the path of its own session; only once it has the path is it told when
  the session becomes active. An error is the end of that.
\<close>

definition watchSessionActive :: "controller \<Rightarrow> controller" where
  "watchSessionActive c = ctl_emit [GetLogindSession] c"

definition onLogindSession :: "qstring option \<Rightarrow> controller \<Rightarrow> controller" where
  "onLogindSession reply c =
     (case reply of
        None \<Rightarrow> c
      | Some path \<Rightarrow> ctl_emit [ConnectPropertiesChanged path] (c\<lparr>ctl_activeWatched := True\<rparr>))"

definition controller_init :: "session_type \<Rightarrow> controller" where
  "controller_init t = watchSessionActive
     \<lparr>m_sessionType = t, m_monitorIndex = None, m_quality = None, m_adaptiveQuality = True,
      m_virtualMonitor = None, m_wrappers = [], m_operatingMode = SharedAccess, ctl_watched = [],
      ctl_activeWatched = False, ctl_next = 0, ctl_log = []\<rparr>"

text \<open>\<open>makeSession\<close>, in a build with the Plasma session.\<close>

definition makeSession :: "controller \<Rightarrow> session_type" where
  "makeSession c = (if m_sessionType c = PlasmaType then PlasmaType else PortalType)"

section \<open>Settings\<close>

definition setMonitorIndex :: "int option \<Rightarrow> controller \<Rightarrow> controller" where
  "setMonitorIndex index c = c\<lparr>m_monitorIndex := index\<rparr>"

definition controller_setVirtualMonitor :: "virtual_monitor \<Rightarrow> controller \<Rightarrow> controller" where
  "controller_setVirtualMonitor vm c = c\<lparr>m_virtualMonitor := Some vm\<rparr>"

definition setQuality :: "int option \<Rightarrow> controller \<Rightarrow> controller" where
  "setQuality quality c = c\<lparr>m_quality := quality\<rparr>"

definition controller_setAdaptiveQuality :: "bool \<Rightarrow> controller \<Rightarrow> controller" where
  "controller_setAdaptiveQuality adaptive c = c\<lparr>m_adaptiveQuality := adaptive\<rparr>"

definition setOperationMode :: "operation_mode \<Rightarrow> controller \<Rightarrow> controller" where
  "setOperationMode mode c = c\<lparr>m_operatingMode := mode\<rparr>"

definition setSessionLocked :: "bool \<Rightarrow> controller \<Rightarrow> controller" where
  "setSessionLocked locked c = ctl_emit [if locked then LockSession else UnlockSession] c"

definition switchToGreeter :: "controller \<Rightarrow> controller" where
  "switchToGreeter c = ctl_emit [SwitchToGreeter] c"

definition stopFromSNI :: "controller \<Rightarrow> controller" where
  "stopFromSNI c = ctl_emit [StopUnit, QuitApplication] c"

section \<open>A connection is activated\<close>

text \<open>\<open>tr\<close> translates; the quality is narrowed to eight bits by the call.\<close>

definition defaultMonitor :: "(string \<Rightarrow> qstring) \<Rightarrow> virtual_monitor" where
  "defaultMonitor tr = \<lparr>mon_name = tr ''Remote Monitor'', mon_size = \<lparr>width = 1024, height = 768\<rparr>, mon_dpr = 1\<rparr>"

definition close_all :: "close_reason \<Rightarrow> controller \<Rightarrow> controller" where
  "close_all reason c = ctl_emit (map (\<lambda>w. CloseConnection (w_connection w) reason) (m_wrappers c)) c"

text \<open>What the wrapper's session shows, and what is done to others for it.\<close>

definition assign_monitor ::
  "(string \<Rightarrow> qstring) \<Rightarrow> session \<Rightarrow> controller \<Rightarrow> (session \<times> controller) option" where
  "assign_monitor tr s c =
     (case m_virtualMonitor c of
        Some vm \<Rightarrow> map_option (\<lambda>s'. (s', c)) (setVirtualMonitor vm s)
      | None \<Rightarrow>
          (case m_monitorIndex c of
             Some i \<Rightarrow> map_option (\<lambda>s'. (s', c)) (setActiveStream i s)
           | None \<Rightarrow>
               (case m_operatingMode c of
                  SharedAccess \<Rightarrow> Some (s, c)
                | RemoteAccess \<Rightarrow>
                    map_option (\<lambda>s'. (s', setSessionLocked False (switchToGreeter (close_all OtherConnection c))))
                      (setVirtualMonitor (defaultMonitor tr) s)
                | AdditionalDisplay \<Rightarrow> map_option (\<lambda>s'. (s', c)) (setVirtualMonitor (defaultMonitor tr) s))))"

definition onActivated :: "(string \<Rightarrow> qstring) \<Rightarrow> nat \<Rightarrow> controller \<Rightarrow> controller option" where
  "onActivated tr conn c =
     Option.bind (assign_monitor tr session_init c) (\<lambda>(s, c1).
       case m_quality c1 of
         None \<Rightarrow> None
       | Some q \<Rightarrow>
           let w = \<lparr>w_id = ctl_next c1, w_connection = conn, w_session = s, w_sessionStarted = False\<rparr>;
               c2 = ctl_emit [StreamSetAdaptive conn (m_adaptiveQuality c1), StreamSetQuality conn (of_int q),
                              StartSessionOf (w_id w) (makeSession c1) s] c1
           in Some (c2\<lparr>ctl_next := Suc (ctl_next c2), m_wrappers := m_wrappers c2 @ [w]\<rparr>))"

text \<open>A new connection is watched; its signal comes with every change of its state.\<close>

definition onNewConnection :: "nat \<Rightarrow> controller \<Rightarrow> controller" where
  "onNewConnection conn c = c\<lparr>ctl_watched := ctl_watched c @ [conn]\<rparr>"

definition onConnectionState :: "(string \<Rightarrow> qstring) \<Rightarrow> nat \<Rightarrow> conn_state \<Rightarrow> controller \<Rightarrow> controller option" where
  "onConnectionState tr conn st c =
     (if conn \<notin> set (ctl_watched c) then Some c
      else if st \<noteq> Activated then Some c
      else onActivated tr conn c)"

section \<open>The wrapper's slots\<close>

definition update_wrapper :: "nat \<Rightarrow> (wrapper \<Rightarrow> wrapper) \<Rightarrow> controller \<Rightarrow> controller" where
  "update_wrapper i f c = c\<lparr>m_wrappers := map (\<lambda>w. if w_id w = i then f w else w) (m_wrappers c)\<rparr>"

definition with_wrapper :: "nat \<Rightarrow> (wrapper \<Rightarrow> controller \<Rightarrow> controller) \<Rightarrow> controller \<Rightarrow> controller" where
  "with_wrapper i f c = (case find (\<lambda>w. w_id w = i) (m_wrappers c) of None \<Rightarrow> c | Some w \<Rightarrow> f w c)"

definition onCursorUpdate :: "int \<times> int \<Rightarrow> qimage \<Rightarrow> wrapper \<Rightarrow> controller \<Rightarrow> controller" where
  "onCursorUpdate hotspot img w c = ctl_emit [StreamCursor (w_connection w) hotspot img] c"

text \<open>
  The slots of \<open>SessionWrapper\<close> that drive the video stream. The session has started: its node, its
  serial and its descriptor go to the stream; \<open>enabled\<close> is what the stream's \<open>enabled()\<close> returns.
\<close>

definition wrapper_enabledChanged :: "bool \<Rightarrow> wrapper \<Rightarrow> controller_out list" where
  "wrapper_enabledChanged enabled w = [StreamSetStreaming (w_connection w) (w_sessionStarted w \<and> enabled)]"

definition wrapper_started :: "bool \<Rightarrow> wrapper \<Rightarrow> wrapper \<times> controller_out list" where
  "wrapper_started enabled w =
     (let (fd, s') = takePipeWireFd (w_session w)
      in (w\<lparr>w_session := s', w_sessionStarted := True\<rparr>,
          [StreamSetSource (w_connection w) (s_nodeId s') (s_objectSerial s') fd,
           StreamSetStreaming (w_connection w) enabled]))"

definition onVideoStreamEnabledChanged :: "bool \<Rightarrow> wrapper \<Rightarrow> controller \<Rightarrow> controller" where
  "onVideoStreamEnabledChanged enabled w c = ctl_emit (wrapper_enabledChanged enabled w) c"

definition wrapper_onSessionStarted :: "bool \<Rightarrow> wrapper \<Rightarrow> controller \<Rightarrow> controller" where
  "wrapper_onSessionStarted enabled w c =
     (let (w', calls) = wrapper_started enabled w
      in ctl_emit calls (update_wrapper (w_id w) (\<lambda>v. v\<lparr>w_session := w_session w', w_sessionStarted := w_sessionStarted w'\<rparr>) c))"

definition onSessionError :: "wrapper \<Rightarrow> controller \<Rightarrow> controller" where
  "onSessionError w c = ctl_emit [CloseConnection (w_connection w) NoReason] c"

text \<open>
  A connection is destroyed: each of its wrappers reports it, is erased, and when none is left in
  remote access the desktop is locked.
\<close>

definition erase_wrapper :: "nat \<Rightarrow> controller \<Rightarrow> controller" where
  "erase_wrapper i c =
     (let c1 = c\<lparr>m_wrappers := filter (\<lambda>w. w_id w \<noteq> i) (m_wrappers c)\<rparr>
      in if m_wrappers c1 = [] \<and> m_operatingMode c1 = RemoteAccess then setSessionLocked True c1 else c1)"

definition onConnectionDestroyed :: "nat \<Rightarrow> controller \<Rightarrow> controller" where
  "onConnectionDestroyed conn c =
     fold erase_wrapper (map w_id (filter (\<lambda>w. w_connection w = conn) (m_wrappers c)))
       (c\<lparr>ctl_watched := filter (\<lambda>x. x \<noteq> conn) (ctl_watched c)\<rparr>)"

definition onSessionPropertiesChanged :: "bool \<Rightarrow> controller \<Rightarrow> controller" where
  "onSessionPropertiesChanged active c =
     (if m_operatingMode c \<noteq> RemoteAccess \<or> m_wrappers c = [] \<or> \<not> active then c
      else close_all OtherConnection c)"

datatype controller_event =
    CNewConnection nat
  | CState nat conn_state
  | CCursor nat "int \<times> int" qimage
  | CEnabledChanged nat bool
  | CSessionStarted nat bool
  | CSessionError nat
  | CSessionUpdate nat "session \<Rightarrow> session"
  | CConnectionDestroyed nat
  | CLogindSession "qstring option"
  | CPropertiesChanged bool
  | CStop

text \<open>\<open>CSessionUpdate\<close> is what the session does by itself: it finds its stream and its descriptor.\<close>

fun controller_step :: "(string \<Rightarrow> qstring) \<Rightarrow> controller_event \<Rightarrow> controller \<Rightarrow> controller option" where
  "controller_step tr (CNewConnection conn) c = Some (onNewConnection conn c)"
| "controller_step tr (CState conn st) c = onConnectionState tr conn st c"
| "controller_step tr (CCursor i h img) c = Some (with_wrapper i (onCursorUpdate h img) c)"
| "controller_step tr (CEnabledChanged i en) c = Some (with_wrapper i (onVideoStreamEnabledChanged en) c)"
| "controller_step tr (CSessionStarted i en) c = Some (with_wrapper i (wrapper_onSessionStarted en) c)"
| "controller_step tr (CSessionError i) c = Some (with_wrapper i onSessionError c)"
| "controller_step tr (CSessionUpdate i f) c = Some (update_wrapper i (\<lambda>w. w\<lparr>w_session := f (w_session w)\<rparr>) c)"
| "controller_step tr (CConnectionDestroyed conn) c = Some (onConnectionDestroyed conn c)"
| "controller_step tr (CLogindSession reply) c = Some (onLogindSession reply c)"
| "controller_step tr (CPropertiesChanged active) c =
     Some (if ctl_activeWatched c then onSessionPropertiesChanged active c else c)"
| "controller_step tr CStop c = Some (stopFromSNI c)"

section \<open>What every step keeps\<close>

text \<open>Whether the desktop is unlocked by what was sent so far.\<close>

fun lock_state :: "controller_out \<Rightarrow> bool \<Rightarrow> bool" where
  "lock_state LockSession b = False"
| "lock_state UnlockSession b = True"
| "lock_state _ b = b"

definition unlocked :: "controller_out list \<Rightarrow> bool" where
  "unlocked xs = fold lock_state xs False"

fun lock_neutral :: "controller_out \<Rightarrow> bool" where
  "lock_neutral LockSession = False"
| "lock_neutral UnlockSession = False"
| "lock_neutral _ = True"

lemma unlocked_neutral: "list_all lock_neutral xs \<Longrightarrow> unlocked (ys @ xs) = unlocked ys"
proof -
  have "lock_neutral x \<Longrightarrow> lock_state x b = b" for x b by (cases x) simp_all
  then have "list_all lock_neutral xs \<Longrightarrow> fold lock_state xs b = b" for b by (induction xs) simp_all
  then show "list_all lock_neutral xs \<Longrightarrow> unlocked (ys @ xs) = unlocked ys" by (simp add: unlocked_def)
qed

definition no_override :: "controller \<Rightarrow> bool" where
  "no_override c \<longleftrightarrow> m_virtualMonitor c = None \<and> m_monitorIndex c = None"

text \<open>All but the newest client have been told that another one took over.\<close>

definition others_closed :: "controller \<Rightarrow> bool" where
  "others_closed c \<longleftrightarrow>
     (\<forall>w \<in> set (butlast (m_wrappers c)). CloseConnection (w_connection w) OtherConnection \<in> set (ctl_log c))"

definition wrappers_fine :: "controller \<Rightarrow> bool" where
  "wrappers_fine c \<longleftrightarrow> w_connection ` set (m_wrappers c) \<subseteq> set (ctl_watched c)"

definition lock_fine :: "controller \<Rightarrow> bool" where
  "lock_fine c \<longleftrightarrow> (unlocked (ctl_log c) \<longrightarrow> m_wrappers c \<noteq> [] \<and> m_operatingMode c = RemoteAccess)"

definition ctl_inv :: "controller \<Rightarrow> bool" where
  "ctl_inv c \<longleftrightarrow> wrappers_fine c \<and> lock_fine c \<and> m_quality c \<noteq> None \<and>
     (m_operatingMode c = RemoteAccess \<and> no_override c \<longrightarrow> others_closed c)"

text \<open>A step that says something about other things, and at most changes wrappers in place.\<close>

definition ctl_steady :: "controller \<Rightarrow> controller \<Rightarrow> bool" where
  "ctl_steady c c' \<longleftrightarrow> (\<exists>xs. ctl_log c' = ctl_log c @ xs \<and> list_all lock_neutral xs) \<and>
     map w_connection (m_wrappers c') = map w_connection (m_wrappers c) \<and>
     set (ctl_watched c) \<subseteq> set (ctl_watched c') \<and> m_quality c' = m_quality c \<and>
     m_operatingMode c' = m_operatingMode c \<and> m_virtualMonitor c' = m_virtualMonitor c \<and>
     m_monitorIndex c' = m_monitorIndex c"

lemma ctl_emit_fields [simp]:
  "ctl_log (ctl_emit xs c) = ctl_log c @ xs" "m_wrappers (ctl_emit xs c) = m_wrappers c"
  "ctl_watched (ctl_emit xs c) = ctl_watched c" "m_quality (ctl_emit xs c) = m_quality c"
  "m_operatingMode (ctl_emit xs c) = m_operatingMode c" "m_virtualMonitor (ctl_emit xs c) = m_virtualMonitor c"
  "m_monitorIndex (ctl_emit xs c) = m_monitorIndex c" "m_adaptiveQuality (ctl_emit xs c) = m_adaptiveQuality c"
  "ctl_next (ctl_emit xs c) = ctl_next c"
  by (simp_all add: ctl_emit_def)

lemma butlast_connections:
  assumes "map w_connection ws = map w_connection ws'"
  shows "(\<forall>w \<in> set (butlast ws). P (w_connection w)) \<longleftrightarrow> (\<forall>w \<in> set (butlast ws'). P (w_connection w))"
proof -
  have "map w_connection (butlast ws) = map w_connection (butlast ws')"
    using assms by (simp add: map_butlast)
  then have "w_connection ` set (butlast ws) = w_connection ` set (butlast ws')"
    by (metis set_map)
  then show ?thesis by (metis (no_types, lifting) image_iff)
qed

lemma ctl_inv_steady:
  assumes "ctl_steady c c'" and "ctl_inv c"
  shows "ctl_inv c'"
proof -
  obtain xs where xs: "ctl_log c' = ctl_log c @ xs" "list_all lock_neutral xs"
    using assms(1) by (auto simp: ctl_steady_def)
  have same: "map w_connection (m_wrappers c') = map w_connection (m_wrappers c)"
      "set (ctl_watched c) \<subseteq> set (ctl_watched c')" "m_quality c' = m_quality c"
      "m_operatingMode c' = m_operatingMode c" "no_override c' = no_override c"
    using assms(1) by (auto simp: ctl_steady_def no_override_def)
  have fine: "wrappers_fine c'"
  proof -
    have "w_connection ` set (m_wrappers c') = w_connection ` set (m_wrappers c)"
      using same(1) by (metis set_map)
    moreover have "w_connection ` set (m_wrappers c) \<subseteq> set (ctl_watched c)"
      using assms(2) by (simp only: wrappers_fine_def ctl_inv_def)
    ultimately show ?thesis using same(2) unfolding wrappers_fine_def by (simp only: order_trans)
  qed
  moreover have "lock_fine c'"
    using assms(2) xs same unlocked_neutral by (auto simp: lock_fine_def ctl_inv_def)
  moreover have "others_closed c \<Longrightarrow> others_closed c'"
    using butlast_connections [OF same(1), of "\<lambda>x. CloseConnection x OtherConnection \<in> set (ctl_log c')"] xs(1)
    by (simp add: others_closed_def)
  ultimately show ?thesis using assms(2) same by (simp add: ctl_inv_def)
qed

lemma ctl_steady_emit: "list_all lock_neutral xs \<Longrightarrow> ctl_steady c (ctl_emit xs c)"
  by (simp add: ctl_steady_def)

lemma ctl_steady_refl [simp]: "ctl_steady c c"
  by (simp add: ctl_steady_def)

lemma close_all_steady: "ctl_steady c (close_all r c)"
  unfolding close_all_def by (rule ctl_steady_emit) (simp add: list_all_iff)

lemma update_wrapper_steady:
  "(\<And>w. w_connection (f w) = w_connection w) \<Longrightarrow> ctl_steady c (update_wrapper i f c)"
  by (simp add: ctl_steady_def update_wrapper_def)

lemma with_wrapper_steady: "(\<And>w. ctl_steady c (f w c)) \<Longrightarrow> ctl_steady c (with_wrapper i f c)"
  by (auto simp: with_wrapper_def split: option.split)

lemma slots_steady:
  "ctl_steady c (onCursorUpdate h img w c)" "ctl_steady c (onVideoStreamEnabledChanged en w c)"
  "ctl_steady c (onSessionError w c)" "ctl_steady c (wrapper_onSessionStarted en w c)"
  "ctl_steady c (onSessionPropertiesChanged a c)" "ctl_steady c (stopFromSNI c)"
  "ctl_steady c (onNewConnection conn c)" "ctl_steady c (onLogindSession reply c)"
proof -
  show "ctl_steady c (onLogindSession reply c)"
    by (simp add: onLogindSession_def ctl_steady_def split: option.split)
  show "ctl_steady c (wrapper_onSessionStarted en w c)"
    by (simp add: wrapper_onSessionStarted_def wrapper_started_def takePipeWireFd_def ctl_steady_def update_wrapper_def)
  show "ctl_steady c (onNewConnection conn c)" by (auto simp: onNewConnection_def ctl_steady_def)
qed (auto simp: onCursorUpdate_def onVideoStreamEnabledChanged_def wrapper_enabledChanged_def onSessionError_def
    onSessionPropertiesChanged_def stopFromSNI_def close_all_steady intro!: ctl_steady_emit)

section \<open>Activation\<close>

definition takes_over :: "controller \<Rightarrow> bool" where
  "takes_over c \<longleftrightarrow> m_operatingMode c = RemoteAccess \<and> no_override c"

text \<open>Setting up a fresh session never meets the setters' assertions.\<close>

lemma assign_monitor_returns:
  "\<exists>s. assign_monitor tr session_init c =
     Some (s, if takes_over c then setSessionLocked False (switchToGreeter (close_all OtherConnection c)) else c)"
  by (auto simp: assign_monitor_def takes_over_def no_override_def setVirtualMonitor_def setActiveStream_def
      session_init_def split: option.split operation_mode.split)

definition takeover_log :: "controller \<Rightarrow> controller_out list" where
  "takeover_log c =
     (if takes_over c
      then map (\<lambda>w. CloseConnection (w_connection w) OtherConnection) (m_wrappers c) @ [SwitchToGreeter, UnlockSession]
      else [])"

lemma onActivated_spec:
  assumes "m_quality c = Some q"
  shows "\<exists>w xs. onActivated tr conn c =
     Some (c\<lparr>ctl_log := ctl_log c @ takeover_log c @ xs, ctl_next := Suc (ctl_next c), m_wrappers := m_wrappers c @ [w]\<rparr>) \<and>
     w_connection w = conn \<and> list_all lock_neutral xs"
proof -
  obtain s where s: "assign_monitor tr session_init c =
     Some (s, if takes_over c then setSessionLocked False (switchToGreeter (close_all OtherConnection c)) else c)"
    using assign_monitor_returns by blast
  show ?thesis
    by (rule exI [of _ "\<lparr>w_id = ctl_next c, w_connection = conn, w_session = s, w_sessionStarted = False\<rparr>"],
        rule exI [of _ "[StreamSetAdaptive conn (m_adaptiveQuality c), StreamSetQuality conn (of_int q),
          StartSessionOf (ctl_next c) (makeSession c) s]"])
      (use assms s in \<open>simp add: onActivated_def takeover_log_def setSessionLocked_def switchToGreeter_def
         close_all_def makeSession_def ctl_emit_def\<close>)
qed

lemma onActivated_inv:
  assumes "ctl_inv c" and "conn \<in> set (ctl_watched c)"
  shows "returns_with ctl_inv (onActivated tr conn c)"
proof -
  obtain q where q: "m_quality c = Some q" using assms(1) by (auto simp: ctl_inv_def)
  obtain w xs where c': "onActivated tr conn c =
     Some (c\<lparr>ctl_log := ctl_log c @ takeover_log c @ xs, ctl_next := Suc (ctl_next c), m_wrappers := m_wrappers c @ [w]\<rparr>)"
     and w: "w_connection w = conn" "list_all lock_neutral xs"
    using onActivated_spec [OF q, of tr conn] by blast
  let ?c' = "c\<lparr>ctl_log := ctl_log c @ takeover_log c @ xs, ctl_next := Suc (ctl_next c), m_wrappers := m_wrappers c @ [w]\<rparr>"
  have "unlocked (ctl_log c @ takeover_log c @ xs) \<longrightarrow> m_operatingMode c = RemoteAccess"
  proof (cases "takes_over c")
    case False
    then have "takeover_log c = []" by (simp add: takeover_log_def)
    then show ?thesis
      using assms(1) unlocked_neutral [OF w(2), of "ctl_log c"] by (simp add: ctl_inv_def lock_fine_def)
  qed (simp add: takes_over_def)
  then have "lock_fine ?c'" by (simp add: lock_fine_def)
  moreover have "wrappers_fine ?c'"
    using assms w(1) by (simp add: ctl_inv_def wrappers_fine_def)
  moreover have "others_closed ?c'" if "takes_over c"
    using that by (simp add: others_closed_def takeover_log_def)
  ultimately show ?thesis
    using q c' by (simp add: ctl_inv_def takes_over_def no_override_def)
qed

section \<open>Destruction\<close>

lemma set_butlast_filter: "set (butlast (filter P xs)) \<subseteq> set (butlast xs)"
proof (induction xs rule: rev_induct)
  case (snoc x xs)
  then show ?case by (auto dest: in_set_butlastD)
qed simp

lemma erase_wrapper_inv:
  assumes "ctl_inv c"
  shows "ctl_inv (erase_wrapper i c)"
  using assms set_butlast_filter [of "\<lambda>w. w_id w \<noteq> i" "m_wrappers c"]
  by (auto simp: erase_wrapper_def ctl_inv_def wrappers_fine_def lock_fine_def others_closed_def setSessionLocked_def
      Let_def unlocked_def no_override_def)

lemma erase_wrapper_fields [simp]:
  "ctl_watched (erase_wrapper i c) = ctl_watched c"
  "m_wrappers (erase_wrapper i c) = filter (\<lambda>w. w_id w \<noteq> i) (m_wrappers c)"
  by (simp_all add: erase_wrapper_def setSessionLocked_def Let_def)

lemma erase_wrapper_watched: "erase_wrapper i (c\<lparr>ctl_watched := ws\<rparr>) = (erase_wrapper i c)\<lparr>ctl_watched := ws\<rparr>"
  by (cases c) (simp add: erase_wrapper_def setSessionLocked_def ctl_emit_def Let_def)

lemma erase_wrappers:
  "ctl_watched (fold erase_wrapper is c) = ctl_watched c"
  "m_wrappers (fold erase_wrapper is c) = filter (\<lambda>w. w_id w \<notin> set is) (m_wrappers c)"
  by (induction "is" arbitrary: c) (simp_all add: conj_commute)

lemma erase_wrappers_inv: "ctl_inv c \<Longrightarrow> ctl_inv (fold erase_wrapper is c)"
  by (induction "is" arbitrary: c) (simp_all add: erase_wrapper_inv)

lemma onConnectionDestroyed_inv:
  assumes "ctl_inv c"
  shows "ctl_inv (onConnectionDestroyed conn c)"
proof -
  let ?is = "map w_id (filter (\<lambda>w. w_connection w = conn) (m_wrappers c))"
  have comm: "fold erase_wrapper is (c\<lparr>ctl_watched := ws\<rparr>) = (fold erase_wrapper is c)\<lparr>ctl_watched := ws\<rparr>" for ws "is"
    by (induction "is" arbitrary: c) (simp_all add: erase_wrapper_watched)
  let ?c' = "fold erase_wrapper ?is c"
  have inv: "ctl_inv ?c'" using erase_wrappers_inv assms by blast
  have "w_connection ` set (m_wrappers ?c') \<subseteq> set (filter (\<lambda>x. x \<noteq> conn) (ctl_watched c))"
    using assms by (auto simp: erase_wrappers ctl_inv_def wrappers_fine_def)
  then have "wrappers_fine (?c'\<lparr>ctl_watched := filter (\<lambda>x. x \<noteq> conn) (ctl_watched c)\<rparr>)"
    by (simp add: wrappers_fine_def)
  moreover have "lock_fine (?c'\<lparr>ctl_watched := ws\<rparr>) = lock_fine ?c'" "others_closed (?c'\<lparr>ctl_watched := ws\<rparr>) = others_closed ?c'"
    "no_override (?c'\<lparr>ctl_watched := ws\<rparr>) = no_override ?c'" for ws
    by (simp_all add: lock_fine_def others_closed_def no_override_def)
  ultimately show ?thesis
    using inv by (simp add: onConnectionDestroyed_def comm ctl_inv_def)
qed

lemma controller_step_inv:
  assumes "ctl_inv c"
  shows "returns_with ctl_inv (controller_step tr e c)"
proof -
  have steady: "ctl_inv c'" if "ctl_steady c c'" for c' using ctl_inv_steady [OF that assms] .
  show ?thesis
  proof (cases e)
    case (CState conn st)
    then show ?thesis using assms onActivated_inv by (auto simp: onConnectionState_def)
  next
    case (CSessionUpdate i f)
    then show ?thesis by (auto intro!: steady update_wrapper_steady)
  qed (auto intro!: steady with_wrapper_steady slots_steady onConnectionDestroyed_inv [OF assms])
qed

text \<open>What \<open>main\<close> sets before the event loop runs.\<close>

definition controller_setup ::
  "session_type \<Rightarrow> int option \<Rightarrow> virtual_monitor option \<Rightarrow> int \<Rightarrow> bool \<Rightarrow> operation_mode \<Rightarrow> controller" where
  "controller_setup t index vm quality adaptive mode =
     setOperationMode mode (controller_setAdaptiveQuality adaptive (setQuality (Some quality)
       (case vm of Some v \<Rightarrow> controller_setVirtualMonitor v (controller_init t)
        | None \<Rightarrow> setMonitorIndex index (controller_init t))))"

lemma controller_setup_inv: "ctl_inv (controller_setup t index vm quality adaptive mode)"
  by (simp add: controller_setup_def setOperationMode_def controller_setAdaptiveQuality_def setQuality_def
      controller_setVirtualMonitor_def setMonitorIndex_def controller_init_def watchSessionActive_def ctl_inv_def wrappers_fine_def
      lock_fine_def unlocked_def others_closed_def split: option.split)

interpretation ctl: machine "lift_step (controller_step tr)" "Some (controller_setup t index vm quality adaptive mode)"
  "\<lambda>_. True" "returns_with ctl_inv" for tr t index vm quality adaptive mode
proof unfold_locales
  show "returns_with ctl_inv (Some (controller_setup t index vm quality adaptive mode))"
    by (simp add: controller_setup_inv)
  show "returns_with ctl_inv (lift_step (controller_step tr) e x)" if "returns_with ctl_inv x" for e x
    using that controller_step_inv by (auto simp: returns_with_iff)
qed

section \<open>The controller and the server together\<close>

text \<open>
  Connections come to the server, which tells the controller of them; their state signals reach both;
  the destruction of a connection reaches the controller's wrappers. A signal of a connection that is
  gone is dropped by Qt.
\<close>

datatype system_event =
    SysIncoming
  | SysState nat conn_state
  | SysDestroyed
  | SysController controller_event

fun inner_event :: "controller_event \<Rightarrow> bool" where
  "inner_event (CNewConnection c) = False"
| "inner_event (CState c st) = False"
| "inner_event (CConnectionDestroyed c) = False"
| "inner_event _ = True"

fun system_step ::
  "(string \<Rightarrow> qstring) \<Rightarrow> system_event \<Rightarrow> server_sessions \<times> controller \<Rightarrow> (server_sessions \<times> controller) option" where
  "system_step tr SysIncoming (s, c) =
     (let (conn, s') = incomingConnection s in Some (s', onNewConnection conn c))"
| "system_step tr (SysState conn st) (s, c) =
     map_option (\<lambda>c'. (onStateChanged conn st s, c')) (onConnectionState tr conn st c)"
| "system_step tr SysDestroyed (s, c) =
     Some (case ss_dying s of
             [] \<Rightarrow> (s, c)
           | conn # rest \<Rightarrow> (destroy_innermost s, onConnectionDestroyed conn c))"
| "system_step tr (SysController e) (s, c) =
     (if inner_event e then map_option (\<lambda>c'. (s, c')) (controller_step tr e c) else Some (s, c))"

definition system_inv :: "server_sessions \<times> controller \<Rightarrow> bool" where
  "system_inv sc \<longleftrightarrow> sessions_inv (fst sc) \<and> ctl_inv (snd sc) \<and>
     set (ctl_watched (snd sc)) = set (ss_sessions (fst sc)) \<union> set (ss_dying (fst sc))"

lemma inner_event_watched:
  assumes "inner_event e" and "controller_step tr e c = Some c'"
  shows "ctl_watched c' = ctl_watched c"
proof -
  have w: "ctl_watched (with_wrapper i f c) = ctl_watched c" if "\<And>w. ctl_watched (f w c) = ctl_watched c" for i f
    using that by (simp add: with_wrapper_def split: option.split)
  have started: "ctl_watched (wrapper_onSessionStarted en v c) = ctl_watched c" for en v
    by (simp add: wrapper_onSessionStarted_def wrapper_started_def update_wrapper_def takePipeWireFd_def)
  show ?thesis
    using assms
    by (cases e) (auto simp: w started onCursorUpdate_def onVideoStreamEnabledChanged_def wrapper_enabledChanged_def onSessionError_def
        update_wrapper_def onSessionPropertiesChanged_def close_all_def stopFromSNI_def onLogindSession_def
        split: option.split)
qed

lemma onConnectionState_watched: "onConnectionState tr conn st c = Some c' \<Longrightarrow> ctl_inv c \<Longrightarrow> ctl_watched c' = ctl_watched c"
  using onActivated_spec [of c _ tr conn] by (fastforce simp: onConnectionState_def ctl_inv_def split: if_splits)

lemma system_step_inv:
  assumes "system_inv (s, c)"
  shows "returns_with system_inv (system_step tr e (s, c))"
proof -
  have inv: "sessions_inv s" "ctl_inv c" "set (ctl_watched c) = set (ss_sessions s) \<union> set (ss_dying s)"
    using assms by (simp_all add: system_inv_def)
  show ?thesis
  proof (cases e)
    case SysIncoming
    have "ctl_inv (onNewConnection conn c)" for conn using ctl_inv_steady [OF slots_steady(7) inv(2)] .
    then show ?thesis
      using SysIncoming inv sess.inv_step [OF inv(1), of Incoming]
      by (auto simp: system_inv_def incomingConnection_def onNewConnection_def)
  next
    case (SysState conn st)
    obtain c' where c': "onConnectionState tr conn st c = Some c'" "ctl_inv c'"
      using controller_step_inv [OF inv(2), of tr "CState conn st"] by (auto simp: returns_with_iff)
    then have w: "ctl_watched c' = ctl_watched c" using onConnectionState_watched inv(2) by blast
    have "set (ss_sessions (onStateChanged conn st s)) \<union> set (ss_dying (onStateChanged conn st s)) =
        set (ss_sessions s) \<union> set (ss_dying s)"
      using sessions_inv_distinct(1) [OF inv(1)] by (auto simp: onStateChanged_def)
    then show ?thesis
      using SysState inv c' w sess.inv_step [OF inv(1), of "StateSignal conn st"] by (simp add: system_inv_def)
  next
    case SysDestroyed
    show ?thesis
    proof (cases "ss_dying s")
      case (Cons conn rest)
      have "conn \<notin> set (ss_sessions s)" "conn \<notin> set rest"
        using sessions_inv_distinct(1) [OF inv(1)] Cons by auto
      moreover have "ctl_watched (onConnectionDestroyed conn c) = filter (\<lambda>x. x \<noteq> conn) (ctl_watched c)"
        by (simp add: onConnectionDestroyed_def erase_wrappers)
      ultimately show ?thesis
        using SysDestroyed Cons inv onConnectionDestroyed_inv [OF inv(2)] sess.inv_step [OF inv(1), of DestroyDone]
        by (auto simp: system_inv_def destroy_innermost_def)
    qed (simp add: SysDestroyed assms)
  next
    case (SysController ev)
    show ?thesis
    proof (cases "inner_event ev")
      case True
      obtain c' where "controller_step tr ev c = Some c'" "ctl_inv c'"
        using controller_step_inv [OF inv(2), of tr ev] by (auto simp: returns_with_iff)
      then show ?thesis using SysController True inv inner_event_watched by (auto simp: system_inv_def)
    qed (simp add: SysController assms)
  qed
qed

interpretation sys: machine "lift_step (system_step tr)"
  "Some (sessions_init, controller_setup t index vm quality adaptive mode)" "\<lambda>_. True"
  "returns_with system_inv" for tr t index vm quality adaptive mode
proof unfold_locales
  have "ctl_watched (controller_setup t index vm quality adaptive mode) = []"
    by (simp add: controller_setup_def setOperationMode_def controller_setAdaptiveQuality_def setQuality_def
        controller_setVirtualMonitor_def setMonitorIndex_def controller_init_def watchSessionActive_def split: option.split)
  then show "returns_with system_inv (Some (sessions_init, controller_setup t index vm quality adaptive mode))"
    using sess.inv_start by (simp add: system_inv_def controller_setup_inv) (simp add: sessions_init_def)
  show "returns_with system_inv (lift_step (system_step tr) e x)" if "returns_with system_inv x" for e x
    using that system_step_inv by (auto simp: returns_with_iff)
qed

lemma system_reach:
  "returns_with system_inv (fold (lift_step (system_step tr)) es
     (Some (sessions_init, controller_setup t index vm quality adaptive mode)))"
  by (rule sys.inv_reach) (simp add: list_all_iff)

text \<open>The operation mode is not changed by what happens.\<close>

lemma controller_step_mode:
  assumes "controller_step tr e c = Some c'" and "ctl_inv c"
  shows "m_operatingMode c' = m_operatingMode c"
proof (cases e)
  case (CState conn st)
  then show ?thesis
    using assms onActivated_spec [of c _ tr conn] by (fastforce simp: onConnectionState_def ctl_inv_def split: if_splits)
next
  case (CConnectionDestroyed conn)
  have "m_operatingMode (erase_wrapper i c) = m_operatingMode c" for i c
    by (simp add: erase_wrapper_def setSessionLocked_def Let_def)
  then have "m_operatingMode (fold erase_wrapper is c) = m_operatingMode c" for "is" c
    by (induction "is" arbitrary: c) simp_all
  then show ?thesis using assms(1) CConnectionDestroyed by (auto simp: onConnectionDestroyed_def)
next
  case (CSessionUpdate i f)
  then show ?thesis using assms(1) by (auto simp: update_wrapper_def)
next
  case (CCursor i h img)
  then have "ctl_steady c c'" using assms(1) by (auto intro: with_wrapper_steady slots_steady)
  then show ?thesis by (simp add: ctl_steady_def)
next
  case (CEnabledChanged i en)
  then have "ctl_steady c c'" using assms(1) by (auto intro: with_wrapper_steady slots_steady)
  then show ?thesis by (simp add: ctl_steady_def)
next
  case (CSessionStarted i en)
  then have "ctl_steady c c'" using assms(1) by (auto intro: with_wrapper_steady slots_steady)
  then show ?thesis by (simp add: ctl_steady_def)
next
  case (CSessionError i)
  then have "ctl_steady c c'" using assms(1) by (auto intro: with_wrapper_steady slots_steady)
  then show ?thesis by (simp add: ctl_steady_def)
qed (use assms(1) slots_steady in \<open>auto simp: ctl_steady_def\<close>)

lemma system_step_mode:
  assumes "system_step tr e (s, c) = Some (s', c')" and "system_inv (s, c)"
  shows "m_operatingMode c' = m_operatingMode c"
proof (cases e)
  case SysIncoming
  then show ?thesis using assms(1) by (auto simp: onNewConnection_def split: prod.splits)
next
  case (SysState conn st)
  then show ?thesis
    using assms controller_step_mode [of tr "CState conn st" c c'] by (auto simp: system_inv_def)
next
  case SysDestroyed
  then show ?thesis
    using assms controller_step_mode [of tr "CConnectionDestroyed (hd (ss_dying s))" c c']
    by (auto simp: system_inv_def split: list.splits)
next
  case (SysController ev)
  then show ?thesis
    using assms controller_step_mode [of tr ev c c'] by (auto simp: system_inv_def split: if_splits)
qed

interpretation sys_mode: machine "lift_step (system_step tr)"
  "Some (sessions_init, controller_setup t index vm quality adaptive mode)" "\<lambda>_. True"
  "returns_with (\<lambda>sc. system_inv sc \<and> m_operatingMode (snd sc) = mode)" for tr t index vm quality adaptive mode
proof unfold_locales
  show "returns_with (\<lambda>sc. system_inv sc \<and> m_operatingMode (snd sc) = mode)
      (Some (sessions_init, controller_setup t index vm quality adaptive mode))"
    using sys.inv_start [of t index vm quality adaptive mode]
    by (simp add: controller_setup_def setOperationMode_def)
  fix e x assume "returns_with (\<lambda>sc. system_inv sc \<and> m_operatingMode (snd sc) = mode) x"
  then obtain s c where x: "x = Some (s, c)" "system_inv (s, c)" "m_operatingMode c = mode"
    by (auto simp: returns_with_iff)
  obtain s' c' where "system_step tr e (s, c) = Some (s', c')" "system_inv (s', c')"
    using system_step_inv [OF x(2), of tr e] by (auto simp: returns_with_iff)
  then show "returns_with (\<lambda>sc. system_inv sc \<and> m_operatingMode (snd sc) = mode) (lift_step (system_step tr) e x)"
    using x system_step_mode by simp
qed

text \<open>
The desktop is not left unlocked. Whatever connections come, are activated, fail and go, and whatever
their sessions and the login manager report: the controller never fails, and when the desktop was unlocked
last rather than locked, the program is in remote access mode and a connection that the server still holds
or is destroying has a session. So once the last connection is gone the desktop is locked again.
\<close>

theorem desktop_not_left_unlocked:
  "\<exists>s c. fold (lift_step (system_step tr)) es
       (Some (sessions_init, controller_setup t index vm quality adaptive mode)) = Some (s, c) \<and>
     (unlocked (ctl_log c) \<longrightarrow>
        m_operatingMode c = RemoteAccess \<and> m_wrappers c \<noteq> [] \<and>
        w_connection ` set (m_wrappers c) \<subseteq> set (ss_sessions s) \<union> set (ss_dying s))"
proof -
  note system_reach [of tr es t index vm quality adaptive mode]
  then obtain s c where run: "fold (lift_step (system_step tr)) es
       (Some (sessions_init, controller_setup t index vm quality adaptive mode)) = Some (s, c)"
    and "system_inv (s, c)" by (auto simp: returns_with_iff)
  then have "lock_fine c" "w_connection ` set (m_wrappers c) \<subseteq> set (ss_sessions s) \<union> set (ss_dying s)"
    by (auto simp: system_inv_def ctl_inv_def wrappers_fine_def)
  then show ?thesis using run by (simp add: lock_fine_def)
qed

lemmas setup_defs = controller_setup_def setOperationMode_def controller_setAdaptiveQuality_def setQuality_def
  setMonitorIndex_def controller_init_def watchSessionActive_def sessions_init_def

lemmas activation_defs = incomingConnection_def onNewConnection_def onConnectionState_def onActivated_def
  assign_monitor_def setVirtualMonitor_def session_init_def onStateChanged_def setSessionLocked_def
  switchToGreeter_def close_all_def ctl_emit_def Let_def

theorem desktop_not_left_unlocked_witness:
  "\<exists>s c. fold (lift_step (system_step qs)) [SysIncoming, SysState 0 Activated]
       (Some (sessions_init, controller_setup PortalType None None 100 True RemoteAccess)) = Some (s, c) \<and>
     m_wrappers c \<noteq> [] \<and> w_connection ` set (m_wrappers c) \<subseteq> set (ss_sessions s) \<union> set (ss_dying s)"
proof -
  let ?run = "fold (lift_step (system_step qs)) [SysIncoming, SysState 0 Activated]
       (Some (sessions_init, controller_setup PortalType None None 100 True RemoteAccess))"
  have "returns_with (\<lambda>sc :: server_sessions \<times> controller. unlocked (ctl_log (snd sc))) ?run"
    by (simp add: setup_defs activation_defs unlocked_def)
  then show ?thesis
    using desktop_not_left_unlocked
      [of qs "[SysIncoming, SysState 0 Activated]" PortalType None None 100 True RemoteAccess]
    by (auto simp: returns_with_iff)
qed

text \<open>
C15. In remote access without a monitor chosen on the command line the newest client has the desktop to
itself: of all clients with a session, each but the newest has been told to close because another one
took over.
\<close>

theorem newest_client_takes_over:
  assumes "fold (lift_step (system_step tr)) es
      (Some (sessions_init, controller_setup t index vm quality adaptive mode)) = Some (s, c)"
    and "m_operatingMode c = RemoteAccess" and "m_virtualMonitor c = None" and "m_monitorIndex c = None"
    and "w \<in> set (butlast (m_wrappers c))"
  shows "CloseConnection (w_connection w) OtherConnection \<in> set (ctl_log c)"
proof -
  note system_reach [of tr es t index vm quality adaptive mode]
  then show ?thesis
    using assms by (simp add: system_inv_def ctl_inv_def no_override_def others_closed_def)
qed

theorem newest_client_takes_over_witness:
  "\<exists>s c. fold (lift_step (system_step qs)) [SysIncoming, SysState 0 Activated, SysIncoming, SysState 1 Activated]
       (Some (sessions_init, controller_setup PortalType None None 100 True RemoteAccess)) = Some (s, c) \<and>
     CloseConnection 0 OtherConnection \<in> set (ctl_log c)"
proof -
  let ?run = "fold (lift_step (system_step qs)) [SysIncoming, SysState 0 Activated, SysIncoming, SysState 1 Activated]
       (Some (sessions_init, controller_setup PortalType None None 100 True RemoteAccess))"
  define good where "good = (\<lambda>sc :: server_sessions \<times> controller. m_operatingMode (snd sc) = RemoteAccess \<and> m_virtualMonitor (snd sc) = None \<and>
     m_monitorIndex (snd sc) = None \<and> map w_connection (m_wrappers (snd sc)) = [0, 1])"
  have "returns_with good ?run"
    by (simp add: good_def setup_defs activation_defs)
  then obtain s c where run: "?run = Some (s, c)" and c: "m_operatingMode c = RemoteAccess" "m_virtualMonitor c = None"
      "m_monitorIndex c = None" and ws: "map w_connection (m_wrappers c) = [0, 1]"
    by (auto simp: returns_with_iff good_def)
  obtain w v where "m_wrappers c = [w, v]" "w_connection w = 0"
    using ws by (auto simp: map_eq_Cons_conv)
  then show ?thesis using newest_client_takes_over [OF run c, of w] run by auto
qed

end
