(* ===== verification/PicturePath.thy ===== *)
theory PicturePath
  imports VideoSource DisplayControl SessionController
begin

text \<open>
  The way of the picture: one client's display control channel, its session wrapper and its video
  stream, as \<open>VideoStream\<close>'s constructor and \<open>SessionWrapper\<close>'s connect them. The channels run on
  other threads than the slots, so the signals \<open>displayLayoutChanged\<close> and \<open>enabledChanged\<close> wait in
  the main thread's queue; a slot reads what is current when it runs.
\<close>

section \<open>State\<close>

record picture =
  pic_display :: display_control
  pic_wrapper :: "wrapper option"
  pic_stream :: video_stream
  pic_layoutSignals :: nat
  pic_enabledSignals :: nat

definition picture_init :: picture where
  "picture_init = \<lparr>pic_display = display_init, pic_wrapper = None, pic_stream = stream_init,
     pic_layoutSignals = 0, pic_enabledSignals = 0\<rparr>"

text \<open>
  The calls of the wrapper on the stream of its connection. What KPipeWire answers: whether the source
  could be created, its size, and whether the encoder is paused.
\<close>

record pipewire_answers =
  pw_created :: bool
  pw_size :: qsize
  pw_paused :: bool

fun stream_call :: "pipewire_answers \<Rightarrow> controller_out \<Rightarrow> video_stream \<Rightarrow> video_stream" where
  "stream_call a (StreamSetSource conn node serial fd) s =
     stream_setPipeWireSource (pw_created a) (pw_size a) node serial fd s"
| "stream_call a (StreamSetStreaming conn on) s = stream_setStreamingEnabled (pw_paused a) on s"
| "stream_call a _ s = s"

datatype 'r picture_event =
    PicLayoutPdu "monitor_layout list"
  | PicLayoutSlot
  | PicWrapper wrapper
  | PicSessionStarted session pipewire_answers
  | PicEnabledSlot pipewire_answers
  | PicSetEnabled bool
  | PicPacket conn_state bool packet
  | PicFrame conn_state bool "qimage option" pipewire_frame
  | PicStream "'r vs_event"

text \<open>What the stream does that is not one of the calls from outside.\<close>

fun own_event :: "'r vs_event \<Rightarrow> bool" where
  "own_event (SetRequestedSize sz) = False"
| "own_event (SetPipeWireSource created sz node serial fd) = False"
| "own_event (SetStreamingEnabled paused on) = False"
| "own_event (SetEnabled on) = False"
| "own_event _ = True"

definition upd_stream :: "(video_stream \<Rightarrow> video_stream) \<Rightarrow> picture \<Rightarrow> picture" where
  "upd_stream f p = p\<lparr>pic_stream := f (pic_stream p)\<rparr>"

section \<open>Steps\<close>

text \<open>
  A layout PDU is signalled when it is accepted. A wrapper is made at most once, with a session that has not
  started; signals sent before have no receiver. \<open>PicSessionStarted\<close> has the session as it is when
  it announces its start.
\<close>

fun picture_step :: "'r picture_event \<Rightarrow> picture \<Rightarrow> picture" where
  "picture_step (PicLayoutPdu monitors) p =
     (let (rc, d) = receiveMonitorLayout monitors (pic_display p)
      in p\<lparr>pic_display := d,
           pic_layoutSignals := pic_layoutSignals p + (if rc = CHANNEL_RC_OK then 1 else 0)\<rparr>)"
| "picture_step PicLayoutSlot p =
     (if pic_layoutSignals p = 0 then p
      else upd_stream (stream_onDisplayLayoutChanged (m_display (pic_display p)))
             (p\<lparr>pic_layoutSignals := pic_layoutSignals p - 1\<rparr>))"
| "picture_step (PicWrapper w) p =
     (if pic_wrapper p = None \<and> \<not> w_sessionStarted w then p\<lparr>pic_wrapper := Some w\<rparr> else p)"
| "picture_step (PicSessionStarted sess a) p =
     (case pic_wrapper p of
        None \<Rightarrow> p
      | Some w \<Rightarrow>
          let (w', calls) = wrapper_started (vs_enabled (pic_stream p)) (w\<lparr>w_session := sess\<rparr>)
          in upd_stream (fold (stream_call a) calls) (p\<lparr>pic_wrapper := Some w'\<rparr>))"
| "picture_step (PicEnabledSlot a) p =
     (case pic_wrapper p of
        None \<Rightarrow> p
      | Some w \<Rightarrow>
          if pic_enabledSignals p = 0 then p
          else upd_stream (fold (stream_call a) (wrapper_enabledChanged (vs_enabled (pic_stream p)) w))
                 (p\<lparr>pic_enabledSignals := pic_enabledSignals p - 1\<rparr>))"
| "picture_step (PicSetEnabled on) p =
     upd_stream (stream_setEnabled on)
       (p\<lparr>pic_enabledSignals := pic_enabledSignals p +
            (if pic_wrapper p \<noteq> None \<and> vs_enabled (pic_stream p) \<noteq> on then 1 else 0)\<rparr>)"
| "picture_step (PicPacket st paused data) p = upd_stream (stream_onPacketReceived st paused data) p"
| "picture_step (PicFrame st paused download raw) p = upd_stream (stream_onFrameReceived st paused download raw) p"
| "picture_step (PicStream e) p = (if own_event e then upd_stream (vs_step e) p else p)"

text \<open>The session of the client has announced its start.\<close>

definition picture_session :: "picture \<Rightarrow> session option" where
  "picture_session p =
     (case pic_wrapper p of
        None \<Rightarrow> None
      | Some w \<Rightarrow> if w_sessionStarted w then Some (w_session w) else None)"

text \<open>A session that announces its start has found its PipeWire node.\<close>

fun node_found :: "'r picture_event \<Rightarrow> bool" where
  "node_found (PicSessionStarted sess a) = (s_nodeId sess \<noteq> 0)"
| "node_found _ = True"

section \<open>The invariant\<close>

definition layout_current :: "picture \<Rightarrow> bool" where
  "layout_current p \<longleftrightarrow> pic_layoutSignals p = 0 \<longrightarrow>
     (case m_display (pic_display p) of
        [] \<Rightarrow> True
      | d # _ \<Rightarrow> qsize_isValid (mon_size d) \<longrightarrow> requestedSize (surf (pic_stream p)) = mon_size d)"

definition source_current :: "picture \<Rightarrow> bool" where
  "source_current p \<longleftrightarrow>
     (case picture_session p of
        None \<Rightarrow> \<not> streamingEnabled (pic_stream p)
      | Some sess \<Rightarrow> s_nodeId sess \<noteq> 0 \<and> nodeId (surf (pic_stream p)) = s_nodeId sess \<and>
          objectSerial (surf (pic_stream p)) = s_objectSerial sess \<and>
          (pic_enabledSignals p = 0 \<longrightarrow> streamingEnabled (pic_stream p) = vs_enabled (pic_stream p)))"

definition picture_inv :: "picture \<Rightarrow> bool" where
  "picture_inv p \<longleftrightarrow> streams_told (pic_stream p) \<and> layout_current p \<and> source_current p"

lemma upd_stream_fields [simp]:
  "pic_display (upd_stream f p) = pic_display p" "pic_wrapper (upd_stream f p) = pic_wrapper p"
  "pic_layoutSignals (upd_stream f p) = pic_layoutSignals p"
  "pic_enabledSignals (upd_stream f p) = pic_enabledSignals p" "pic_stream (upd_stream f p) = f (pic_stream p)"
  "picture_session (upd_stream f p) = picture_session p"
  "picture_session (p\<lparr>pic_display := d\<rparr>) = picture_session p"
  "picture_session (p\<lparr>pic_layoutSignals := n\<rparr>) = picture_session p"
  "picture_session (p\<lparr>pic_enabledSignals := n\<rparr>) = picture_session p"
  by (simp_all add: upd_stream_def picture_session_def)

lemma own_event_request:
  assumes "own_event e"
  shows "nodeId (surf (vs_step e s)) = nodeId (surf s)" "objectSerial (surf (vs_step e s)) = objectSerial (surf s)"
    "streamingEnabled (vs_step e s) = streamingEnabled s" "vs_enabled (vs_step e s) = vs_enabled s"
    "qsize_isValid (requestedSize (surf s)) \<Longrightarrow> requestedSize (surf (vs_step e s)) = requestedSize (surf s)"
proof -
  have "(\<exists>cn gi pn w h. e = VsInitialize cn gi pn w h) \<or> same_request s (vs_step e s)"
    using assms by (cases e) (auto intro!: same_request_caps stream_close_request aside_same aside_intros)
  then show "nodeId (surf (vs_step e s)) = nodeId (surf s)" "objectSerial (surf (vs_step e s)) = objectSerial (surf s)"
    "streamingEnabled (vs_step e s) = streamingEnabled s" "vs_enabled (vs_step e s) = vs_enabled s"
    "qsize_isValid (requestedSize (surf s)) \<Longrightarrow> requestedSize (surf (vs_step e s)) = requestedSize (surf s)"
    using initialize_request by (auto simp: same_request_def)
qed

lemma own_event_real: "own_event e \<Longrightarrow> real_source e"
  by (cases e) simp_all

text \<open>Changes of the stream that ask for nothing new.\<close>

lemma upd_stream_inv:
  assumes "picture_inv p" and "streams_told (f (pic_stream p))"
    and "nodeId (surf (f (pic_stream p))) = nodeId (surf (pic_stream p))"
      "objectSerial (surf (f (pic_stream p))) = objectSerial (surf (pic_stream p))"
      "streamingEnabled (f (pic_stream p)) = streamingEnabled (pic_stream p)"
      "vs_enabled (f (pic_stream p)) = vs_enabled (pic_stream p)"
      "qsize_isValid (requestedSize (surf (pic_stream p))) \<Longrightarrow>
         requestedSize (surf (f (pic_stream p))) = requestedSize (surf (pic_stream p))"
  shows "picture_inv (upd_stream f p)"
  using assms
  by (auto simp: picture_inv_def layout_current_def source_current_def split: list.splits option.splits)

lemma upd_stream_aside:
  assumes "picture_inv p" and "aside (pic_stream p) (f (pic_stream p))"
  shows "picture_inv (upd_stream f p)"
  using assms aside_same [OF assms(2)] streams_told_aside [OF assms(2)]
  by (intro upd_stream_inv) (simp_all add: same_request_def picture_inv_def)

lemma setPipeWireSource_request [simp]:
  "nodeId (surf (stream_setPipeWireSource created sz node serial fd s)) = node"
  "objectSerial (surf (stream_setPipeWireSource created sz node serial fd s)) = serial"
  "requestedSize (surf (stream_setPipeWireSource created sz node serial fd s)) = requestedSize (surf s)"
  "streamingEnabled (stream_setPipeWireSource created sz node serial fd s) = streamingEnabled s"
  "vs_enabled (stream_setPipeWireSource created sz node serial fd s) = vs_enabled s"
  by (simp_all add: stream_setPipeWireSource_def surface_setPipeWireSource_def setSize_def
      failVideoInitialization_def Let_def)

lemma setStreamingEnabled_request [simp]:
  "surf (stream_setStreamingEnabled paused on s) = surf s"
  "streamingEnabled (stream_setStreamingEnabled paused on s) = on"
  "vs_enabled (stream_setStreamingEnabled paused on s) = vs_enabled s"
  by (simp_all add: stream_setStreamingEnabled_def surface_setStreamingEnabled_def Let_def)

lemma setRequestedSize_request [simp]:
  "nodeId (surf (stream_setRequestedSize sz s)) = nodeId (surf s)"
  "objectSerial (surf (stream_setRequestedSize sz s)) = objectSerial (surf s)"
  "requestedSize (surf (stream_setRequestedSize sz s)) = sz"
  "streamingEnabled (stream_setRequestedSize sz s) = streamingEnabled s"
  "vs_enabled (stream_setRequestedSize sz s) = vs_enabled s"
  by (simp_all add: stream_setRequestedSize_def surface_setRequestedSize_def Let_def)

lemma setEnabled_request [simp]:
  "surf (stream_setEnabled on s) = surf s" "streamingEnabled (stream_setEnabled on s) = streamingEnabled s"
  "vs_enabled (stream_setEnabled on s) = on"
  by (simp_all add: stream_setEnabled_def)

lemma picture_step_inv:
  assumes inv: "picture_inv p" and "node_found e" shows "picture_inv (picture_step e p)"
proof (cases e)
  case (PicLayoutPdu monitors)
  then show ?thesis
    using inv by (auto simp: receiveMonitorLayout_single picture_inv_def layout_current_def source_current_def
        disp_emit_def CHANNEL_RC_OK_def CHANNEL_RC_BAD_CHANNEL_def split: option.splits list.splits)
next
  case PicLayoutSlot
  have "streams_told (stream_setRequestedSize sz (pic_stream p))" for sz
    using inv streams_told_size by (simp add: stream_setRequestedSize_def picture_inv_def)
  then show ?thesis
    using PicLayoutSlot inv
    by (auto simp: stream_onDisplayLayoutChanged_def picture_inv_def layout_current_def source_current_def
        split: list.splits option.splits)
next
  case (PicWrapper w)
  then show ?thesis
    using inv
    by (auto simp: picture_inv_def layout_current_def source_current_def picture_session_def split: list.splits)
next
  case (PicSessionStarted sess a)
  then have node: "s_nodeId sess \<noteq> 0" using assms(2) by simp
  have "streams_told (stream_setPipeWireSource c sz (s_nodeId sess) serial fd (pic_stream p))" for c sz serial fd
    using inv node streams_told_source by (simp add: stream_setPipeWireSource_def picture_inv_def)
  then show ?thesis
    using PicSessionStarted inv node streams_told_streaming
    by (auto simp: wrapper_started_def takePipeWireFd_def picture_inv_def layout_current_def source_current_def
        picture_session_def split: option.split list.split)
next
  case (PicEnabledSlot a)
  then show ?thesis
    using inv streams_told_streaming
    by (auto simp: wrapper_enabledChanged_def picture_inv_def layout_current_def source_current_def
        picture_session_def split: option.splits list.splits if_splits)
next
  case (PicSetEnabled on)
  then show ?thesis
    using inv streams_told_enabled
    by (auto simp: picture_inv_def layout_current_def source_current_def
        picture_session_def split: option.splits list.splits if_splits)
next
  case (PicPacket st paused data)
  then show ?thesis using inv by (auto intro!: upd_stream_aside aside_intros)
next
  case (PicFrame st paused download raw)
  then show ?thesis using inv by (auto intro!: upd_stream_aside aside_intros)
next
  case (PicStream ev)
  show ?thesis
  proof (cases "own_event ev")
    case True
    have "streams_told (vs_step ev (pic_stream p))"
      using inv vs_step_told [OF _ own_event_real [OF True]] by (simp add: picture_inv_def)
    then have "picture_inv (upd_stream (vs_step ev) p)"
      by (rule upd_stream_inv [where f = "vs_step ev", OF inv])
        (simp_all add: own_event_request [OF True])
    then show ?thesis using PicStream True by simp
  qed (simp add: PicStream inv)
qed

lemma picture_init_inv: "picture_inv picture_init"
  using stream_init_told
  by (simp add: picture_inv_def picture_init_def layout_current_def source_current_def picture_session_def
      display_init_def stream_init_def)

interpretation picture: machine picture_step picture_init node_found picture_inv
  by unfold_locales (auto intro: picture_step_inv picture_init_inv)

section \<open>Properties\<close>

text \<open>Whether the stream of the negotiated codec runs, where it comes from and what size it was asked for.\<close>

definition picture_flows :: "encoding_mode \<Rightarrow> video_stream \<Rightarrow> bool" where
  "picture_flows mode s = (case mode of H264 \<Rightarrow> ev_on (enc_told s) | Progressive \<Rightarrow> sv_on (src_told s))"

definition asked_size :: "encoding_mode \<Rightarrow> video_stream \<Rightarrow> qsize option" where
  "asked_size mode s = (case mode of H264 \<Rightarrow> ev_size (enc_told s) | Progressive \<Rightarrow> sv_size (src_told s))"

lemma picture_flows_wanted:
  assumes "streams_told s" and "\<not> gave_up s" and "activeEncodingMode s = Some mode"
  shows "picture_flows mode s = wanted s"
    and "qsize_isValid (requestedSize (surf s)) \<Longrightarrow> asked_size mode s = Some (requestedSize (surf s))"
  using assms
  by (cases mode; simp add: streams_told_def picture_flows_def asked_size_def encoder_told_def source_told_def)+


text \<open>
C27. The client's window decides the size of the picture. Once no signal of the display control channel is
waiting, the stream of the negotiated codec, also one that was made after the layout came, has been asked
for the size in the last monitor layout that was accepted, if that size is valid; whatever else happened
to the stream.
\<close>

theorem client_size_reaches_stream:
  assumes "list_all node_found es" and "fold picture_step es picture_init = p"
    and "pic_layoutSignals p = 0" and "m_display (pic_display p) = [d]" and "qsize_isValid (mon_size d)"
    and "\<not> gave_up (pic_stream p)" and "activeEncodingMode (pic_stream p) = Some mode"
  shows "asked_size mode (pic_stream p) = Some (mon_size d)"
proof -
  have inv: "streams_told (pic_stream p)" "layout_current p"
    using picture.inv_reach [OF assms(1)] assms(2) by (simp_all add: picture_inv_def)
  have "requestedSize (surf (pic_stream p)) = mon_size d"
    using inv(2) assms(3-5) by (simp add: layout_current_def)
  then show ?thesis using picture_flows_wanted(2) [OF inv(1) assms(6,7)] assms(5) by simp
qed

text \<open>
A client: it is let in, its window is 800 by 600, it suppresses output and asks for it again, the codec
is negotiated only after the session has started.
\<close>

definition demo_wrapper :: wrapper where
  "demo_wrapper = \<lparr>w_id = 0, w_connection = 0, w_session = session_init, w_sessionStarted = False\<rparr>"

definition demo_pw :: pipewire_answers where
  "demo_pw = \<lparr>pw_created = True, pw_size = qsize_default, pw_paused = False\<rparr>"

definition demo_picture :: "rect16 list picture_event list" where
  "demo_picture = [PicStream (VsInitialize True True True 640 480), PicSetEnabled True, PicWrapper demo_wrapper,
     PicLayoutPdu [\<lparr>mon_Width = 800, mon_Height = 600, mon_DesktopScaleFactor = 100\<rparr>],
     PicSessionStarted (session_init\<lparr>s_nodeId := 7, s_objectSerial := 9, s_pipeWireFd := 5\<rparr>) demo_pw,
     PicSetEnabled False, PicSetEnabled True, PicEnabledSlot demo_pw, PicLayoutSlot,
     PicStream (CapsAdvertise False True qsize_default 0 [(0x000A0400, 0)]), PicEnabledSlot demo_pw]"

lemmas picture_eval = vs_eval demo_picture_def demo_wrapper_def demo_pw_def picture_init_def upd_stream_def
  stream_setPipeWireSource_def surface_setPipeWireSource_def stream_setStreamingEnabled_def
  surface_setStreamingEnabled_def wrapper_started_def wrapper_enabledChanged_def takePipeWireFd_def
  stream_onDisplayLayoutChanged_def stream_setRequestedSize_def receiveMonitorLayout_def monitor_of_def
  disp_emit_def display_init_def picture_session_def session_init_def gave_up_def

lemma demo_picture_end:
  assumes "p = fold picture_step demo_picture picture_init"
  shows "pic_enabledSignals p = 0" "pic_layoutSignals p = 0" "\<not> gave_up (pic_stream p)"
    "activeEncodingMode (pic_stream p) = Some H264" "vs_enabled (pic_stream p)" "picture_session p \<noteq> None"
    "map mon_size (m_display (pic_display p)) = [\<lparr>width = 800, height = 600\<rparr>]"
  unfolding assms by (simp_all add: picture_eval)


theorem client_size_reaches_stream_witness:
  "asked_size H264 (pic_stream (fold picture_step demo_picture picture_init)) = Some \<lparr>width = 800, height = 600\<rparr>"
proof -
  let ?p = "fold picture_step demo_picture picture_init"
  have ok: "list_all node_found demo_picture" by (simp add: demo_picture_def)
  obtain d where d: "m_display (pic_display ?p) = [d]" "mon_size d = \<lparr>width = 800, height = 600\<rparr>"
    using demo_picture_end(7) [OF refl] by (auto simp: map_eq_Cons_conv)
  from client_size_reaches_stream [OF ok refl _ d(1), of H264] demo_picture_end [OF refl] d(2) show ?thesis
    by (simp add: qsize_isValid_def)
qed

end
