(* ===== verification/ServerMain.thy ===== *)
theory ServerMain
  imports SessionController
begin

text \<open>
  The server program, \<open>server/main.cpp\<close>: what the command line and the configuration make of the
  server and the controller, and the passwords that come from the keychain afterwards. Qt's parser has
  split the command line; conversions to doubles and addresses and the file system are parameters.
\<close>

section \<open>Numbers and the monitor on the command line\<close>

definition is_digit :: "u16 \<Rightarrow> bool" where
  "is_digit c \<longleftrightarrow> 48 \<le> uint c \<and> uint c \<le> 57"

definition digits_value :: "qstring \<Rightarrow> int" where
  "digits_value ds = fold (\<lambda>c n. 10 * n + (uint c - 48)) ds 0"

definition is_space :: "u16 \<Rightarrow> bool" where
  "is_space c \<longleftrightarrow> uint c = 32 \<or> 9 \<le> uint c \<and> uint c \<le> 13"

definition trimmed :: "qstring \<Rightarrow> qstring" where
  "trimmed s = rev (dropWhile is_space (rev (dropWhile is_space s)))"

text \<open>\<open>QString::toInt\<close> on ASCII text: anything that is not a number of 32 bits is 0.\<close>

definition toInt :: "qstring \<Rightarrow> int" where
  "toInt s =
     (let t = trimmed s;
          (neg, ds) = (case t of
                         [] \<Rightarrow> (False, [])
                       | c # cs \<Rightarrow> if uint c = 45 then (True, cs) else if uint c = 43 then (False, cs) else (False, t));
          v = (if neg then - digits_value ds else digits_value ds)
      in if ds = [] \<or> \<not> list_all is_digit ds then 0
         else if v < - (2 ^ 31) \<or> v > 2 ^ 31 - 1 then 0 else v)"

text \<open>The expression \<open>(\d+)x(\d+)@([\d.]+)\<close>, first at a position, then at the first that matches.\<close>

definition rx_at :: "qstring \<Rightarrow> (qstring \<times> qstring \<times> qstring) option" where
  "rx_at s =
     (let w = takeWhile is_digit s; s1 = dropWhile is_digit s
      in if w = [] \<or> s1 = [] \<or> hd s1 \<noteq> of_char CHR ''x'' then None
         else let h = takeWhile is_digit (tl s1); s2 = dropWhile is_digit (tl s1)
              in if h = [] \<or> s2 = [] \<or> hd s2 \<noteq> of_char (CHR 0x40) then None
                 else let scale = takeWhile (\<lambda>c. is_digit c \<or> c = of_char CHR ''.'') (tl s2)
                      in if scale = [] then None else Some (w, h, scale))"

fun rx_match :: "qstring \<Rightarrow> (qstring \<times> qstring \<times> qstring) option" where
  "rx_match [] = None"
| "rx_match (c # cs) = (case rx_at (c # cs) of Some m \<Rightarrow> Some m | None \<Rightarrow> rx_match cs)"

definition parse_virtual_monitor :: "(qstring \<Rightarrow> real) \<Rightarrow> qstring \<Rightarrow> virtual_monitor option" where
  "parse_virtual_monitor toDouble vmData =
     (case rx_match vmData of
        None \<Rightarrow> None
      | Some (w, h, scale) \<Rightarrow>
          Some \<lparr>mon_name = vmData, mon_size = \<lparr>width = toInt w, height = toInt h\<rparr>, mon_dpr = toDouble scale\<rparr>)"

definition parseOperationMode :: "qstring \<Rightarrow> operation_mode option" where
  "parseOperationMode v =
     (if v = qs ''RemoteAccess'' then Some RemoteAccess
      else if v = qs ''SharedAccess'' then Some SharedAccess
      else if v = qs ''AdditionalDisplay'' then Some AdditionalDisplay
      else None)"

section \<open>The program\<close>

record options =
  o_username :: "qstring option"
  o_password :: "qstring option"
  o_address :: "qstring option"
  o_port :: "qstring option"
  o_certificate :: "qstring option"
  o_certificate_key :: "qstring option"
  o_monitor :: "qstring option"
  o_virtual_monitor :: "qstring option"
  o_mode :: "qstring option"
  o_quality :: "qstring option"
  o_adaptive_quality :: bool
  o_static_quality :: bool
  o_plasma :: bool

record server_config =
  cf_listenPort :: int
  cf_certificate :: qstring
  cf_certificateKey :: qstring
  cf_quality :: int
  cf_adaptiveQuality :: bool
  cf_users :: "qstring list"
  cf_systemUserEnabled :: bool
  cf_exclusiveMode :: bool

record environment =
  to_double :: "qstring \<Rightarrow> real"
  host_address :: "qstring \<Rightarrow> qstring"
  any_address :: qstring
  file_exists :: "qstring \<Rightarrow> bool"
  can_listen :: "qstring \<Rightarrow> u16 \<Rightarrow> bool"

datatype main_result =
    Exit int
  | EventLoop server controller "qstring list"

definition int_option :: "qstring option \<Rightarrow> int \<Rightarrow> int" where
  "int_option x dflt = (case x of Some s \<Rightarrow> toInt s | None \<Rightarrow> dflt)"

definition string_option :: "qstring option \<Rightarrow> qstring \<Rightarrow> qstring" where
  "string_option x dflt = (case x of Some s \<Rightarrow> s | None \<Rightarrow> dflt)"

definition configured_server :: "environment \<Rightarrow> options \<Rightarrow> server_config \<Rightarrow> server" where
  "configured_server env opts cf =
     setTlsCertificateKey (string_option (o_certificate_key opts) (cf_certificateKey cf))
       (setTlsCertificate (string_option (o_certificate opts) (cf_certificate cf))
         (setPort (of_int (int_option (o_port opts) (cf_listenPort cf)))
           (setAddress (case o_address opts of Some a \<Rightarrow> host_address env a | None \<Rightarrow> any_address env)
             server_init)))"

text \<open>
  The users: the one of the command line, or those of the configuration, whose passwords are asked of
  the keychain. \<open>None\<close> if nobody could log in.
\<close>

definition configure_users :: "options \<Rightarrow> server_config \<Rightarrow> server \<Rightarrow> (server \<times> qstring list) option" where
  "configure_users opts cf s =
     (case o_username opts of
        Some name \<Rightarrow>
          Some (Server.addUser \<lparr>user_name = name, user_password = string_option (o_password opts) [], readOnly = False\<rparr> s, [])
      | None \<Rightarrow>
          let s1 = setUsePAMAuthentication (cf_systemUserEnabled cf) s
          in if cf_users cf = [] \<and> \<not> usePamAuthentication s1 then None else Some (s1, cf_users cf))"

definition configure_monitor :: "environment \<Rightarrow> options \<Rightarrow> controller \<Rightarrow> controller option" where
  "configure_monitor env opts c =
     (case o_virtual_monitor opts of
        Some vmData \<Rightarrow>
          map_option (\<lambda>vm. controller_setVirtualMonitor vm c) (parse_virtual_monitor (to_double env) vmData)
      | None \<Rightarrow> Some (setMonitorIndex (map_option toInt (o_monitor opts)) c))"

definition configure_quality :: "options \<Rightarrow> server_config \<Rightarrow> controller \<Rightarrow> controller" where
  "configure_quality opts cf c =
     controller_setAdaptiveQuality ((o_adaptive_quality opts \<or> cf_adaptiveQuality cf) \<and> \<not> o_static_quality opts)
       (setQuality (Some (int_option (o_quality opts) (cf_quality cf))) c)"

definition configure_mode :: "options \<Rightarrow> server_config \<Rightarrow> controller \<Rightarrow> controller option" where
  "configure_mode opts cf c =
     (case o_mode opts of
        Some m \<Rightarrow> map_option (\<lambda>mode. setOperationMode mode c) (parseOperationMode m)
      | None \<Rightarrow> Some (setOperationMode (if cf_exclusiveMode cf then RemoteAccess else SharedAccess) c))"

definition server_main :: "environment \<Rightarrow> options \<Rightarrow> server_config \<Rightarrow> main_result" where
  "server_main env opts cf =
     (case configure_users opts cf (configured_server env opts cf) of
        None \<Rightarrow> Exit (- 1)
      | Some (s, jobs) \<Rightarrow>
          (case configure_monitor env opts (controller_init (if o_plasma opts then PlasmaType else PortalType)) of
             None \<Rightarrow> Exit 1
           | Some c \<Rightarrow>
               (case configure_mode opts cf (configure_quality opts cf c) of
                  None \<Rightarrow> Exit 1
                | Some c' \<Rightarrow>
                    (let (ok, s') = server_start (file_exists env) (can_listen env) s
                     in if ok then EventLoop s' c' jobs else Exit (- 1)))))"

text \<open>
  In the event loop the keychain answers: an error, or the password of a user, who is added then.
\<close>

definition keychain_finished :: "qstring \<Rightarrow> qstring option \<Rightarrow> server \<times> qstring list \<Rightarrow> server \<times> qstring list" where
  "keychain_finished name reply sj =
     (if name \<in> set (snd sj)
      then (case reply of
              None \<Rightarrow> fst sj
            | Some pw \<Rightarrow> Server.addUser \<lparr>user_name = name, user_password = pw, readOnly = False\<rparr> (fst sj),
            remove1 name (snd sj))
      else sj)"

section \<open>Numbers\<close>

fun dec :: "nat \<Rightarrow> qstring" where
  "dec n = (if n < 10 then [of_nat (48 + n)] else dec (n div 10) @ [of_nat (48 + n mod 10)])"

declare dec.simps [simp del]

lemma digit_char: "d < 10 \<Longrightarrow> uint (of_nat (48 + d) :: u16) = 48 + int d"
  by (simp add: uint_nat unsigned_of_nat take_bit_eq_mod del: of_nat_add)

lemma is_digit_char: "d < 10 \<Longrightarrow> is_digit (of_nat (48 + d))"
  using digit_char [of d] by (simp add: is_digit_def del: of_nat_add)

lemma dec_digits: "list_all is_digit (dec n)"
proof (induction n rule: dec.induct)
  case (1 n)
  then show ?case
    using is_digit_char [of n] is_digit_char [of "n mod 10"]
    by (simp add: dec.simps [of n] del: of_nat_add)
qed

lemma dec_not_Nil [simp]: "dec n \<noteq> []"
  by (simp add: dec.simps [of n])

lemma digits_value_dec: "digits_value (dec n) = int n"
proof (induction n rule: dec.induct)
  case (1 n)
  show ?case
  proof (cases "n < 10")
    case True
    then show ?thesis using digit_char [of n] by (simp add: dec.simps [of n] digits_value_def del: of_nat_add)
  next
    case False
    then have "digits_value (dec (n div 10)) = int (n div 10)" using 1 by simp
    then show ?thesis
      using False digit_char [of "n mod 10"]
      by (simp add: dec.simps [of n] digits_value_def zdiv_int zmod_int del: of_nat_add)
  qed
qed

lemma not_space_digit: "is_digit c \<Longrightarrow> \<not> is_space c"
  by (auto simp: is_digit_def is_space_def)

lemma trimmed_digits: "list_all is_digit ds \<Longrightarrow> trimmed ds = ds"
proof -
  have drop: "list_all is_digit xs \<Longrightarrow> dropWhile is_space xs = xs" for xs
    by (cases xs) (auto dest: not_space_digit)
  assume "list_all is_digit ds"
  then show ?thesis using drop [of ds] drop [of "rev ds"] by (simp add: trimmed_def)
qed

lemma toInt_dec:
  assumes "int n < 2 ^ 31"
  shows "toInt (dec n) = int n"
proof -
  obtain c cs where c: "dec n = c # cs" by (cases "dec n") auto
  then have "is_digit c" using dec_digits [of n] by simp
  then have "uint c \<noteq> 45" "uint c \<noteq> 43" by (auto simp: is_digit_def)
  then show ?thesis
    using assms c dec_digits [of n] digits_value_dec [of n] by (simp add: toInt_def trimmed_digits Let_def)
qed

section \<open>The monitor on the command line\<close>

lemma take_drop_digits:
  assumes "list_all P ds" and "c = [] \<or> \<not> P (hd c)"
  shows "takeWhile P (ds @ c) = ds" "dropWhile P (ds @ c) = c"
proof -
  have "takeWhile P c = []" "dropWhile P c = c" using assms(2) by (cases c; auto)+
  then show "takeWhile P (ds @ c) = ds" "dropWhile P (ds @ c) = c"
    using assms(1) by (simp_all add: takeWhile_append2 dropWhile_append2 list_all_iff)
qed

lemma rx_match_skip:
  assumes "list_all (\<lambda>c. \<not> is_digit c) junk"
  shows "rx_match (junk @ s) = rx_match s"
  using assms by (induction junk) (simp_all add: rx_at_def)

lemma rx_at_monitor:
  assumes "list_all is_digit w" "w \<noteq> []" "list_all is_digit h" "h \<noteq> []"
    and "list_all (\<lambda>c. is_digit c \<or> c = of_char CHR ''.'') sc" "sc \<noteq> []"
    and "rest = [] \<or> \<not> (is_digit (hd rest) \<or> hd rest = of_char CHR ''.'')"
  shows "rx_at (w @ of_char CHR ''x'' # h @ of_char (CHR 0x40) # sc @ rest) = Some (w, h, sc)"
proof -
  have sep: "\<not> is_digit (of_char CHR ''x'')" "\<not> is_digit (of_char (CHR 0x40))"
    by (simp_all add: is_digit_def of_char_def)
  show ?thesis
    using assms sep take_drop_digits [OF assms(1), of "of_char CHR ''x'' # h @ of_char (CHR 0x40) # sc @ rest"]
      take_drop_digits [OF assms(3), of "of_char (CHR 0x40) # sc @ rest"] take_drop_digits [OF assms(5,7)]
    by (simp add: rx_at_def Let_def)
qed

lemma rx_match_at: "rx_at s = Some m \<Longrightarrow> rx_match s = Some m"
  by (cases s) (simp_all add: rx_at_def)

text \<open>
C34. A monitor that is written as the help text says is read as it was written: width, height and scale of
\<open>WIDTHxHEIGHT@SCALE\<close> come out as they are, for every size below 2^31; text around it without digits
before it is ignored.
\<close>

theorem virtual_monitor_round_trip:
  assumes "int w < 2 ^ 31" and "int h < 2 ^ 31"
    and "list_all (\<lambda>c. is_digit c \<or> c = of_char CHR ''.'') sc" and "sc \<noteq> []"
    and "list_all (\<lambda>c. \<not> is_digit c) before"
    and "rest = [] \<or> \<not> (is_digit (hd rest) \<or> hd rest = of_char CHR ''.'')"
  shows "parse_virtual_monitor toDouble (before @ dec w @ qs ''x'' @ dec h @ [of_char (CHR 0x40)] @ sc @ rest) =
    Some \<lparr>mon_name = before @ dec w @ qs ''x'' @ dec h @ [of_char (CHR 0x40)] @ sc @ rest,
          mon_size = \<lparr>width = int w, height = int h\<rparr>, mon_dpr = toDouble sc\<rparr>"
proof -
  have "rx_at (dec w @ of_char CHR ''x'' # dec h @ of_char (CHR 0x40) # sc @ rest) = Some (dec w, dec h, sc)"
    using assms by (intro rx_at_monitor dec_digits) simp_all
  then have "rx_match (before @ dec w @ of_char CHR ''x'' # dec h @ of_char (CHR 0x40) # sc @ rest) =
      Some (dec w, dec h, sc)"
    using rx_match_skip [OF assms(5)] rx_match_at by metis
  then show ?thesis using assms by (simp add: parse_virtual_monitor_def qs_def toInt_dec)
qed

theorem virtual_monitor_round_trip_witness:
  "parse_virtual_monitor (\<lambda>_. 1) (dec 1920 @ qs ''x'' @ dec 1080 @ [of_char (CHR 0x40)] @ qs ''1.5'') =
    Some \<lparr>mon_name = dec 1920 @ qs ''x'' @ dec 1080 @ [of_char (CHR 0x40)] @ qs ''1.5'',
          mon_size = \<lparr>width = 1920, height = 1080\<rparr>, mon_dpr = 1\<rparr>"
  using virtual_monitor_round_trip [of 1920 1080 "qs ''1.5''" "[]" "[]" "\<lambda>_. 1"]
  by (simp add: qs_def is_digit_def of_char_def)

section \<open>A program that runs can be used\<close>

definition someone_can_log_in :: "server \<Rightarrow> qstring list \<Rightarrow> bool" where
  "someone_can_log_in s jobs \<longleftrightarrow> users s \<noteq> [] \<or> usePamAuthentication s \<or> jobs \<noteq> []"

lemma configured_controller:
  assumes "configure_monitor env opts (controller_init t) = Some c"
    and "configure_mode opts cf (configure_quality opts cf c) = Some c'"
  shows "\<exists>vm mode. c' = controller_setup t (map_option toInt (o_monitor opts)) vm (int_option (o_quality opts) (cf_quality cf))
     ((o_adaptive_quality opts \<or> cf_adaptiveQuality cf) \<and> \<not> o_static_quality opts) mode \<and>
     (mode = RemoteAccess \<longrightarrow> o_mode opts = Some (qs ''RemoteAccess'') \<or> o_mode opts = None \<and> cf_exclusiveMode cf)"
proof -
  obtain mode where mode: "c' = setOperationMode mode (configure_quality opts cf c)"
     "mode = RemoteAccess \<longrightarrow> o_mode opts = Some (qs ''RemoteAccess'') \<or> o_mode opts = None \<and> cf_exclusiveMode cf"
    using assms(2)
    by (auto simp: configure_mode_def parseOperationMode_def split: option.splits if_splits)
  obtain vm where "c = (case vm of Some v \<Rightarrow> controller_setVirtualMonitor v (controller_init t)
      | None \<Rightarrow> setMonitorIndex (map_option toInt (o_monitor opts)) (controller_init t))"
  proof (cases "o_virtual_monitor opts")
    case None
    then show ?thesis using assms(1) that [of None] by (simp add: configure_monitor_def)
  next
    case (Some vmData)
    then obtain v where "c = controller_setVirtualMonitor v (controller_init t)"
      using assms(1) by (auto simp: configure_monitor_def)
    then show ?thesis using that [of "Some v"] by simp
  qed
  then show ?thesis using mode by (auto simp: controller_setup_def configure_quality_def)
qed

lemma main_controller:
  assumes "server_main env opts cf = EventLoop s c jobs"
  shows "\<exists>t index vm q adaptive mode. c = controller_setup t index vm q adaptive mode \<and>
     (mode = RemoteAccess \<longrightarrow> o_mode opts = Some (qs ''RemoteAccess'') \<or> o_mode opts = None \<and> cf_exclusiveMode cf)"
proof -
  let ?t = "if o_plasma opts then PlasmaType else PortalType"
  obtain c0 where "configure_monitor env opts (controller_init ?t) = Some c0"
       "configure_mode opts cf (configure_quality opts cf c0) = Some c"
    using assms by (auto simp: server_main_def split: option.splits prod.splits if_splits)
  from configured_controller [OF this] show ?thesis by blast
qed


definition demo_environment :: environment where
  "demo_environment = \<lparr>to_double = (\<lambda>_. 1), host_address = id, any_address = qs ''::'', file_exists = (\<lambda>p. p \<noteq> []),
     can_listen = (\<lambda>_ _. True)\<rparr>"

definition demo_options :: options where
  "demo_options = \<lparr>o_username = Some (qs ''kde''), o_password = None, o_address = None, o_port = None,
     o_certificate = Some (qs ''c''), o_certificate_key = Some (qs ''k''), o_monitor = None,
     o_virtual_monitor = None, o_mode = None, o_quality = None, o_adaptive_quality = False,
     o_static_quality = False, o_plasma = False\<rparr>"

definition demo_config :: server_config where
  "demo_config = \<lparr>cf_listenPort = 3389, cf_certificate = [], cf_certificateKey = [], cf_quality = 75,
     cf_adaptiveQuality = True, cf_users = [], cf_systemUserEnabled = False, cf_exclusiveMode = False\<rparr>"


end
