(* ===== verification/ServerSettings.thy ===== *)
theory ServerSettings
  imports ServerMain
begin

text \<open>
  The settings module, \<open>kcm/kcmkrdpserver.cpp\<close> and \<open>kcm/usersmodel.cpp\<close>: the users model over the
  settings, the user list with its passwords in the wallet, the certificate, the state of the systemd
  unit and its journal. Wallet jobs take effect in the order they are started; calls on D-Bus and
  signals are a log; answers of the journal are arguments.
\<close>

section \<open>State\<close>

datatype unit_status = UnitUnknown | UnitRunning | UnitStopped | UnitFailed

datatype h264_support = H264Unknown | H264Supported | H264Unsupported

datatype kcm_out =
    ModelReset
  | DataChanged nat
  | SettingsSaved
  | KrdpServerSettingsChanged
  | ServerStatusChanged
  | ErrorMessageChanged
  | H264SupportChanged
  | GenerateCertificateSucceeded
  | GenerateCertificateFailed
  | MakePath
  | RunOpenSsl qstring qstring
  | EnableUnitFiles
  | DisableUnitFiles
  | StartUnit
  | StopUnitCall
  | RestartUnit
  | GetActiveState
  | GetInvocationId
  | SetPermission
  | PasswordLoaded qstring qstring
  | KeychainError
  | ProbeEncoders
  | WatchUnitProperties
  | CopyToClipboard qstring

record kcm =
  k_users :: "qstring list"
  k_systemUserEnabled :: bool
  k_certificate :: qstring
  k_certificateKey :: qstring
  k_config :: server_config
  k_status :: unit_status
  k_errorMessage :: qstring
  k_h264 :: h264_support
  k_tokenCreated :: bool
  k_wallet :: "u8 list \<rightharpoonup> qstring"
  k_log :: "kcm_out list"

definition k_emit :: "kcm_out list \<Rightarrow> kcm \<Rightarrow> kcm" where
  "k_emit xs k = k\<lparr>k_log := k_log k @ xs\<rparr>"

section \<open>The users model\<close>

text \<open>Row 0 is the system user, the others follow.\<close>

datatype users_role = DisplayRole | SystemUserRole | SystemUserEnabledRole

datatype variant = VInvalid | VString qstring | VBool bool

definition rowCount :: "bool \<Rightarrow> kcm \<Rightarrow> nat" where
  "rowCount parent_valid k = (if parent_valid then 0 else length (k_users k) + 1)"

definition users_data :: "qstring \<Rightarrow> nat option \<Rightarrow> users_role \<Rightarrow> kcm \<Rightarrow> variant" where
  "users_data loginName index role k =
     (case index of
        None \<Rightarrow> VInvalid
      | Some row \<Rightarrow>
          if row \<ge> length (k_users k) + 1 then VInvalid
          else if row = 0
          then (case role of
                  DisplayRole \<Rightarrow> VString loginName
                | SystemUserRole \<Rightarrow> VBool True
                | SystemUserEnabledRole \<Rightarrow> VBool (k_systemUserEnabled k))
          else (case role of
                  DisplayRole \<Rightarrow> VString (k_users k ! (row - 1))
                | SystemUserRole \<Rightarrow> VBool False
                | SystemUserEnabledRole \<Rightarrow> VInvalid))"

text \<open>\<open>None\<close> is a failed assertion.\<close>

definition users_setData :: "nat \<Rightarrow> bool \<Rightarrow> users_role \<Rightarrow> kcm \<Rightarrow> (bool \<times> kcm) option" where
  "users_setData row value role k =
     (if row \<noteq> 0 then None
      else if role \<noteq> SystemUserEnabledRole then None
      else Some (True, k_emit [DataChanged row] (k\<lparr>k_systemUserEnabled := value\<rparr>)))"

definition model_setUsers :: "qstring list \<Rightarrow> kcm \<Rightarrow> kcm" where
  "model_setUsers us k = k_emit [ModelReset] (k\<lparr>k_users := us\<rparr>)"

section \<open>Users and their passwords\<close>

text \<open>\<open>toLatin1\<close>, the key of a password: what is not in Latin-1 becomes a question mark.\<close>

definition wallet_key :: "qstring \<Rightarrow> u8 list" where
  "wallet_key s = map (\<lambda>c. if uint c < 256 then ucast c else 63) s"

definition is_latin1 :: "qstring \<Rightarrow> bool" where
  "is_latin1 s \<longleftrightarrow> list_all (\<lambda>c. uint c < 256) s"

definition writePasswordToWallet :: "qstring \<Rightarrow> qstring \<Rightarrow> kcm \<Rightarrow> kcm" where
  "writePasswordToWallet u pw k = k\<lparr>k_wallet := (k_wallet k)(wallet_key u \<mapsto> pw)\<rparr>"

definition deletePasswordFromWallet :: "qstring \<Rightarrow> kcm \<Rightarrow> kcm" where
  "deletePasswordFromWallet u k = k\<lparr>k_wallet := (k_wallet k)(wallet_key u := None)\<rparr>"

definition readPasswordFromWallet :: "qstring \<Rightarrow> kcm \<Rightarrow> qstring option" where
  "readPasswordFromWallet u k = (if u = [] then None else k_wallet k (wallet_key u))"

text \<open>What the read job ends with: the password, or an error.\<close>

definition onPasswordRead :: "qstring \<Rightarrow> kcm \<Rightarrow> kcm" where
  "onPasswordRead u k =
     (if u = [] then k
      else k_emit [case readPasswordFromWallet u k of Some pw \<Rightarrow> PasswordLoaded u pw | None \<Rightarrow> KeychainError] k)"

definition kcm_save :: "kcm \<Rightarrow> kcm" where
  "kcm_save k = k_emit [SettingsSaved, KrdpServerSettingsChanged] k"

definition userExists :: "qstring \<Rightarrow> kcm \<Rightarrow> bool" where
  "userExists u k \<longleftrightarrow> u \<in> set (k_users k)"

definition kcm_addUser :: "qstring \<Rightarrow> qstring \<Rightarrow> kcm \<Rightarrow> kcm" where
  "kcm_addUser u pw k =
     kcm_save (if u \<noteq> [] then model_setUsers (k_users k @ [u]) (writePasswordToWallet u pw k) else k)"

definition modifyUser :: "qstring \<Rightarrow> qstring \<Rightarrow> qstring \<Rightarrow> kcm \<Rightarrow> kcm" where
  "modifyUser old new pw k =
     (if userExists new k then k
      else kcm_save
        (if new \<noteq> []
         then (let us = (if old \<in> set (k_users k) then removeAll old (k_users k) else k_users k) @ [new]
               in model_setUsers us (writePasswordToWallet new pw (deletePasswordFromWallet old k)))
         else if old \<noteq> [] then writePasswordToWallet old pw k else k))"

definition deleteUser :: "qstring \<Rightarrow> kcm \<Rightarrow> kcm" where
  "deleteUser u k =
     kcm_save
       (if u \<noteq> []
        then (let us = (if u \<in> set (k_users k) then removeAll u (k_users k) else k_users k)
              in model_setUsers us (deletePasswordFromWallet u k))
        else k)"

text \<open>The defaults leave the user list alone.\<close>

definition kcm_defaults :: "server_config \<Rightarrow> kcm \<Rightarrow> kcm" where
  "kcm_defaults dflt k =
     (let us = k_users k
      in model_setUsers us
           (k\<lparr>k_users := [], k_systemUserEnabled := False, k_certificate := [], k_certificateKey := [],
              k_config := dflt\<rparr>))"

section \<open>Certificate, unit and journal\<close>

definition generateCertificate :: "qstring \<Rightarrow> (qstring \<Rightarrow> bool) \<Rightarrow> kcm \<Rightarrow> kcm" where
  "generateCertificate data_location exists_now k =
     (if k_certificate k \<noteq> [] \<or> k_certificateKey k \<noteq> [] then k
      else let crt = data_location @ qs ''/krdpserver/krdp.crt''; key = data_location @ qs ''/krdpserver/krdp.key''
           in k_emit [MakePath, RunOpenSsl key crt,
                      if exists_now crt \<and> exists_now key then GenerateCertificateSucceeded
                      else GenerateCertificateFailed, SettingsSaved]
                (k\<lparr>k_certificate := crt, k_certificateKey := key\<rparr>))"

definition createRestoreToken :: "kcm \<Rightarrow> kcm" where
  "createRestoreToken k = (if k_tokenCreated k then k else k_emit [SetPermission] (k\<lparr>k_tokenCreated := True\<rparr>))"

definition updateServerStatus :: "kcm \<Rightarrow> kcm" where
  "updateServerStatus k = k_emit [GetActiveState] k"

definition toggleAutoconnect :: "bool \<Rightarrow> kcm \<Rightarrow> kcm" where
  "toggleAutoconnect enabled k =
     (let k1 = k_emit [if enabled then EnableUnitFiles else DisableUnitFiles] k
      in if enabled then createRestoreToken k1 else k1)"

definition toggleServer :: "bool \<Rightarrow> kcm \<Rightarrow> kcm" where
  "toggleServer enabled k =
     (let k1 = k_emit [if enabled then StartUnit else StopUnitCall] k;
          k2 = (if enabled then createRestoreToken k1 else k1)
      in updateServerStatus k2)"

definition restartServer :: "kcm \<Rightarrow> kcm" where
  "restartServer k = k_emit [RestartUnit] k"

definition setServerStatus :: "unit_status \<Rightarrow> kcm \<Rightarrow> kcm" where
  "setServerStatus st k = (if k_status k \<noteq> st then k_emit [ServerStatusChanged] (k\<lparr>k_status := st\<rparr>) else k)"

text \<open>The answer with the unit's \<open>ActiveState\<close>; a failed unit has its journal asked for.\<close>

definition onActiveState :: "qstring \<Rightarrow> kcm \<Rightarrow> kcm" where
  "onActiveState reply k =
     (if reply = qs ''active'' \<or> reply = qs ''reloading'' then setServerStatus UnitRunning k
      else if reply = qs ''failed'' then setServerStatus UnitFailed (k_emit [GetInvocationId] k)
      else if reply = qs ''inactive'' then setServerStatus UnitStopped k
      else setServerStatus UnitUnknown k)"

definition isServerRunning :: "kcm \<Rightarrow> bool" where
  "isServerRunning k = (case k_status k of UnitRunning \<Rightarrow> True | _ \<Rightarrow> False)"

definition setErrorMessage :: "qstring \<Rightarrow> kcm \<Rightarrow> kcm" where
  "setErrorMessage m k = k_emit [ErrorMessageChanged] (k\<lparr>k_errorMessage := m\<rparr>)"

definition onH264Probed :: "bool \<Rightarrow> kcm \<Rightarrow> kcm" where
  "onH264Probed has_encoder k =
     (let support = (if has_encoder then H264Supported else H264Unsupported)
      in if k_h264 k = support then k else k_emit [H264SupportChanged] (k\<lparr>k_h264 := support\<rparr>))"

text \<open>
  The journal: one answer of \<open>sd_journal_previous\<close> after the other, with the message at that place. The
  loop ends when the answer is 0; \<open>None\<close> means that it does not.
\<close>

partial_function (option) journal_loop :: "(nat \<Rightarrow> int) \<Rightarrow> (nat \<Rightarrow> qstring) \<Rightarrow> nat \<Rightarrow> qstring list option" where
  "journal_loop previous msg i =
     (if previous i = 0 then Some []
      else Option.bind (journal_loop previous msg (Suc i)) (\<lambda>xs. Some (msg i # xs)))"

text \<open>\<open>journalValue\<close>: what follows the first equals sign of the field, or nothing on an error.\<close>

definition journalValue :: "int \<Rightarrow> qstring \<Rightarrow> qstring" where
  "journalValue rc field_data =
     (if rc = 0 then drop 1 (dropWhile (\<lambda>c. c \<noteq> of_char CHR ''='') field_data) else [])"

text \<open>
  What is asked for: the messages of this program, of this start of the unit, under either of the two
  fields that name the unit. The first call that fails ends it. \<open>j_rc\<close> is the result of the call at a
  place in that order, \<open>j_data\<close> what \<open>sd_journal_get_data\<close> gives at an entry.
\<close>

datatype journal_call = AddMatch qstring | AddDisjunction | AddConjunction | SeekTail

record journal_lib =
  j_open :: int
  j_rc :: "nat \<Rightarrow> int"
  j_previous :: "nat \<Rightarrow> int"
  j_data :: "nat \<Rightarrow> int \<times> qstring"

definition journal_setup :: "qstring \<Rightarrow> qstring \<Rightarrow> journal_call list" where
  "journal_setup un invocationId =
     [AddMatch (qs ''USER_UNIT='' @ un), AddDisjunction, AddMatch (qs ''_SYSTEMD_USER_UNIT='' @ un),
      AddConjunction, AddMatch (qs ''_SYSTEMD_INVOCATION_ID='' @ invocationId), AddConjunction,
      AddMatch (qs ''SYSLOG_IDENTIFIER=krdpserver''), SeekTail]"

fun run_setup :: "(nat \<Rightarrow> int) \<Rightarrow> nat \<Rightarrow> journal_call list \<Rightarrow> journal_call list \<times> bool" where
  "run_setup rc i [] = ([], True)"
| "run_setup rc i (c # cs) =
     (if rc i \<noteq> 0 then ([c], False)
      else let (made, ok) = run_setup rc (Suc i) cs in (c # made, ok))"

definition getLastJournalEntries ::
  "qstring \<Rightarrow> qstring \<Rightarrow> journal_lib \<Rightarrow> journal_call list \<times> qstring list option" where
  "getLastJournalEntries un invocationId lib =
     (if j_open lib \<noteq> 0 then ([], Some [])
      else let (made, ok) = run_setup (j_rc lib) 0 (journal_setup un invocationId)
           in (made, if ok then journal_loop (j_previous lib) (\<lambda>i. case j_data lib i of (rc, line) \<Rightarrow> journalValue rc line) 0
                     else Some []))"

text \<open>The addresses shown: of interfaces that are not the loopback, those for private use.\<close>

definition listenAddressList :: "(bool \<times> (qstring \<times> bool) list) list \<Rightarrow> qstring list" where
  "listenAddressList interfaces =
     concat (map (\<lambda>(loopback, addresses). if \<not> loopback then map fst (filter snd addresses) else []) interfaces)"

section \<open>The password store follows the user list\<close>

datatype user_event =
    AddUser qstring qstring
  | ModifyUser qstring qstring qstring
  | DeleteUser qstring
  | Defaults server_config

fun kcm_step :: "user_event \<Rightarrow> kcm \<Rightarrow> kcm" where
  "kcm_step (AddUser u pw) k = kcm_addUser u pw k"
| "kcm_step (ModifyUser old new pw) k = modifyUser old new pw k"
| "kcm_step (DeleteUser u) k = deleteUser u k"
| "kcm_step (Defaults cf) k = kcm_defaults cf k"

text \<open>What the module promises: a map from the users to their passwords.\<close>

fun accounts_step :: "user_event \<Rightarrow> (qstring \<rightharpoonup> qstring) \<Rightarrow> (qstring \<rightharpoonup> qstring)" where
  "accounts_step (AddUser u pw) a = (if u = [] then a else a(u \<mapsto> pw))"
| "accounts_step (ModifyUser old new pw) a =
     (if new \<in> dom a then a
      else if new \<noteq> [] then (a(old := None))(new \<mapsto> pw)
      else if old \<in> dom a then a(old \<mapsto> pw) else a)"
| "accounts_step (DeleteUser u) a = (if u = [] then a else a(u := None))"
| "accounts_step (Defaults cf) a = a"

fun latin1_event :: "user_event \<Rightarrow> bool" where
  "latin1_event (AddUser u pw) = is_latin1 u"
| "latin1_event (ModifyUser old new pw) = (is_latin1 old \<and> is_latin1 new)"
| "latin1_event (DeleteUser u) = is_latin1 u"
| "latin1_event (Defaults cf) = True"

definition accounts_rel :: "kcm \<Rightarrow> (qstring \<rightharpoonup> qstring) \<Rightarrow> bool" where
  "accounts_rel k a \<longleftrightarrow> set (k_users k) = dom a \<and> [] \<notin> dom a \<and>
     (\<forall>u \<in> dom a. is_latin1 u \<and> k_wallet k (wallet_key u) = a u)"

lemma wallet_key_inj:
  assumes "is_latin1 u" "is_latin1 v"
  shows "wallet_key u = wallet_key v \<longleftrightarrow> u = v"
proof
  assume eq: "wallet_key u = wallet_key v"
  have narrow: "c = d" if "uint c < 256" "uint d < 256" "ucast c = (ucast d :: u8)" for c d :: u16
  proof -
    have "uint (ucast c :: u8) = uint c" "uint (ucast d :: u8) = uint d"
      using that(1,2) by (simp_all add: unsigned_ucast_eq take_bit_eq_mod)
    then have "uint c = uint d" using that(3) by simp
    then show ?thesis by (rule word_uint_eqI)
  qed
  have step: "wallet_key (c # cs) = wallet_key v \<longleftrightarrow>
      (\<exists>d ds. v = d # ds \<and> ucast c = (ucast d :: u8) \<and> wallet_key cs = wallet_key ds)"
    if "is_latin1 (c # cs)" "is_latin1 v" for c cs v
    using that by (cases v) (simp_all add: wallet_key_def is_latin1_def)
  show "u = v"
    using eq assms
  proof (induction u arbitrary: v)
    case Nil
    then show ?case by (cases v) (simp_all add: wallet_key_def)
  next
    case (Cons c cs)
    then obtain d ds where v: "v = d # ds" "ucast c = (ucast d :: u8)" "wallet_key cs = wallet_key ds"
      using step [of c cs v] by auto
    then show ?case using Cons narrow [of c d] by (simp add: is_latin1_def)
  qed
qed simp

lemma kcm_fields [simp]:
  "k_users (k_emit xs k) = k_users k" "k_wallet (k_emit xs k) = k_wallet k"
  "k_users (kcm_save k) = k_users k" "k_wallet (kcm_save k) = k_wallet k"
  "k_users (model_setUsers us k) = us" "k_wallet (model_setUsers us k) = k_wallet k"
  "k_users (writePasswordToWallet u pw k) = k_users k"
  "k_wallet (writePasswordToWallet u pw k) = (k_wallet k)(wallet_key u \<mapsto> pw)"
  "k_users (deletePasswordFromWallet u k) = k_users k"
  "k_wallet (deletePasswordFromWallet u k) = (k_wallet k)(wallet_key u := None)"
  by (simp_all add: k_emit_def kcm_save_def model_setUsers_def writePasswordToWallet_def deletePasswordFromWallet_def)

interpretation accounts: simulation kcm_step accounts_step latin1_event accounts_rel
proof unfold_locales
  fix k a e assume rel: "accounts_rel k a" and ok: "latin1_event e"
  then have users: "set (k_users k) = dom a" "[] \<notin> dom a"
    and wallet: "\<And>u. u \<in> dom a \<Longrightarrow> is_latin1 u \<and> k_wallet k (wallet_key u) = a u"
    by (simp_all add: accounts_rel_def)
  show "accounts_rel (kcm_step e k) (accounts_step e a)"
  proof (cases e)
    case (AddUser u pw)
    then show ?thesis
      using users wallet ok wallet_key_inj by (auto simp: accounts_rel_def kcm_addUser_def)
  next
    case (ModifyUser old new pw)
    show ?thesis
    proof (cases "new \<in> dom a")
      case True
      then show ?thesis using ModifyUser rel users by (simp add: modifyUser_def userExists_def)
    next
      case new: False
      show ?thesis
      proof (cases "new = []")
        case True
        then show ?thesis
          using ModifyUser users wallet ok new wallet_key_inj
          by (auto simp: accounts_rel_def modifyUser_def userExists_def)
      next
        case False
        then show ?thesis
          using ModifyUser users wallet ok new wallet_key_inj
          by (auto simp: accounts_rel_def modifyUser_def userExists_def Let_def)
      qed
    qed
  next
    case (DeleteUser u)
    then show ?thesis
      using users wallet ok wallet_key_inj by (auto simp: accounts_rel_def deleteUser_def Let_def)
  next
    case (Defaults cf)
    then show ?thesis using rel by (simp add: accounts_rel_def kcm_defaults_def Let_def model_setUsers_def k_emit_def)
  qed
qed


definition demo_kcm :: kcm where
  "demo_kcm = \<lparr>k_users = [], k_systemUserEnabled = False, k_certificate = [], k_certificateKey = [],
     k_config = demo_config, k_status = UnitUnknown, k_errorMessage = [], k_h264 = H264Unknown,
     k_tokenCreated = False, k_wallet = Map.empty, k_log = []\<rparr>"


text \<open>Outside Latin-1 two users share a key: adding the second overwrites the password of the first.\<close>

lemma wallet_keys_collide:
  "fold accounts_step [AddUser [0x416] [1], AddUser [0x42F] [2]] Map.empty [0x416] = Some [1]"
  "readPasswordFromWallet [0x416] (fold kcm_step [AddUser [0x416] [1], AddUser [0x42F] [2]] demo_kcm) = Some [2]"
  by (simp_all add: kcm_addUser_def readPasswordFromWallet_def wallet_key_def demo_kcm_def)

section \<open>Reading the journal\<close>

lemma journal_loop_ends:
  assumes "journal_loop previous msg i = Some xs"
  shows "\<exists>n \<ge> i. previous n = 0"
proof (rule journal_loop.raw_induct [where P = "\<lambda>previous msg i xs. \<exists>n \<ge> i. previous n = 0", OF _ assms])
  fix f and previous :: "nat \<Rightarrow> int" and msg :: "nat \<Rightarrow> qstring" and i xs
  assume ih: "\<And>previous msg i xs. f previous msg i = Some xs \<Longrightarrow> \<exists>n \<ge> i. (previous :: nat \<Rightarrow> int) n = 0"
    and step: "(if previous i = 0 then Some []
      else Option.bind (f previous msg (Suc i)) (\<lambda>xs. Some (msg i # xs))) = Some xs"
  show "\<exists>n \<ge> i. previous n = 0"
  proof (cases "previous i = 0")
    case False
    then obtain ys where "f previous msg (Suc i) = Some ys"
      using step by (cases "f previous msg (Suc i)") simp_all
    then obtain n where "Suc i \<le> n" "previous n = 0" using ih by blast
    then show ?thesis by (auto intro: exI [of _ n])
  qed auto
qed

lemma journal_loop_reads:
  assumes "previous (i + n) = 0" and "\<forall>j < n. previous (i + j) \<noteq> 0"
  shows "journal_loop previous msg i = Some (map msg [i..<i + n])"
  using assms
proof (induction n arbitrary: i)
  case 0
  then show ?case by (simp add: journal_loop.simps [of previous msg i])
next
  case (Suc n)
  have "previous i \<noteq> 0" using Suc.prems(2) by (metis add_0_right zero_less_Suc)
  moreover have "\<forall>j < n. previous (Suc i + j) \<noteq> 0" using Suc.prems(2) by auto
  then have "journal_loop previous msg (Suc i) = Some (map msg [Suc i..<Suc i + n])"
    using Suc.IH [of "Suc i"] Suc.prems(1) by simp
  ultimately show ?case
    by (simp add: journal_loop.simps [of previous msg i] upt_rec)
qed

text \<open>
C35. Reading the journal of a failed unit ends exactly when \<open>sd_journal_previous\<close> answers 0 at some point,
and then gives the messages before that, the newest first. An error that stays, which is a negative answer,
is not an end: the loop then runs forever.
\<close>

theorem journal_reading_ends_iff:
  "(case journal_loop previous msg 0 of
      Some xs \<Rightarrow> \<exists>n. previous n = 0 \<and> xs = map msg [0..<n] \<and> 0 \<notin> previous ` {..<n}
    | None \<Rightarrow> 0 \<notin> range previous)"
proof (cases "\<exists>n. previous n = 0")
  case True
  define n where "n = (LEAST n. previous n = 0)"
  have n: "previous n = 0" "\<forall>j < n. previous j \<noteq> 0"
    unfolding n_def using LeastI_ex [OF True] not_less_Least [of _ "\<lambda>n. previous n = 0"] by blast+
  then have "journal_loop previous msg 0 = Some (map msg [0..<n])"
    using journal_loop_reads [of previous 0 n msg] by simp
  moreover have "0 \<notin> previous ` {..<n}" using n(2) by (metis imageE lessThan_iff)
  ultimately show ?thesis using n(1) by (simp del: image_iff) blast
next
  case False
  then have "journal_loop previous msg 0 = None"
    using journal_loop_ends [of previous msg 0] by (cases "journal_loop previous msg 0") blast+
  moreover have "0 \<notin> range previous" using False by (metis imageE)
  ultimately show ?thesis by simp
qed

end
