(* ===== verification/SettingsModule.thy ===== *)
theory SettingsModule
  imports ServerSettings
begin

text \<open>
  The settings module as a whole: its construction, the values it shows, and the state of the server's
  systemd unit, which comes to it in signals, calls and replies over D-Bus. systemd answers calls in the
  order they were made, with the state the unit has then, and signals every change of state; calls,
  replies and signals are queues.
\<close>

section \<open>What the model and the module show\<close>

definition users_roleNames :: "(users_role \<times> string) list" where
  "users_roleNames =
     [(DisplayRole, ''userName''), (SystemUserRole, ''systemUser''), (SystemUserEnabledRole, ''systemUserEnabled'')]"

text \<open>The items of the settings, \<open>krdpserversettings.kcfg\<close>, and whether each has its default.\<close>

definition default_config :: server_config where
  "default_config = \<lparr>cf_listenPort = 3389, cf_certificate = [], cf_certificateKey = [], cf_quality = 75,
     cf_adaptiveQuality = True, cf_users = [], cf_systemUserEnabled = False, cf_exclusiveMode = False\<rparr>"

record settings_module =
  sm_kcm :: kcm
  sm_autogenerate :: bool
  sm_autostart :: bool
  sm_unit :: qstring
  sm_signals :: nat
  sm_calls :: nat
  sm_replies :: "qstring list"
  sm_restarts :: nat
  sm_idCalls :: nat
  sm_asked :: bool

definition settings_items :: "settings_module \<Rightarrow> (qstring \<times> bool) list" where
  "settings_items m =
     (let k = sm_kcm m; cf = k_config k
      in [(qs ''ListenPort'', cf_listenPort cf = cf_listenPort default_config),
          (qs ''AutogenerateCertificates'', sm_autogenerate m),
          (qs ''Certificate'', k_certificate k = []),
          (qs ''CertificateKey'', k_certificateKey k = []),
          (qs ''Quality'', cf_quality cf = cf_quality default_config),
          (qs ''AdaptiveQuality'', cf_adaptiveQuality cf = cf_adaptiveQuality default_config),
          (qs ''Users'', k_users k = []),
          (qs ''SystemUserEnabled'', k_systemUserEnabled k = False),
          (qs ''Autostart'', sm_autostart m = False),
          (qs ''ExclusiveMode'', cf_exclusiveMode cf = cf_exclusiveMode default_config)])"

definition isDefaults :: "(qstring \<times> bool) list \<Rightarrow> bool" where
  "isDefaults items \<longleftrightarrow>
     list_all (\<lambda>(key, at_default). key = qs ''Users'' \<or> key = qs ''Certificate'' \<or> key = qs ''CertificateKey'' \<or>
       at_default) items"

definition module_defaults :: "settings_module \<Rightarrow> settings_module" where
  "module_defaults m =
     m\<lparr>sm_kcm := kcm_defaults default_config (sm_kcm m), sm_autogenerate := True, sm_autostart := False\<rparr>"

definition copyAddressToClipboard :: "qstring \<Rightarrow> kcm \<Rightarrow> kcm" where
  "copyAddressToClipboard addr k = k_emit [CopyToClipboard (trimmed addr)] k"

section \<open>The unit's state\<close>

text \<open>\<open>QByteArray::toHex\<close> and \<open>QStringList::join\<close>.\<close>

definition hex_char :: "u8 \<Rightarrow> u16" where
  "hex_char n = (if uint n < 10 then of_int (48 + uint n) else of_int (87 + uint n))"

definition toHex :: "u8 list \<Rightarrow> qstring" where
  "toHex bs = concat (map (\<lambda>b. [hex_char (drop_bit 4 b), hex_char (b mod 16)]) bs)"

fun join_lines :: "qstring list \<Rightarrow> qstring" where
  "join_lines [] = []"
| "join_lines [x] = x"
| "join_lines (x # xs) = x @ 10 # join_lines xs"

text \<open>The reply with the invocation ID of a failed unit: its journal becomes the error message.\<close>

definition onInvocationId :: "u8 list \<Rightarrow> journal_lib \<Rightarrow> kcm \<Rightarrow> kcm option" where
  "onInvocationId invocation lib k =
     map_option (\<lambda>entries. setErrorMessage (join_lines entries) k)
       (snd (getLastJournalEntries (qs ''app-org.kde.krdpserver.service'') (toHex invocation) lib))"

text \<open>Asking is a call that systemd answers later.\<close>

definition module_update :: "settings_module \<Rightarrow> settings_module" where
  "module_update m = m\<lparr>sm_kcm := updateServerStatus (sm_kcm m), sm_calls := Suc (sm_calls m), sm_asked := True\<rparr>"

definition servicePropertiesChanged :: "settings_module \<Rightarrow> settings_module" where
  "servicePropertiesChanged m = module_update m"

definition module_toggleServer :: "bool \<Rightarrow> settings_module \<Rightarrow> settings_module" where
  "module_toggleServer enabled m =
     m\<lparr>sm_kcm := toggleServer enabled (sm_kcm m), sm_calls := Suc (sm_calls m), sm_asked := True\<rparr>"

text \<open>
  The module as it is loaded: the encoders are probed on another thread, a certificate is made where the
  settings want it, and the unit's changes are asked for.
\<close>

definition module_new ::
  "qstring \<Rightarrow> (qstring \<Rightarrow> bool) \<Rightarrow> qstring \<Rightarrow> bool \<Rightarrow> bool \<Rightarrow> kcm \<Rightarrow> settings_module" where
  "module_new data_location exists_now un autogenerate autostart k =
     (let k1 = k_emit [ProbeEncoders] k;
          k2 = (if autogenerate then generateCertificate data_location exists_now k1 else k1)
      in \<lparr>sm_kcm = k_emit [WatchUnitProperties] k2, sm_autogenerate = autogenerate, sm_autostart = autostart,
          sm_unit = un, sm_signals = 0, sm_calls = 0, sm_replies = [], sm_restarts = 0, sm_idCalls = 0,
          sm_asked = False\<rparr>)"

datatype module_event =
    SmUser user_event
  | SmRestoreDefaults
  | SmSystemUser bool
  | SmReadPassword qstring
  | SmCopyAddress qstring
  | SmToggleAutoconnect bool
  | SmToggleServer bool
  | SmRestart
  | SmRestartDone
  | SmUpdate
  | SmProbed bool
  | SmUnitChanges qstring
  | SmSignalArrives
  | SmSystemdAnswers
  | SmActiveState
  | SmInvocationId "u8 list" journal_lib

definition on_kcm :: "(kcm \<Rightarrow> kcm) \<Rightarrow> settings_module \<Rightarrow> settings_module" where
  "on_kcm f m = m\<lparr>sm_kcm := f (sm_kcm m)\<rparr>"

text \<open>\<open>None\<close>: reading the journal does not end.\<close>

fun module_step :: "module_event \<Rightarrow> settings_module \<Rightarrow> settings_module option" where
  "module_step (SmUser e) m = Some (on_kcm (kcm_step e) m)"
| "module_step SmRestoreDefaults m = Some (module_defaults m)"
| "module_step (SmSystemUser on) m =
     map_option (\<lambda>(b, k). m\<lparr>sm_kcm := k\<rparr>) (users_setData 0 on SystemUserEnabledRole (sm_kcm m))"
| "module_step (SmReadPassword u) m = Some (on_kcm (onPasswordRead u) m)"
| "module_step (SmCopyAddress addr) m = Some (on_kcm (copyAddressToClipboard addr) m)"
| "module_step (SmToggleAutoconnect on) m = Some (on_kcm (toggleAutoconnect on) m)"
| "module_step (SmToggleServer on) m = Some (module_toggleServer on m)"
| "module_step SmRestart m = Some ((on_kcm restartServer m)\<lparr>sm_restarts := Suc (sm_restarts m)\<rparr>)"
| "module_step SmRestartDone m =
     Some (if sm_restarts m = 0 then m else module_update (m\<lparr>sm_restarts := sm_restarts m - 1\<rparr>))"
| "module_step SmUpdate m = Some (module_update m)"
| "module_step (SmProbed has_encoder) m = Some (on_kcm (onH264Probed has_encoder) m)"
| "module_step (SmUnitChanges st) m = Some (m\<lparr>sm_unit := st, sm_signals := Suc (sm_signals m)\<rparr>)"
| "module_step SmSignalArrives m =
     Some (if sm_signals m = 0 then m else servicePropertiesChanged (m\<lparr>sm_signals := sm_signals m - 1\<rparr>))"
| "module_step SmSystemdAnswers m =
     Some (if sm_calls m = 0 then m
           else m\<lparr>sm_calls := sm_calls m - 1, sm_replies := sm_replies m @ [sm_unit m]\<rparr>)"
| "module_step SmActiveState m =
     Some (case sm_replies m of
             [] \<Rightarrow> m
           | reply # rest \<Rightarrow>
               (on_kcm (onActiveState reply) m)
                 \<lparr>sm_replies := rest, sm_idCalls := sm_idCalls m + (if reply = qs ''failed'' then 1 else 0)\<rparr>)"
| "module_step (SmInvocationId invocation lib) m =
     (if sm_idCalls m = 0 then Some m
      else map_option (\<lambda>k. m\<lparr>sm_kcm := k, sm_idCalls := sm_idCalls m - 1\<rparr>) (onInvocationId invocation lib (sm_kcm m)))"

section \<open>What every step keeps\<close>

definition status_of :: "qstring \<Rightarrow> unit_status" where
  "status_of st =
     (if st = qs ''active'' \<or> st = qs ''reloading'' then UnitRunning
      else if st = qs ''failed'' then UnitFailed
      else if st = qs ''inactive'' then UnitStopped
      else UnitUnknown)"

text \<open>The portal is asked for permission at most once, and it is known whether it was.\<close>

definition token_once :: "kcm \<Rightarrow> bool" where
  "token_once k \<longleftrightarrow> count_list (k_log k) SetPermission = (if k_tokenCreated k then 1 else 0)"

text \<open>An operation that is about neither the unit's state nor the permission.\<close>

definition kcm_aside :: "kcm \<Rightarrow> kcm \<Rightarrow> bool" where
  "kcm_aside k k' \<longleftrightarrow> k_status k' = k_status k \<and> k_tokenCreated k' = k_tokenCreated k \<and>
     count_list (k_log k') SetPermission = count_list (k_log k) SetPermission"

lemma kcm_aside_refl [simp]: "kcm_aside k k"
  by (simp add: kcm_aside_def)

lemma kcm_aside_trans: "kcm_aside a b \<Longrightarrow> kcm_aside b c \<Longrightarrow> kcm_aside a c"
  by (simp add: kcm_aside_def)

lemma count_list_none: "x \<notin> set xs \<Longrightarrow> count_list xs x = 0"
  by (induction xs) auto

named_theorems kcm_aside_intros

lemma kcm_aside_emit [kcm_aside_intros]:
  "kcm_aside k t \<Longrightarrow> SetPermission \<notin> set xs \<Longrightarrow> kcm_aside k (k_emit xs t)"
  by (simp add: kcm_aside_def k_emit_def count_list_none)

lemma kcm_aside_fields [kcm_aside_intros]:
  "kcm_aside k t \<Longrightarrow> kcm_aside k (t\<lparr>k_users := us\<rparr>)" "kcm_aside k t \<Longrightarrow> kcm_aside k (t\<lparr>k_wallet := w\<rparr>)"
  "kcm_aside k t \<Longrightarrow> kcm_aside k (t\<lparr>k_systemUserEnabled := b\<rparr>)"
  "kcm_aside k t \<Longrightarrow> kcm_aside k (t\<lparr>k_certificate := c\<rparr>)"
  "kcm_aside k t \<Longrightarrow> kcm_aside k (t\<lparr>k_certificateKey := c\<rparr>)" "kcm_aside k t \<Longrightarrow> kcm_aside k (t\<lparr>k_config := cf\<rparr>)"
  "kcm_aside k t \<Longrightarrow> kcm_aside k (t\<lparr>k_errorMessage := msg\<rparr>)" "kcm_aside k t \<Longrightarrow> kcm_aside k (t\<lparr>k_h264 := h\<rparr>)"
  by (simp_all add: kcm_aside_def)

lemma kcm_aside_users [kcm_aside_intros]:
  "kcm_aside k t \<Longrightarrow> kcm_aside k (model_setUsers us t)" "kcm_aside k t \<Longrightarrow> kcm_aside k (kcm_save t)"
  "kcm_aside k t \<Longrightarrow> kcm_aside k (writePasswordToWallet u pw t)"
  "kcm_aside k t \<Longrightarrow> kcm_aside k (deletePasswordFromWallet u t)"
  by (auto simp: model_setUsers_def kcm_save_def writePasswordToWallet_def deletePasswordFromWallet_def
      intro!: kcm_aside_intros)

lemma kcm_aside_ops [kcm_aside_intros]:
  "kcm_aside k (kcm_step e k)" "kcm_aside k (kcm_defaults cf k)" "kcm_aside k (onPasswordRead u k)"
  "kcm_aside k (copyAddressToClipboard addr k)" "kcm_aside k (restartServer k)" "kcm_aside k (onH264Probed b k)"
  "kcm_aside k (updateServerStatus k)" "kcm_aside k (setErrorMessage msg k)"
  "kcm_aside k (generateCertificate loc ex k)"
proof -
  show "kcm_aside k (kcm_step e k)"
    by (cases e) (auto simp: kcm_addUser_def modifyUser_def deleteUser_def kcm_defaults_def Let_def intro!: kcm_aside_intros)
qed (auto simp: kcm_defaults_def onPasswordRead_def copyAddressToClipboard_def restartServer_def onH264Probed_def
    updateServerStatus_def setErrorMessage_def generateCertificate_def Let_def
    intro!: kcm_aside_intros split: option.split)

lemma setServerStatus_facts:
  "k_status (setServerStatus st k) = st" "token_once (setServerStatus st k) = token_once k"
  "token_once (k_emit [GetInvocationId] k) = token_once k"
  by (simp_all add: setServerStatus_def k_emit_def token_once_def)

lemma onActiveState_facts [simp]:
  "k_status (onActiveState st k) = status_of st" "token_once (onActiveState st k) = token_once k"
  unfolding onActiveState_def status_of_def
  by (simp_all only: if_distrib [of k_status] if_distrib [of token_once] setServerStatus_facts if_cancel)

lemma toggles [simp]:
  "k_status (toggleAutoconnect on k) = k_status k" "k_status (toggleServer on k) = k_status k"
  "token_once k \<Longrightarrow> token_once (toggleAutoconnect on k)" "token_once k \<Longrightarrow> token_once (toggleServer on k)"
  by (cases on; cases "k_tokenCreated k"; simp add: toggleAutoconnect_def toggleServer_def createRestoreToken_def
      updateServerStatus_def k_emit_def token_once_def Let_def)+

definition status_current :: "settings_module \<Rightarrow> bool" where
  "status_current m \<longleftrightarrow> sm_asked m \<and> sm_signals m = 0 \<and> sm_calls m = 0 \<longrightarrow>
     (if sm_replies m = [] then k_status (sm_kcm m) = status_of (sm_unit m) else last (sm_replies m) = sm_unit m)"

definition module_inv :: "settings_module \<Rightarrow> bool" where
  "module_inv m \<longleftrightarrow> status_current m \<and> token_once (sm_kcm m)"

lemma module_inv_aside:
  assumes "module_inv m" and "kcm_aside (sm_kcm m) k"
  shows "module_inv (m\<lparr>sm_kcm := k\<rparr>)"
  using assms by (simp add: module_inv_def status_current_def kcm_aside_def token_once_def)

lemma module_inv_update:
  assumes "token_once (sm_kcm m)" shows "module_inv (module_update m)"
  using assms kcm_aside_ops(7) [of "sm_kcm m"]
  by (simp add: module_update_def module_inv_def status_current_def token_once_def kcm_aside_def)

lemma module_step_inv:
  assumes inv: "module_inv m" and step: "module_step e m = Some m'"
  shows "module_inv m'"
proof -
  have token: "token_once (sm_kcm m)" using inv by (simp add: module_inv_def)
  have irrelevant: "module_inv (n\<lparr>sm_autogenerate := a, sm_autostart := b\<rparr>) = module_inv n"
    "module_inv (n\<lparr>sm_restarts := r\<rparr>) = module_inv n" "module_inv (n\<lparr>sm_idCalls := i\<rparr>) = module_inv n" for n a b r i
    by (simp_all add: module_inv_def status_current_def)
  have aside: "module_inv (m\<lparr>sm_kcm := k\<rparr>)" if "kcm_aside (sm_kcm m) k" for k
    using module_inv_aside [OF inv that] .
  show ?thesis
  proof (cases e)
    case (SmToggleAutoconnect on)
    then show ?thesis using step inv by (auto simp: on_kcm_def module_inv_def status_current_def)
  next
    case (SmToggleServer on)
    then show ?thesis using step inv by (auto simp: module_toggleServer_def module_inv_def status_current_def)
  next
    case SmRestartDone
    then show ?thesis
      using step inv module_inv_update [of "m\<lparr>sm_restarts := sm_restarts m - 1\<rparr>"] token by (auto split: if_splits)
  next
    case SmUpdate
    then show ?thesis using step module_inv_update [OF token] by auto
  next
    case SmSignalArrives
    then show ?thesis
      using step inv module_inv_update [of "m\<lparr>sm_signals := sm_signals m - 1\<rparr>"] token
      by (auto simp: servicePropertiesChanged_def split: if_splits)
  next
    case SmActiveState
    then show ?thesis
      using step inv by (cases "sm_replies m") (auto simp: on_kcm_def module_inv_def status_current_def)
  next
    case (SmInvocationId invocation lib)
    then show ?thesis
      using step inv by (auto simp: onInvocationId_def irrelevant intro!: aside kcm_aside_intros split: if_splits)
  next
    case SmRestoreDefaults
    have "module_inv (m\<lparr>sm_kcm := kcm_defaults default_config (sm_kcm m)\<rparr>)"
      by (rule aside) (rule kcm_aside_intros)
    then show ?thesis
      using step SmRestoreDefaults irrelevant(1) [where n = "m\<lparr>sm_kcm := kcm_defaults default_config (sm_kcm m)\<rparr>"]
      by (auto simp: module_defaults_def)
  next
    case SmRestart
    then show ?thesis
      using step by (auto simp: on_kcm_def irrelevant intro!: aside kcm_aside_intros)
  next
    case (SmSystemUser on)
    have "kcm_aside (sm_kcm m) (k_emit [DataChanged 0] ((sm_kcm m)\<lparr>k_systemUserEnabled := on\<rparr>))"
      by (auto intro!: kcm_aside_intros)
    then show ?thesis using step SmSystemUser aside by (auto simp: users_setData_def)
  next
    case (SmUnitChanges st)
    then show ?thesis using step token by (auto simp: module_inv_def status_current_def)
  next
    case SmSystemdAnswers
    then show ?thesis using step inv by (auto simp: module_inv_def status_current_def split: if_splits)
  qed (use step in \<open>auto simp: on_kcm_def intro!: aside kcm_aside_intros\<close>)
qed

section \<open>Properties\<close>

definition module_good :: "settings_module option \<Rightarrow> bool" where
  "module_good x \<longleftrightarrow> (case x of None \<Rightarrow> True | Some m \<Rightarrow> module_inv m)"

definition fresh_kcm :: "kcm \<Rightarrow> bool" where
  "fresh_kcm k \<longleftrightarrow> k_log k = [] \<and> \<not> k_tokenCreated k"

lemma module_new_inv:
  assumes "fresh_kcm k" shows "module_inv (module_new loc ex un autogenerate autostart k)"
proof -
  have "kcm_aside k (k_emit [WatchUnitProperties]
      (if autogenerate then generateCertificate loc ex (k_emit [ProbeEncoders] k) else k_emit [ProbeEncoders] k))"
    by (auto intro!: kcm_aside_intros intro: kcm_aside_trans [OF _ kcm_aside_ops(9)])
  then show ?thesis
    using assms by (simp add: module_new_def module_inv_def status_current_def token_once_def kcm_aside_def
        fresh_kcm_def Let_def)
qed

interpretation settings: machine "lift_step module_step"
  "Some (module_new loc ex un autogenerate autostart (k\<lparr>k_log := [], k_tokenCreated := False\<rparr>))"
  "\<lambda>_. True" module_good for loc ex un autogenerate autostart k
proof unfold_locales
  show "module_good (Some (module_new loc ex un autogenerate autostart (k\<lparr>k_log := [], k_tokenCreated := False\<rparr>)))"
    using module_new_inv [of "k\<lparr>k_log := [], k_tokenCreated := False\<rparr>"] by (simp add: module_good_def fresh_kcm_def)
  show "module_good (lift_step module_step e x)" if "module_good x" for e x
    using that module_step_inv by (cases x) (auto simp: module_good_def split: option.split)
qed

lemma module_reach:
  assumes "fresh_kcm k" and "fold (lift_step module_step) es (Some (module_new loc ex un autogenerate autostart k)) = Some m"
  shows "module_inv m"
proof -
  have "k\<lparr>k_log := [], k_tokenCreated := False\<rparr> = k" using assms(1) by (simp add: fresh_kcm_def)
  then show ?thesis
    using settings.inv_reach [of es loc ex un autogenerate autostart k] assms(2)
    by (simp add: module_good_def list_all_iff)
qed


text \<open>The server is started twice and fails in between; the first answer comes after the failure.\<close>

definition demo_module :: "module_event list" where
  "demo_module = [SmToggleServer True, SmUnitChanges (qs ''failed''), SmSystemdAnswers, SmSignalArrives,
     SmActiveState, SmToggleServer True, SmSystemdAnswers, SmSystemdAnswers, SmUnitChanges (qs ''active''),
     SmActiveState, SmActiveState, SmSignalArrives, SmSystemdAnswers, SmActiveState]"

lemma demo_module_end:
  "\<exists>m. fold (lift_step module_step) demo_module (Some (module_new [] (\<lambda>f. True) (qs ''inactive'') False False demo_kcm)) = Some m \<and>
     sm_asked m \<and> sm_signals m = 0 \<and> sm_calls m = 0 \<and> sm_replies m = [] \<and> sm_unit m = qs ''active''"
  by (simp add: demo_module_def module_new_def Let_def module_toggleServer_def servicePropertiesChanged_def
      module_update_def on_kcm_def)


text \<open>The types that go with the rows and roles of the users model.\<close>

datatype variant_type = StringType | BoolType

fun type_of :: "variant \<Rightarrow> variant_type option" where
  "type_of VInvalid = None"
| "type_of (VString x) = Some StringType"
| "type_of (VBool b) = Some BoolType"

fun role_type :: "nat \<Rightarrow> users_role \<Rightarrow> variant_type option" where
  "role_type row DisplayRole = Some StringType"
| "role_type row SystemUserRole = Some BoolType"
| "role_type row SystemUserEnabledRole = (if row = 0 then Some BoolType else None)"

lemma users_names:
  "map (\<lambda>row. users_data login (Some row) DisplayRole k) [0..<rowCount False k] = map VString (login # k_users k)"
  by (rule nth_equalityI) (auto simp: rowCount_def users_data_def nth_Cons' simp del: upt_Suc)

text \<open>
C36. The users model is well typed. Under the roles it names, a row of the model gives a text for the name
and a truth value for the kind of user, and only the first row has the switch of the system user; any
other index gives nothing; the names are the login name and then the users of the settings; and what is
set through the model is what it then gives.
\<close>

theorem users_model_well_typed:
  "type_of (users_data login index role k) =
     (case index of Some row \<Rightarrow> if row < rowCount False k then role_type row role else None | None \<Rightarrow> None) \<and>
   map (\<lambda>row. users_data login (Some row) DisplayRole k) [0..<rowCount False k] = map VString (login # k_users k) \<and>
   (case users_setData row v role k of
      Some (done_ok, k') \<Rightarrow> done_ok \<and> users_data login (Some row) role k' = VBool v
    | None \<Rightarrow> \<not> (row = 0 \<and> role = SystemUserEnabledRole)) \<and>
   map_of users_roleNames role \<noteq> None"
proof -
  have "type_of (users_data login index role k) =
     (case index of Some row \<Rightarrow> if row < rowCount False k then role_type row role else None | None \<Rightarrow> None)"
    by (cases role) (simp_all add: users_data_def rowCount_def split: option.split)
  moreover have "case users_setData row v role k of
      Some (done_ok, k') \<Rightarrow> done_ok \<and> users_data login (Some row) role k' = VBool v
    | None \<Rightarrow> \<not> (row = 0 \<and> role = SystemUserEnabledRole)"
    by (simp add: users_setData_def users_data_def k_emit_def)
  moreover have "map_of users_roleNames role \<noteq> None" by (cases role) (simp_all add: users_roleNames_def)
  ultimately show ?thesis using users_names by blast
qed

text \<open>
Restoring the defaults leaves nothing that \<open>KRDPServerData::isDefaults\<close> objects to, keeps the users and
their passwords, and forgets the certificate.
\<close>

theorem defaults_are_defaults:
  "isDefaults (settings_items (module_defaults m)) \<and> k_users (sm_kcm (module_defaults m)) = k_users (sm_kcm m) \<and>
   k_wallet (sm_kcm (module_defaults m)) = k_wallet (sm_kcm m) \<and> k_certificate (sm_kcm (module_defaults m)) = []"
  by (simp add: module_defaults_def kcm_defaults_def model_setUsers_def k_emit_def settings_items_def isDefaults_def
      default_config_def Let_def)

text \<open>
The journal is asked with as many calls as succeed and the first that fails, in the order of the code; only
when all succeed are entries read.
\<close>

lemma run_setup_spec:
  "run_setup rc i cs =
     (take (length (takeWhile (\<lambda>j. rc j = 0) [i..<i + length cs]) + 1) cs, list_all (\<lambda>j. rc j = 0) [i..<i + length cs])"
proof (induction cs arbitrary: i)
  case (Cons c cs)
  have "[i..<i + length (c # cs)] = i # [Suc i..<Suc i + length cs]"
    by (simp add: upt_conv_Cons del: upt_Suc)
  then show ?case using Cons.IH [of "Suc i"] by (simp add: Let_def del: upt_Suc)
qed simp

end
