(* ===== verification/PortalSession.thy ===== *)
theory PortalSession
  imports AbstractSession EiConnection "HOL-Library.Sublist"
begin

text \<open>
  The session on the desktop portal, \<open>src/PortalSession.cpp\<close>: the requests of the start sequence
  (create a session, select devices, select sources, start), the PipeWire remote, the connection to
  the input server, and the \<open>Closed\<close> signal. The calls on D-Bus are a log; their answers are the
  arguments of the steps. \<open>None\<close> is a failed assertion, an index out of range or a null pointer.
\<close>

section \<open>Requests\<close>

datatype portal_callback = OnCreateSession | OnDevicesSelected | OnSourcesSelected | OnSessionStarted

record portal_request =
  req_path :: qstring
  req_callback :: portal_callback

record portal_stream =
  st_nodeId :: u32
  st_size :: "qsize option"
  st_mapping_id :: "qstring option"

text \<open>
  A stream as it comes over D-Bus: its node, then a dictionary; of a key that comes twice the last value
  counts, and one of another type is as good as missing.
\<close>

datatype portal_value = PvSize qsize | PvString qstring | PvOther

definition read_portal_stream :: "u32 \<Rightarrow> (qstring \<times> portal_value) list \<Rightarrow> portal_stream" where
  "read_portal_stream node entries =
     (let m = fold (\<lambda>(key, v) m. m(key \<mapsto> v)) entries Map.empty
      in \<lparr>st_nodeId = node,
          st_size = (case m (qs ''size'') of Some (PvSize sz) \<Rightarrow> Some sz | _ \<Rightarrow> None),
          st_mapping_id = (case m (qs ''mapping_id'') of Some (PvString i) \<Rightarrow> Some i | _ \<Rightarrow> None)\<rparr>)"

text \<open>What a \<open>Response\<close> carries: a key that is missing is \<open>None\<close>.\<close>

record portal_result =
  r_session_handle :: "qstring option"
  r_devices :: "u32 option"
  r_restore_token :: "qstring option"
  r_streams :: "portal_stream list"

definition or_empty :: "qstring option \<Rightarrow> qstring" where
  "or_empty x = (case x of Some s \<Rightarrow> s | None \<Rightarrow> [])"

datatype portal_call =
    Unlisten qstring
  | Listen qstring
  | CreateSession qstring qstring
  | SelectDevices qstring qstring "qstring option"
  | SelectSources qstring qstring u32 "bool option"
  | StartSession qstring qstring
  | OpenPipeWireRemote qstring
  | ConnectToEIS qstring
  | ListenClosed qstring
  | ClosePortalSession qstring
  | SaveRestoreToken qstring

text \<open>
  The answer to a method call (the path of its request, \<open>None\<close> an error), the tokens drawn for the
  call and the tokens in the two configuration files.
\<close>

record portal_env =
  e_token :: qstring
  e_session_token :: qstring
  e_reply :: "qstring option"
  e_state_token :: qstring
  e_legacy_token :: qstring

section \<open>State\<close>

record portal =
  p_base :: session
  p_sessionPath :: qstring
  p_mappingId :: qstring
  p_ei :: "ei_connection option"
  p_requests :: "portal_request list"
  p_remotes :: "portal_stream list list"
  p_eisCalls :: nat
  p_closedConnected :: bool
  p_calls :: "portal_call list"

definition portal_init :: "session \<Rightarrow> portal" where
  "portal_init s = \<lparr>p_base = s, p_sessionPath = [], p_mappingId = [], p_ei = None, p_requests = [],
     p_remotes = [], p_eisCalls = 0, p_closedConnected = False, p_calls = []\<rparr>"

definition p_call :: "portal_call list \<Rightarrow> portal \<Rightarrow> portal" where
  "p_call xs p = p\<lparr>p_calls := p_calls p @ xs\<rparr>"

definition p_error :: "portal \<Rightarrow> portal" where
  "p_error p = p\<lparr>p_base := s_emit [ErrorSignal] (p_base p)\<rparr>"

definition p_on_base :: "(session \<Rightarrow> session) \<Rightarrow> portal \<Rightarrow> portal" where
  "p_on_base f p = p\<lparr>p_base := f (p_base p)\<rparr>"

section \<open>The request object\<close>

text \<open>\<open>requestPath\<close>: the bus name without its colon, its dots replaced, then the token.\<close>

definition requestPath :: "qstring \<Rightarrow> qstring \<Rightarrow> qstring" where
  "requestPath baseService handleToken =
     qs ''/org/freedesktop/portal/desktop/request/'' @
     map (\<lambda>c. if c = of_char CHR ''.'' then of_char CHR ''_'' else c) (drop 1 baseService) @
     qs ''/'' @ handleToken"

definition request_listen :: "qstring \<Rightarrow> portal_request \<Rightarrow> portal_request \<times> portal_call list" where
  "request_listen path r =
     (r\<lparr>req_path := path\<rparr>, (if req_path r \<noteq> [] then [Unlisten (req_path r)] else []) @ [Listen path])"

definition new_request :: "qstring \<Rightarrow> qstring \<Rightarrow> portal_callback \<Rightarrow> portal_request \<times> portal_call list" where
  "new_request baseService handleToken cb =
     request_listen (requestPath baseService handleToken) \<lparr>req_path = [], req_callback = cb\<rparr>"

text \<open>
  A request is made, the method is called, and \<open>start\<close> waits for the answer. On an error the
  callback gets the code -1, which makes every callback report an error, and the request goes away;
  the connection to its signal goes with it. A portal that answers with another path is followed.
\<close>

definition make_request ::
  "qstring \<Rightarrow> portal_env \<Rightarrow> portal_callback \<Rightarrow> portal_call \<Rightarrow> portal \<Rightarrow> portal" where
  "make_request baseService env cb method p =
     (let (r, listened) = new_request baseService (e_token env) cb;
          p1 = p_call (listened @ [method]) p
      in case e_reply env of
           None \<Rightarrow> p_error p1
         | Some path \<Rightarrow>
             if path = req_path r then p1\<lparr>p_requests := p_requests p1 @ [r]\<rparr>
             else let (r', relistened) = request_listen path r
                  in (p_call relistened p1)\<lparr>p_requests := p_requests p1 @ [r']\<rparr>)"

section \<open>The start sequence\<close>

definition portal_start :: "qstring \<Rightarrow> portal_env \<Rightarrow> portal \<Rightarrow> portal" where
  "portal_start baseService env p =
     make_request baseService env OnCreateSession (CreateSession (e_token env) (e_session_token env)) p"

definition restore_token_of :: "portal_env \<Rightarrow> qstring option" where
  "restore_token_of env =
     (let t = (if e_state_token env = [] then e_legacy_token env else e_state_token env)
      in if t \<noteq> [] then Some t else None)"

definition onCreateSession :: "qstring \<Rightarrow> portal_env \<Rightarrow> u32 \<Rightarrow> portal_result \<Rightarrow> portal \<Rightarrow> portal" where
  "onCreateSession baseService env code res p =
     (if code \<noteq> 0 then p_error p
      else let p1 = p\<lparr>p_sessionPath := or_empty (r_session_handle res)\<rparr>
           in make_request baseService env OnDevicesSelected
                (SelectDevices (p_sessionPath p1) (e_token env) (restore_token_of env)) p1)"

definition onDevicesSelected :: "qstring \<Rightarrow> portal_env \<Rightarrow> u32 \<Rightarrow> portal_result \<Rightarrow> portal \<Rightarrow> portal" where
  "onDevicesSelected baseService env code res p =
     (if code \<noteq> 0 then p_error p
      else let sources = (if s_virtualMonitor (p_base p) \<noteq> None
                          then SelectSources (p_sessionPath p) (e_token env) 4 None
                          else SelectSources (p_sessionPath p) (e_token env) 1
                                 (Some (s_activeStream (p_base p) \<noteq> None)))
           in make_request baseService env OnSourcesSelected sources p)"

definition onSourcesSelected :: "qstring \<Rightarrow> portal_env \<Rightarrow> u32 \<Rightarrow> portal_result \<Rightarrow> portal \<Rightarrow> portal" where
  "onSourcesSelected baseService env code res p =
     (if code \<noteq> 0 then p_error p
      else make_request baseService env OnSessionStarted (StartSession (p_sessionPath p) (e_token env)) p)"

definition connectToEis :: "portal \<Rightarrow> portal" where
  "connectToEis p = (p_call [ConnectToEIS (p_sessionPath p)] p)\<lparr>p_eisCalls := Suc (p_eisCalls p)\<rparr>"

definition onSessionStarted :: "u32 \<Rightarrow> portal_result \<Rightarrow> portal \<Rightarrow> portal" where
  "onSessionStarted code res p =
     (if code \<noteq> 0 then p_error p
      else if r_devices res = None \<or> r_devices res = Some 0 then p_error p
      else let p1 = p_call [SaveRestoreToken (or_empty (r_restore_token res))] p
           in if r_streams res = [] then p_error p1
              else connectToEis
                     ((p_call [OpenPipeWireRemote (p_sessionPath p1)] p1)
                        \<lparr>p_remotes := p_remotes p1 @ [r_streams res]\<rparr>))"

fun run_callback ::
  "portal_callback \<Rightarrow> qstring \<Rightarrow> portal_env \<Rightarrow> u32 \<Rightarrow> portal_result \<Rightarrow> portal \<Rightarrow> portal" where
  "run_callback OnCreateSession bs env code res p = onCreateSession bs env code res p"
| "run_callback OnDevicesSelected bs env code res p = onDevicesSelected bs env code res p"
| "run_callback OnSourcesSelected bs env code res p = onSourcesSelected bs env code res p"
| "run_callback OnSessionStarted bs env code res p = onSessionStarted code res p"

text \<open>A \<open>Response\<close> on a path runs the callback of the request that listens there and removes it.\<close>

definition onFinished :: "qstring \<Rightarrow> portal_env \<Rightarrow> qstring \<Rightarrow> u32 \<Rightarrow> portal_result \<Rightarrow> portal \<Rightarrow> portal" where
  "onFinished baseService env path code res p =
     (case find (\<lambda>r. req_path r = path) (p_requests p) of
        None \<Rightarrow> p
      | Some r \<Rightarrow>
          run_callback (req_callback r) baseService env code res
            (p\<lparr>p_requests := remove1 r (p_requests p)\<rparr>))"

text \<open>
  The answer to \<open>OpenPipeWireRemote\<close>, with the streams its closure holds. An index out of range
  falls back to the first stream.
\<close>

definition onPipeWireRemote :: "int option \<Rightarrow> portal_stream list \<Rightarrow> portal \<Rightarrow> portal option" where
  "onPipeWireRemote reply streams p =
     (case reply of
        None \<Rightarrow> Some (p_error p)
      | Some fd \<Rightarrow>
          let wanted = (case s_activeStream (p_base p) of Some i \<Rightarrow> i | None \<Rightarrow> 0)
          in case (if wanted < 0 \<or> wanted \<ge> int (length streams)
                   then map_option (\<lambda>b. (b, 0)) (setActiveStream 0 (p_base p))
                   else Some (p_base p, wanted)) of
               None \<Rightarrow> None
             | Some (b, i) \<Rightarrow>
                 if nat i \<ge> length streams then None
                 else let stream = streams ! nat i;
                          b1 = setLogicalSize (case st_size stream of Some sz \<Rightarrow> sz | None \<Rightarrow> qsize_default) b;
                          p1 = p\<lparr>p_base := b1, p_mappingId := or_empty (st_mapping_id stream)\<rparr>;
                          b2 = setPipeWireFd fd (setNodeId (st_nodeId stream) (p_base p1));
                          p2 = p_call [ListenClosed (p_sessionPath p1)] (p1\<lparr>p_base := b2, p_closedConnected := True\<rparr>)
                      in Some (p2\<lparr>p_base := setStarted True (p_base p2)\<rparr>))"

text \<open>The answer to \<open>ConnectToEIS\<close>: whether libei made a context and took the descriptor.\<close>

definition onEisConnected :: "(bool \<times> bool) option \<Rightarrow> portal \<Rightarrow> portal" where
  "onEisConnected reply p =
     (case reply of
        None \<Rightarrow> p_error p
      | Some (created, backend) \<Rightarrow>
          let c = ei_new created backend; p1 = p\<lparr>p_ei := Some c\<rparr>
          in if \<not> m_ei c then p_error p1 else p1)"

definition onSessionClosed :: "portal \<Rightarrow> portal" where
  "onSessionClosed p = p_error p"

definition portal_sendEvent :: "input_event \<Rightarrow> portal \<Rightarrow> portal option" where
  "portal_sendEvent ev p =
     (case p_ei p of
        None \<Rightarrow> Some p
      | Some c \<Rightarrow>
          if s_started (p_base p)
          then map_option (\<lambda>c'. p\<lparr>p_ei := Some c'\<rparr>) (ei_sendEvent ev (s_size (p_base p)) (p_mappingId p) c)
          else Some p)"

definition portal_destroy :: "portal \<Rightarrow> portal" where
  "portal_destroy p =
     (let p1 = (if p_sessionPath p = [] then p else p_call [ClosePortalSession (p_sessionPath p)] p)
      in p_on_base session_destroy (p1\<lparr>p_ei := map_option ei_destroy (p_ei p1)\<rparr>))"

section \<open>Steps\<close>

text \<open>Events of the input server that report an error are passed on as errors of the session.\<close>

fun errors_in :: "ei_out list \<Rightarrow> nat" where
  "errors_in [] = 0"
| "errors_in (EiErrorSignal # xs) = Suc (errors_in xs)"
| "errors_in (_ # xs) = errors_in xs"

definition portal_eis :: "eis_event list \<Rightarrow> portal \<Rightarrow> portal" where
  "portal_eis es p =
     (case p_ei p of
        None \<Rightarrow> p
      | Some c \<Rightarrow>
          let c' = onEisReadyRead es c
          in p_on_base (s_emit (replicate (errors_in (drop (length (ei_log c)) (ei_log c'))) ErrorSignal))
               (p\<lparr>p_ei := Some c'\<rparr>))"

datatype portal_event =
    PResponse qstring portal_env qstring u32 portal_result
  | PPipeWireReply "int option"
  | PEisReply "(bool \<times> bool) option"
  | PClosedSignal
  | PEisEvents "eis_event list"
  | PInput input_event
  | PSetSize qsize
  | PTakeFd
  | PClipboardChanged bool bool "qstring option option"
  | PSetClipboard "qstring option option"

text \<open>An answer comes to the oldest call that waits for it, the \<open>Closed\<close> signal once it is connected.\<close>

fun portal_step :: "portal_event \<Rightarrow> portal \<Rightarrow> portal option" where
  "portal_step (PResponse bs env path code res) p = Some (onFinished bs env path code res p)"
| "portal_step (PPipeWireReply reply) p =
     (case p_remotes p of
        [] \<Rightarrow> Some p
      | streams # rest \<Rightarrow> onPipeWireRemote reply streams (p\<lparr>p_remotes := rest\<rparr>))"
| "portal_step (PEisReply reply) p =
     (if p_eisCalls p = 0 then Some p
      else Some (onEisConnected reply (p\<lparr>p_eisCalls := p_eisCalls p - 1\<rparr>)))"
| "portal_step PClosedSignal p = Some (if p_closedConnected p then onSessionClosed p else p)"
| "portal_step (PEisEvents es) p = Some (portal_eis es p)"
| "portal_step (PInput ev) p = portal_sendEvent ev p"
| "portal_step (PSetSize sz) p = Some (p_on_base (session_setSize sz) p)"
| "portal_step PTakeFd p = Some (p_on_base (\<lambda>s. snd (takePipeWireFd s)) p)"
| "portal_step (PClipboardChanged c w d) p = Some (p_on_base (onSystemClipboardChanged c w d) p)"
| "portal_step (PSetClipboard d) p = Some (p_on_base (setClipboardData d) p)"

definition portal_begin :: "monitor_choice \<Rightarrow> qstring \<Rightarrow> portal_env \<Rightarrow> portal option" where
  "portal_begin m baseService env =
     map_option (\<lambda>s. portal_start baseService env (portal_init s)) (choose_monitor m session_init)"

section \<open>What every step keeps\<close>

definition portal_good :: "portal \<Rightarrow> bool" where
  "portal_good p \<longleftrightarrow> base_good (p_base p) \<and> ei_sound (p_ei p) \<and> list_all (\<lambda>ss. ss \<noteq> []) (p_remotes p) \<and>
     (ei_input (p_ei p) \<noteq> [] \<longrightarrow> s_started (p_base p))"

text \<open>A step keeps the input connection, or replaces its log by one with nothing new in it.\<close>

definition portal_keeps :: "portal \<Rightarrow> portal \<Rightarrow> bool" where
  "portal_keeps p p' \<longleftrightarrow> base_step (p_base p) (p_base p') \<and> (ei_sound (p_ei p) \<longrightarrow> ei_sound (p_ei p')) \<and>
     (list_all (\<lambda>ss. ss \<noteq> []) (p_remotes p) \<longrightarrow> list_all (\<lambda>ss. ss \<noteq> []) (p_remotes p')) \<and>
     (ei_input (p_ei p') \<noteq> [] \<longrightarrow> ei_input (p_ei p) \<noteq> [] \<or> s_started (p_base p'))"

lemma portal_keeps_refl [simp]: "portal_keeps p p"
  by (simp add: portal_keeps_def)

lemma portal_good_keeps: "portal_keeps p p' \<Longrightarrow> portal_good p \<Longrightarrow> portal_good p'"
  by (auto simp: portal_keeps_def portal_good_def base_step_def)

lemma portal_keeps_base:
  assumes "base_step (p_base p) (p_base p')" and "p_ei p' = p_ei p" and "set (p_remotes p') \<subseteq> set (p_remotes p)"
  shows "portal_keeps p p'"
  using assms by (auto simp: portal_keeps_def list_all_iff)

lemma make_request_fields [simp]:
  "p_ei (make_request bs env cb m p) = p_ei p" "p_remotes (make_request bs env cb m p) = p_remotes p"
  "s_started (p_base (make_request bs env cb m p)) = s_started (p_base p)"
  by (auto simp: make_request_def p_call_def p_error_def Let_def split: option.split prod.split)

lemma base_step_make_request [simp]: "base_step (p_base p) (p_base (make_request bs env cb m p))"
  by (auto simp: make_request_def p_call_def p_error_def Let_def intro: base_step_emit split: option.split prod.split)

lemma make_request_keeps: "portal_keeps p (make_request bs env cb m p)"
  by (rule portal_keeps_base) simp_all

lemma p_error_keeps: "portal_keeps p (p_error p)"
  by (rule portal_keeps_base) (simp_all add: p_error_def base_step_emit)

lemma onSessionStarted_keeps: "portal_keeps p (onSessionStarted code res p)"
proof (cases "code \<noteq> 0 \<or> r_devices res = None \<or> r_devices res = Some 0")
  case True
  then show ?thesis using p_error_keeps by (auto simp: onSessionStarted_def)
next
  case False
  then show ?thesis
    by (auto simp: onSessionStarted_def portal_keeps_def connectToEis_def p_call_def p_error_def Let_def
        intro: base_step_emit)
qed

lemma run_callback_keeps: "portal_keeps p (run_callback cb bs env code res p)"
proof (cases cb)
  case OnCreateSession
  have "portal_keeps p (make_request bs env cb m (p\<lparr>p_sessionPath := x\<rparr>))" for cb m x
    using make_request_keeps [of "p\<lparr>p_sessionPath := x\<rparr>"] by (simp add: portal_keeps_def)
  then show ?thesis using OnCreateSession p_error_keeps by (simp add: onCreateSession_def Let_def)
qed (simp_all add: onDevicesSelected_def onSourcesSelected_def onSessionStarted_keeps make_request_keeps
    p_error_keeps)

lemma onFinished_keeps: "portal_keeps p (onFinished bs env path code res p)"
proof (cases "find (\<lambda>r. req_path r = path) (p_requests p)")
  case (Some r)
  show ?thesis
    using run_callback_keeps [of "p\<lparr>p_requests := remove1 r (p_requests p)\<rparr>" "req_callback r" bs env code res] Some
    by (simp add: onFinished_def portal_keeps_def)
qed (simp add: onFinished_def)

text \<open>
  The fallback to the first stream finds one, and setting the index then meets no virtual monitor:
  only a session that was given an index can be out of range.
\<close>

lemma onPipeWireRemote_keeps:
  assumes "streams \<noteq> []" and "base_good (p_base p)"
  shows "\<exists>p'. onPipeWireRemote reply streams p = Some p' \<and> portal_keeps p p'"
proof (cases reply)
  case None
  then show ?thesis using p_error_keeps by (simp add: onPipeWireRemote_def)
next
  case (Some fd)
  let ?w = "case s_activeStream (p_base p) of Some i \<Rightarrow> i | None \<Rightarrow> 0"
  let ?c = "if ?w < 0 \<or> ?w \<ge> int (length streams)
            then map_option (\<lambda>b. (b, 0)) (setActiveStream 0 (p_base p)) else Some (p_base p, ?w)"
  have "\<exists>b i. ?c = Some (b, i) \<and> base_step (p_base p) b \<and> nat i < length streams"
  proof (cases "?w < 0 \<or> ?w \<ge> int (length streams)")
    case True
    then have a: "s_activeStream (p_base p) \<noteq> None" using assms(1) by (auto split: option.splits)
    then obtain b where "setActiveStream 0 (p_base p) = Some b"
      using assms(2) by (auto simp: setActiveStream_def base_good_def)
    then show ?thesis using True assms(1) base_step_active [OF a] by simp
  qed (auto simp: nat_less_iff)
  then obtain b i where c: "?c = Some (b, i)" "base_step (p_base p) b" "nat i < length streams" by blast
  have "base_step (p_base p) (setStarted True (setPipeWireFd fd (setNodeId n (setLogicalSize sz b))))" for n sz
    by (intro base_step_trans [OF c(2)] base_step_trans [OF _ base_step_ops(6)]
        base_step_trans [OF _ base_step_fd] base_step_trans [OF _ base_step_ops(3)] base_step_ops(2))
  then show ?thesis
    unfolding onPipeWireRemote_def using Some c(1,3)
    by (auto simp: Let_def p_call_def intro!: portal_keeps_base)
qed

lemma portal_eis_keeps: "portal_keeps p (portal_eis es p)"
proof (cases "p_ei p")
  case (Some c)
  then show ?thesis
    using ei_sound_onEisReadyRead [of c es]
    by (auto simp: portal_eis_def portal_keeps_def p_on_base_def Let_def intro: base_step_emit)
qed (simp add: portal_eis_def)

lemma onEisConnected_keeps: "portal_keeps p (onEisConnected reply p)"
proof (cases reply)
  case (Some cb)
  then show ?thesis
    by (cases cb) (auto simp: ei_sound_new onEisConnected_def portal_keeps_def p_error_def Let_def intro: base_step_emit)
qed (simp add: onEisConnected_def p_error_keeps)

lemma portal_sendEvent_keeps:
  assumes "ei_sound (p_ei p)"
  shows "\<exists>p'. portal_sendEvent ev p = Some p' \<and> portal_keeps p p'"
proof (cases "p_ei p")
  case (Some c)
  show ?thesis
  proof (cases "s_started (p_base p)")
    case True
    then show ?thesis
      using Some assms ei_sound_sendEvent [of c ev "s_size (p_base p)" "p_mappingId p"]
      by (auto simp: portal_sendEvent_def portal_keeps_def)
  qed (simp add: portal_sendEvent_def Some)
qed (simp add: portal_sendEvent_def)

lemma portal_step_keeps:
  assumes "portal_good p"
  shows "\<exists>p'. portal_step e p = Some p' \<and> portal_keeps p p'"
proof -
  have good: "base_good (p_base p)" "ei_sound (p_ei p)" "list_all (\<lambda>ss. ss \<noteq> []) (p_remotes p)"
    using assms by (simp_all add: portal_good_def)
  have on_base: "portal_keeps p (p_on_base f p)" if "base_step (p_base p) (f (p_base p))" for f
    using that by (intro portal_keeps_base) (simp_all add: p_on_base_def)
  show ?thesis
  proof (cases e)
    case (PPipeWireReply reply)
    show ?thesis
    proof (cases "p_remotes p")
      case (Cons streams rest)
      then show ?thesis
        using PPipeWireReply good onPipeWireRemote_keeps [of streams "p\<lparr>p_remotes := rest\<rparr>" reply]
        by (simp add: portal_keeps_def)
    qed (simp add: PPipeWireReply)
  next
    case (PEisReply reply)
    then show ?thesis
      using onEisConnected_keeps [of "p\<lparr>p_eisCalls := p_eisCalls p - 1\<rparr>" reply]
      by (auto simp: portal_keeps_def)
  qed (use good in \<open>auto simp: onFinished_keeps onSessionClosed_def p_error_keeps portal_eis_keeps
         portal_sendEvent_keeps intro: on_base\<close>)
qed

lemma portal_good_step: "portal_good p \<Longrightarrow> returns_with portal_good (portal_step e p)"
  using portal_step_keeps [of p e] portal_good_keeps by (auto simp: returns_with_iff)

lemma portal_good_begin: "returns_with portal_good (portal_begin m bs env)"
proof -
  have "\<exists>s. choose_monitor m session_init = Some s \<and> base_good s"
    by (cases m) (simp_all add: choose_monitor_def setActiveStream_def setVirtualMonitor_def session_init_def
        base_good_def)
  then obtain s where s: "choose_monitor m session_init = Some s" "base_good s" by blast
  have "portal_good (portal_init s)"
    using s(2) by (simp add: portal_good_def portal_init_def ei_sound_def ei_input_def)
  then have "portal_good (portal_start bs env (portal_init s))"
    unfolding portal_start_def by (rule portal_good_keeps [OF make_request_keeps])
  then show ?thesis using s(1) by (simp add: portal_begin_def)
qed

text \<open>The portal session as a session.\<close>

definition of_portal :: "portal option \<Rightarrow> session" where
  "of_portal o' = (case o' of Some p \<Rightarrow> p_base p | None \<Rightarrow> session_init)"

definition portal_input :: "portal option \<Rightarrow> ei_out list" where
  "portal_input o' = (case o' of Some p \<Rightarrow> ei_input (p_ei p) | None \<Rightarrow> [])"

interpretation portal_be: session_backend "lift_step portal_step" "portal_begin m bs env" "\<lambda>_. True"
  "returns_with portal_good" of_portal portal_input for m bs env
proof unfold_locales
  show "returns_with portal_good (portal_begin m bs env)" by (rule portal_good_begin)
  fix e x assume x: "returns_with portal_good x"
  then obtain p where p: "x = Some p" "portal_good p" by (auto simp: returns_with_iff)
  then show "returns_with portal_good (lift_step portal_step e x)" using portal_good_step by simp
  show "(StartedSignal \<in> set (s_log (of_portal x))) = s_started (of_portal x)"
    using p by (simp add: of_portal_def portal_good_def base_good_def)
  show "s_started (of_portal (lift_step portal_step e x))" if "s_started (of_portal x)"
    using portal_step_keeps [OF p(2), of e] p that
    by (auto simp: of_portal_def portal_keeps_def base_step_def portal_good_def)
  show "s_started (of_portal x)" if "portal_input x \<noteq> []"
    using p that by (simp add: of_portal_def portal_input_def portal_good_def)
qed

section \<open>The order of the start sequence\<close>

datatype portal_method = MCreate | MDevices | MSources | MStart | MRemote | MEis

fun method_of :: "portal_call \<Rightarrow> portal_method option" where
  "method_of (CreateSession a b) = Some MCreate"
| "method_of (SelectDevices a b c) = Some MDevices"
| "method_of (SelectSources a b c d) = Some MSources"
| "method_of (StartSession a b) = Some MStart"
| "method_of (OpenPipeWireRemote a) = Some MRemote"
| "method_of (ConnectToEIS a) = Some MEis"
| "method_of _ = None"

definition methods :: "portal \<Rightarrow> portal_method list" where
  "methods p = List.map_filter method_of (p_calls p)"

definition start_sequence :: "portal_method list" where
  "start_sequence = [MCreate, MDevices, MSources, MStart, MRemote, MEis]"

fun done_before :: "portal_callback \<Rightarrow> portal_method list" where
  "done_before OnCreateSession = [MCreate]"
| "done_before OnDevicesSelected = [MCreate, MDevices]"
| "done_before OnSourcesSelected = [MCreate, MDevices, MSources]"
| "done_before OnSessionStarted = [MCreate, MDevices, MSources, MStart]"

text \<open>
  The phases of a session: waiting for the answer to one request, given up, or through the sequence.
  Only in the last are there other answers to wait for and a signal to listen to.
\<close>

definition calling :: "portal \<Rightarrow> bool" where
  "calling p \<longleftrightarrow> (\<exists>r cb. p_requests p = [r] \<and> req_callback r = cb \<and> methods p = done_before cb)"

definition given_up :: "portal \<Rightarrow> bool" where
  "given_up p \<longleftrightarrow> p_requests p = [] \<and> (\<exists>cb. methods p = done_before cb) \<and> ErrorSignal \<in> set (s_log (p_base p))"

definition portal_quiet :: "portal \<Rightarrow> bool" where
  "portal_quiet p \<longleftrightarrow> p_remotes p = [] \<and> p_eisCalls p = 0 \<and> \<not> p_closedConnected p \<and> \<not> s_started (p_base p)"

definition through :: "portal \<Rightarrow> bool" where
  "through p \<longleftrightarrow> p_requests p = [] \<and> methods p = start_sequence"

definition in_order :: "portal \<Rightarrow> bool" where
  "in_order p \<longleftrightarrow> (calling p \<or> given_up p) \<and> portal_quiet p \<or> through p"

lemma methods_p_call [simp]: "methods (p_call xs p) = methods p @ List.map_filter method_of xs"
  by (simp add: methods_def p_call_def map_filter_def)

lemma map_filter_listen [simp]:
  "List.map_filter method_of (snd (request_listen path r)) = []"
  by (simp add: request_listen_def map_filter_def)

lemma map_filter_listened: "request_listen path r = (r', xs) \<Longrightarrow> List.map_filter method_of xs = []"
  using map_filter_listen [of path r] by simp

lemma p_call_fields [simp]:
  "p_requests (p_call xs p) = p_requests p" "p_remotes (p_call xs p) = p_remotes p"
  "p_eisCalls (p_call xs p) = p_eisCalls p" "p_closedConnected (p_call xs p) = p_closedConnected p"
  "p_base (p_call xs p) = p_base p" "p_ei (p_call xs p) = p_ei p" "p_sessionPath (p_call xs p) = p_sessionPath p"
  by (simp_all add: p_call_def)

lemma methods_updates [simp]:
  "methods (p\<lparr>p_requests := a\<rparr>) = methods p" "methods (p\<lparr>p_base := b\<rparr>) = methods p"
  "methods (p\<lparr>p_sessionPath := c\<rparr>) = methods p" "methods (p\<lparr>p_remotes := d\<rparr>) = methods p"
  "methods (p\<lparr>p_eisCalls := n\<rparr>) = methods p" "methods (p\<lparr>p_ei := x\<rparr>) = methods p"
  "methods (p\<lparr>p_mappingId := k\<rparr>) = methods p" "methods (p\<lparr>p_closedConnected := z\<rparr>) = methods p"
  by (simp_all add: methods_def)

lemma p_error_fields [simp]:
  "methods (p_error p) = methods p" "p_requests (p_error p) = p_requests p" "p_remotes (p_error p) = p_remotes p"
  "p_eisCalls (p_error p) = p_eisCalls p" "p_closedConnected (p_error p) = p_closedConnected p"
  "s_started (p_base (p_error p)) = s_started (p_base p)" "ErrorSignal \<in> set (s_log (p_base (p_error p)))"
  by (simp_all add: p_error_def)

text \<open>From a state with no request waiting, the next method call comes with the request that waits for it.\<close>

lemma make_request_order:
  assumes "p_requests p = []" and "portal_quiet p"
    and "methods p @ List.map_filter method_of [m] = done_before cb"
  shows "in_order (make_request bs env cb m p)"
proof -
  let ?r = "fst (new_request bs (e_token env) cb)"
  have cb: "req_callback ?r = cb" "List.map_filter method_of (snd (new_request bs (e_token env) cb)) = []"
    by (simp_all add: new_request_def request_listen_def map_filter_def)
  have ms: "methods (p_call (snd (new_request bs (e_token env) cb) @ [m]) p) = done_before cb"
    using assms(3) cb(2) by (simp add: map_filter_def)
  have q: "portal_quiet (p_call xs p)" "portal_quiet (p\<lparr>p_requests := rs\<rparr>) = portal_quiet p"
      "portal_quiet (p_call xs p\<lparr>p_requests := rs\<rparr>)" "portal_quiet (p_error (p_call xs p))" for xs rs
    using assms(2) by (simp_all add: portal_quiet_def)
  show ?thesis
  proof (cases "e_reply env")
    case None
    then show ?thesis
      using assms(1) ms q(4) [of "snd (new_request bs (e_token env) cb) @ [m]"]
      by (auto simp: make_request_def in_order_def given_up_def Let_def split: prod.split)
  next
    case (Some path)
    have two: "methods (p_call (snd (request_listen path ?r)) (p_call (snd (new_request bs (e_token env) cb) @ [m]) p))
        = done_before cb" "req_callback (fst (request_listen path ?r)) = cb"
      using ms cb(1) by (simp_all add: request_listen_def map_filter_def)
    have q2: "portal_quiet (p_call xs (p_call ys p)\<lparr>p_requests := rs\<rparr>)" for xs ys rs
      using assms(2) by (simp add: portal_quiet_def)
    show ?thesis
      using Some assms(1) ms cb(1) two q2 q(3)
      by (auto simp: make_request_def in_order_def calling_def Let_def map_filter_listened split: prod.split)
  qed
qed

lemma p_error_order:
  assumes "p_requests p = []" and "portal_quiet p" and "methods p = done_before cb"
  shows "in_order (p_error p)"
  using assms by (auto simp: in_order_def given_up_def portal_quiet_def)

lemma onSessionStarted_order:
  assumes "p_requests p = []" and "portal_quiet p" and "methods p = done_before OnSessionStarted"
  shows "in_order (onSessionStarted code res p)"
proof -
  let ?save = "SaveRestoreToken (or_empty (r_restore_token res))"
  have saved: "in_order (p_error (p_call [?save] p))"
    using assms by (intro p_error_order [where cb = OnSessionStarted]) (simp_all add: portal_quiet_def map_filter_def)
  show ?thesis
    using assms saved p_error_order [OF assms]
    by (simp add: onSessionStarted_def in_order_def through_def connectToEis_def start_sequence_def
        map_filter_def Let_def)
qed

lemma run_callback_order:
  assumes "p_requests p = []" and "portal_quiet p" and "methods p = done_before cb"
  shows "in_order (run_callback cb bs env code res p)"
proof (cases cb)
  case OnCreateSession
  then show ?thesis
    using assms p_error_order [OF assms]
    by (auto simp: onCreateSession_def Let_def portal_quiet_def map_filter_def intro!: make_request_order)
next
  case OnDevicesSelected
  then show ?thesis
    using assms p_error_order [OF assms]
    by (auto simp: onDevicesSelected_def Let_def map_filter_def intro!: make_request_order)
next
  case OnSourcesSelected
  then show ?thesis
    using assms p_error_order [OF assms]
    by (auto simp: onSourcesSelected_def map_filter_def intro!: make_request_order)
next
  case OnSessionStarted
  then show ?thesis using assms onSessionStarted_order by simp
qed

lemma onFinished_order:
  assumes "in_order p"
  shows "in_order (onFinished bs env path code res p)"
proof (cases "find (\<lambda>r. req_path r = path) (p_requests p)")
  case (Some r)
  then have "calling p" "portal_quiet p" using assms by (auto simp: in_order_def given_up_def through_def)
  then have r: "p_requests p = [r]" "methods p = done_before (req_callback r)"
    using Some by (auto simp: calling_def split: if_splits)
  have "in_order (run_callback (req_callback r) bs env code res (p\<lparr>p_requests := []\<rparr>))"
    using r \<open>portal_quiet p\<close> by (intro run_callback_order) (simp_all add: portal_quiet_def)
  then show ?thesis using Some r(1) by (simp add: onFinished_def)
qed (simp add: onFinished_def assms)

text \<open>What the answers that come after the sequence change is none of its business.\<close>

definition same_order :: "portal \<Rightarrow> portal \<Rightarrow> bool" where
  "same_order p p' \<longleftrightarrow> p_requests p' = p_requests p \<and> methods p' = methods p \<and>
     (\<exists>xs. s_log (p_base p') = s_log (p_base p) @ xs) \<and> (portal_quiet p \<longrightarrow> portal_quiet p')"

lemma same_order_keeps: "same_order p p' \<Longrightarrow> in_order p \<Longrightarrow> in_order p'"
  by (auto simp: same_order_def in_order_def calling_def given_up_def through_def)

lemma same_order_base:
  assumes "p_requests p' = p_requests p" "methods p' = methods p" "\<exists>xs. s_log (p_base p') = s_log (p_base p) @ xs"
    and "p_remotes p' = p_remotes p" "p_eisCalls p' = p_eisCalls p" "p_closedConnected p' = p_closedConnected p"
    and "s_started (p_base p') = s_started (p_base p)"
  shows "same_order p p'"
  using assms by (simp add: same_order_def portal_quiet_def)

lemma same_order_emit: "same_order p (p\<lparr>p_base := s_emit xs (p_base p)\<rparr>)"
  by (rule same_order_base) simp_all

lemma through_of_remotes: "in_order p \<Longrightarrow> p_remotes p \<noteq> [] \<or> p_eisCalls p \<noteq> 0 \<Longrightarrow> through p"
  by (auto simp: in_order_def portal_quiet_def)

lemma onPipeWireRemote_order:
  assumes "onPipeWireRemote reply streams p = Some p'"
  shows "p_requests p' = p_requests p \<and> methods p' = methods p"
proof (cases reply)
  case (Some fd)
  then show ?thesis
    using assms
    by (auto simp: onPipeWireRemote_def Let_def map_filter_def split: if_splits option.splits)
qed (use assms in \<open>auto simp: onPipeWireRemote_def\<close>)

lemma onEisConnected_order:
  "p_requests (onEisConnected reply p) = p_requests p" "methods (onEisConnected reply p) = methods p"
  by (auto simp: onEisConnected_def Let_def split: option.split)

lemma portal_step_order:
  assumes "portal_step e p = Some p'" and "in_order p"
  shows "in_order p'"
proof (cases e)
  case (PPipeWireReply reply)
  show ?thesis
  proof (cases "p_remotes p")
    case (Cons streams rest)
    then show ?thesis
      using PPipeWireReply assms through_of_remotes [OF assms(2)]
        onPipeWireRemote_order [of reply streams "p\<lparr>p_remotes := rest\<rparr>" p']
      by (simp add: in_order_def through_def)
  qed (use PPipeWireReply assms in simp)
next
  case (PEisReply reply)
  then show ?thesis
    using assms through_of_remotes [OF assms(2)] onEisConnected_order
    by (auto simp: in_order_def through_def split: if_splits)
next
  case (PResponse bs env path code res)
  then show ?thesis using assms onFinished_order by auto
next
  case (PInput ev)
  then have "same_order p p'"
    using assms by (auto simp: portal_sendEvent_def split: option.splits if_splits intro!: same_order_base)
  then show ?thesis using same_order_keeps assms(2) by blast
next
  case (PEisEvents es)
  then have "same_order p p'"
    using assms by (auto simp: portal_eis_def p_on_base_def Let_def split: option.splits intro!: same_order_base)
  then show ?thesis using same_order_keeps assms(2) by blast
next
  case PClosedSignal
  then have "same_order p p'"
    using assms by (auto simp: onSessionClosed_def p_error_def split: if_splits intro!: same_order_base)
  then show ?thesis using same_order_keeps assms(2) by blast
next
  case (PClipboardChanged c w d)
  moreover have "\<exists>xs. onSystemClipboardChanged c w d (p_base p) = s_emit xs (p_base p)"
    by (auto simp: onSystemClipboardChanged_def Let_def s_emit_def intro: exI [of _ "[]"] split: option.split)
  ultimately show ?thesis using assms same_order_emit same_order_keeps by (fastforce simp: p_on_base_def)
next
  case (PSetClipboard d)
  moreover have "\<exists>xs. setClipboardData d (p_base p) = s_emit xs (p_base p)"
    by (auto simp: setClipboardData_def split: option.split)
  ultimately show ?thesis using assms same_order_emit same_order_keeps by (fastforce simp: p_on_base_def)
next
  case (PSetSize sz)
  then have "same_order p p'"
    using assms by (auto simp: p_on_base_def session_setSize_def intro!: same_order_base)
  then show ?thesis using same_order_keeps assms(2) by blast
next
  case PTakeFd
  then have "same_order p p'"
    using assms by (auto simp: p_on_base_def takePipeWireFd_def intro!: same_order_base)
  then show ?thesis using same_order_keeps assms(2) by blast
qed

lemma portal_begin_order: "returns_with in_order (portal_begin m bs env)"
proof -
  obtain s where s: "choose_monitor m session_init = Some s" "\<not> s_started s"
    by (cases m) (auto simp: choose_monitor_def setActiveStream_def setVirtualMonitor_def session_init_def)
  have "in_order (portal_start bs env (portal_init s))"
    unfolding portal_start_def using s(2)
    by (intro make_request_order) (simp_all add: portal_init_def portal_quiet_def methods_def map_filter_def)
  then show ?thesis using s(1) by (simp add: portal_begin_def)
qed

interpretation portal_order: machine "lift_step portal_step" "portal_begin m bs env" "\<lambda>_. True"
  "returns_with (\<lambda>p. portal_good p \<and> in_order p)" for m bs env
proof unfold_locales
  show "returns_with (\<lambda>p. portal_good p \<and> in_order p) (portal_begin m bs env)"
    using portal_begin_order [of m bs env] portal_good_begin [of m bs env] by (auto simp: returns_with_iff)
  fix e x assume "returns_with (\<lambda>p. portal_good p \<and> in_order p) x"
  then show "returns_with (\<lambda>p. portal_good p \<and> in_order p) (lift_step portal_step e x)"
    using portal_good_step portal_step_order by (auto simp: returns_with_iff) blast
qed

lemma in_order_prefix: "in_order p \<Longrightarrow> prefix (methods p) start_sequence"
proof -
  have "prefix (done_before cb) start_sequence" for cb by (cases cb) (simp_all add: start_sequence_def)
  then show "in_order p \<Longrightarrow> prefix (methods p) start_sequence"
    by (auto simp: in_order_def calling_def given_up_def through_def)
qed

text \<open>
C8. The portal is asked in the order its protocol demands, and the session survives every answer.
Whatever responses, replies, signals and input come, in whatever order: every step returns (no failed
assertion, no stream index out of range, no missing pointer device); the methods called so far are an
initial part of CreateSession, SelectDevices, SelectSources, Start, OpenPipeWireRemote, ConnectToEIS,
each called once; the session counts as started only after all of them; and if it waits for no request
before that, it has reported an error.
\<close>

theorem portal_start_sequence:
  "\<exists>p. fold (lift_step portal_step) es (portal_begin m bs env) = Some p \<and>
     prefix (methods p) start_sequence \<and> (s_started (p_base p) \<longrightarrow> methods p = start_sequence) \<and>
     (p_requests p = [] \<longrightarrow> methods p = start_sequence \<or> ErrorSignal \<in> set (s_log (p_base p)))"
proof -
  have "returns_with (\<lambda>p. portal_good p \<and> in_order p) (fold (lift_step portal_step) es (portal_begin m bs env))"
    by (rule portal_order.inv_reach) (simp add: list_all_iff)
  then obtain p where "fold (lift_step portal_step) es (portal_begin m bs env) = Some p" "in_order p"
    by (auto simp: returns_with_iff)
  then show ?thesis
    using in_order_prefix [of p] by (auto simp: in_order_def portal_quiet_def calling_def given_up_def through_def)
qed

definition demo_portal_env :: "string \<Rightarrow> portal_env" where
  "demo_portal_env path = \<lparr>e_token = qs path, e_session_token = [], e_reply = Some (requestPath (qs '':1.4'') (qs path)),
     e_state_token = [], e_legacy_token = qs ''old''\<rparr>"

definition demo_portal_result :: portal_result where
  "demo_portal_result = \<lparr>r_session_handle = Some (qs ''/s''), r_devices = Some 7, r_restore_token = None,
     r_streams = [\<lparr>st_nodeId = 42, st_size = None, st_mapping_id = None\<rparr>]\<rparr>"

definition demo_response :: "string \<Rightarrow> string \<Rightarrow> portal_event" where
  "demo_response this later = PResponse (qs '':1.4'') (demo_portal_env later) (requestPath (qs '':1.4'') (qs this)) 0
     demo_portal_result"

definition demo_portal_events :: "portal_event list" where
  "demo_portal_events = [demo_response ''a'' ''b'', demo_response ''b'' ''c'', demo_response ''c'' ''d'',
     demo_response ''d'' ''e'', PPipeWireReply (Some 5)]"

lemma demo_portal_started:
  "s_started (of_portal (fold (lift_step portal_step) demo_portal_events
     (portal_begin (TheMonitor 3) (qs '':1.4'') (demo_portal_env ''a''))))"
  by (simp add: demo_portal_events_def demo_response_def demo_portal_env_def demo_portal_result_def portal_begin_def
      choose_monitor_def portal_start_def make_request_def new_request_def request_listen_def portal_init_def
      session_init_def setActiveStream_def onFinished_def onCreateSession_def onDevicesSelected_def
      onSourcesSelected_def onSessionStarted_def connectToEis_def onPipeWireRemote_def of_portal_def p_error_def
      setStarted_def Let_def requestPath_def qs_def)

theorem portal_start_sequence_witness:
  "\<exists>p. fold (lift_step portal_step) demo_portal_events
       (portal_begin (TheMonitor 3) (qs '':1.4'') (demo_portal_env ''a'')) = Some p \<and>
     s_started (p_base p) \<and> methods p = start_sequence"
  using portal_start_sequence [of demo_portal_events "TheMonitor 3" "qs '':1.4''" "demo_portal_env ''a''"]
    demo_portal_started
  by (auto simp: of_portal_def)

text \<open>
C29. Nothing a client types reaches the desktop before its session has started, and a session is started
exactly when it has said so: in a run in which the start has not been announced, the input connection
was sent no event at any point.
\<close>

theorem portal_no_input_before_start:
  assumes "StartedSignal \<notin> set (s_log (of_portal (fold (lift_step portal_step) (es @ es') (portal_begin m bs env))))"
  shows "portal_input (fold (lift_step portal_step) es (portal_begin m bs env)) = [] \<and>
     \<not> s_started (of_portal (fold (lift_step portal_step) es (portal_begin m bs env)))"
  by (rule portal_be.quiet_prefix [OF _ assms]) (simp add: list_all_iff)

theorem portal_no_input_before_start_witness:
  "portal_input (fold (lift_step portal_step) [PInput (QKeyEvent KeyPress 30 0)]
       (portal_begin WholeWorkspace (qs '':1.4'') (demo_portal_env ''a''))) = [] \<and>
   \<not> s_started (of_portal (fold (lift_step portal_step) [PInput (QKeyEvent KeyPress 30 0)]
       (portal_begin WholeWorkspace (qs '':1.4'') (demo_portal_env ''a''))))"
proof (rule portal_no_input_before_start [where es' = "[PClosedSignal]"])
  show "StartedSignal \<notin> set (s_log (of_portal (fold (lift_step portal_step) ([PInput (QKeyEvent KeyPress 30 0)] @ [PClosedSignal])
      (portal_begin WholeWorkspace (qs '':1.4'') (demo_portal_env ''a'')))))"
    by (simp add: portal_begin_def choose_monitor_def portal_start_def make_request_def new_request_def
        request_listen_def portal_init_def p_call_def demo_portal_env_def portal_sendEvent_def
        session_init_def of_portal_def Let_def)
qed

section \<open>A portal that grants everything\<close>

text \<open>The session waits for the answer to one request, and for nothing else.\<close>

definition waits :: "portal_callback \<Rightarrow> portal \<Rightarrow> bool" where
  "waits cb p \<longleftrightarrow> (\<exists>r. p_requests p = [r] \<and> req_callback r = cb) \<and> p_remotes p = [] \<and> portal_good p"

lemma calling_waits: "calling p \<Longrightarrow> portal_quiet p \<Longrightarrow> portal_good p \<Longrightarrow> \<exists>cb. waits cb p"
  by (auto simp: calling_def portal_quiet_def waits_def)

lemma make_request_waits:
  assumes "e_reply env = Some path" and "p_requests p = []"
  shows "\<exists>r. p_requests (make_request bs env cb method p) = [r] \<and> req_callback r = cb"
  using assms by (auto simp: make_request_def new_request_def request_listen_def p_call_def Let_def)

definition grants :: "qstring \<Rightarrow> portal_env \<Rightarrow> portal_result \<Rightarrow> int \<Rightarrow> portal_event \<Rightarrow> bool" where
  "grants bs env res fd e \<longleftrightarrow> (\<exists>path. e = PResponse bs env path 0 res) \<or> e = PPipeWireReply (Some fd)"

fun next_callback :: "portal_callback \<Rightarrow> portal_callback option" where
  "next_callback OnCreateSession = Some OnDevicesSelected"
| "next_callback OnDevicesSelected = Some OnSourcesSelected"
| "next_callback OnSourcesSelected = Some OnSessionStarted"
| "next_callback OnSessionStarted = None"

lemma grant_next:
  assumes "waits cb p" and "next_callback cb = Some cb'" and "e_reply env = Some path"
  shows "\<exists>e p'. grants bs env res fd e \<and> portal_step e p = Some p' \<and> waits cb' p'"
proof -
  obtain r where r: "p_requests p = [r]" "req_callback r = cb" "p_remotes p = []" "portal_good p"
    using assms(1) by (auto simp: waits_def)
  let ?e = "PResponse bs env (req_path r) 0 res"
  let ?p' = "onFinished bs env (req_path r) 0 res p"
  have "portal_good ?p'" using portal_good_step [OF r(4), of ?e] by simp
  moreover have "(\<exists>r. p_requests ?p' = [r] \<and> req_callback r = cb') \<and> p_remotes ?p' = []"
    using r(1-3) assms(2) make_request_waits [OF assms(3)]
    by (cases cb) (auto simp: onFinished_def onCreateSession_def onDevicesSelected_def onSourcesSelected_def Let_def)
  ultimately show ?thesis
    by (intro exI [of _ ?e] exI [of _ ?p']) (auto simp: waits_def grants_def)
qed

lemma remote_starts:
  assumes "streams \<noteq> []" and "base_good (p_base p)"
  shows "\<exists>p'. onPipeWireRemote (Some fd) streams p = Some p' \<and> s_started (p_base p') \<and>
    s_nodeId (p_base p') \<in> st_nodeId ` set streams \<and> s_pipeWireFd (p_base p') = fd"
proof -
  obtain p' where p': "onPipeWireRemote (Some fd) streams p = Some p'"
    using onPipeWireRemote_keeps [OF assms, of "Some fd"] by blast
  then show ?thesis
    by (auto simp: onPipeWireRemote_def setStarted_def setPipeWireFd_def setNodeId_def Let_def s_emit_def
        split: option.splits if_splits)
qed

lemma grant_last:
  assumes "waits OnSessionStarted p" and "r_devices res = Some d" "d \<noteq> 0" "r_streams res \<noteq> []"
  shows "\<exists>es p'. list_all (grants bs env res fd) es \<and> length es = 2 \<and>
    fold (lift_step portal_step) es (Some p) = Some p' \<and> s_started (p_base p') \<and>
    s_nodeId (p_base p') \<in> st_nodeId ` set (r_streams res) \<and> s_pipeWireFd (p_base p') = fd"
proof -
  obtain r where r: "p_requests p = [r]" "req_callback r = OnSessionStarted" "p_remotes p = []" "portal_good p"
    using assms(1) by (auto simp: waits_def)
  let ?e = "PResponse bs env (req_path r) 0 res"
  define q where "q = onFinished bs env (req_path r) 0 res p"
  have good: "portal_good (q\<lparr>p_remotes := []\<rparr>)"
    using portal_good_step [OF r(4), of ?e] by (simp add: q_def portal_good_def)
  have remotes: "p_remotes q = [r_streams res]"
    using r assms(2-4) by (simp add: q_def onFinished_def onSessionStarted_def connectToEis_def Let_def)
  obtain p' where p': "onPipeWireRemote (Some fd) (r_streams res) (q\<lparr>p_remotes := []\<rparr>) = Some p'"
      "s_started (p_base p')" "s_nodeId (p_base p') \<in> st_nodeId ` set (r_streams res)" "s_pipeWireFd (p_base p') = fd"
    using remote_starts [OF assms(4), of "q\<lparr>p_remotes := []\<rparr>" fd] good by (auto simp: portal_good_def)
  have "fold (lift_step portal_step) [?e, PPipeWireReply (Some fd)] (Some p) = Some p'"
    using p'(1) remotes by (simp add: q_def [symmetric])
  then show ?thesis using p'(2-4) by (intro exI [of _ "[?e, PPipeWireReply (Some fd)]"] exI) (auto simp: grants_def)
qed

fun callbacks_left :: "portal_callback \<Rightarrow> nat" where
  "callbacks_left OnCreateSession = 3"
| "callbacks_left OnDevicesSelected = 2"
| "callbacks_left OnSourcesSelected = 1"
| "callbacks_left OnSessionStarted = 0"

lemma grants_from:
  assumes "waits cb p" and "e_reply env = Some path" "r_devices res = Some d" "d \<noteq> 0" "r_streams res \<noteq> []"
  shows "\<exists>es p'. list_all (grants bs env res fd) es \<and> length es = callbacks_left cb + 2 \<and>
    fold (lift_step portal_step) es (Some p) = Some p' \<and> s_started (p_base p') \<and>
    s_nodeId (p_base p') \<in> st_nodeId ` set (r_streams res) \<and> s_pipeWireFd (p_base p') = fd"
  using assms(1)
proof (induction "callbacks_left cb" arbitrary: cb p)
  case 0
  then have cb: "cb = OnSessionStarted" by (cases cb) simp_all
  with 0 have "waits OnSessionStarted p" by simp
  from grant_last [OF this assms(3-5), of bs env fd] show ?case by (simp only: cb callbacks_left.simps add_0)
next
  case (Suc n)
  then obtain cb' where cb': "next_callback cb = Some cb'" "callbacks_left cb' = n" by (cases cb) auto
  obtain e q where e: "grants bs env res fd e" "portal_step e p = Some q" "waits cb' q"
    using grant_next [OF Suc.prems cb'(1) assms(2)] by blast
  obtain es p' where es: "list_all (grants bs env res fd) es" "length es = callbacks_left cb' + 2"
      "fold (lift_step portal_step) es (Some q) = Some p'" "s_started (p_base p')"
      "s_nodeId (p_base p') \<in> st_nodeId ` set (r_streams res)" "s_pipeWireFd (p_base p') = fd"
    using Suc.hyps(1) [OF cb'(2) [symmetric] e(3)] by blast
  show ?case
    by (rule exI [of _ "e # es"], rule exI [of _ p']) (use e es cb' Suc.hyps(2) in simp)
qed

text \<open>
C9. A portal that grants everything gets the session started. In whatever state a session that waits for
the portal is, after whatever has happened: if from then on every request is granted and the PipeWire
remote opened, it has started after at most five answers, and shows a stream it was offered, over the
descriptor it was handed.
\<close>

theorem granted_session_starts:
  assumes "fold (lift_step portal_step) es (portal_begin m bs env) = Some p" and "p_requests p \<noteq> []"
    and "e_reply env' = Some path" "r_devices res = Some d" "d \<noteq> 0" "r_streams res \<noteq> []"
  shows "\<exists>es' p'. list_all (grants bs env' res fd) es' \<and> length es' \<le> 5 \<and>
    fold (lift_step portal_step) es' (Some p) = Some p' \<and> s_started (p_base p') \<and>
    s_nodeId (p_base p') \<in> st_nodeId ` set (r_streams res) \<and> s_pipeWireFd (p_base p') = fd"
proof -
  have "returns_with (\<lambda>p. portal_good p \<and> in_order p) (fold (lift_step portal_step) es (portal_begin m bs env))"
    by (rule portal_order.inv_reach) (simp add: list_all_iff)
  then have "portal_good p" "in_order p" using assms(1) by simp_all
  then obtain cb where cb: "waits cb p"
    using assms(2) calling_waits by (auto simp: in_order_def given_up_def through_def)
  moreover have "callbacks_left cb + 2 \<le> 5" by (cases cb) simp_all
  ultimately show ?thesis using grants_from [OF cb assms(3-6), of bs fd] by force
qed

theorem granted_session_starts_witness:
  "\<exists>es' p'. length es' \<le> 5 \<and>
    fold (lift_step portal_step) es' (portal_begin (TheMonitor 3) (qs '':1.4'') (demo_portal_env ''a'')) = Some p' \<and>
    s_nodeId (p_base p') = 42 \<and> s_pipeWireFd (p_base p') = 5"
proof -
  obtain p where p: "portal_begin (TheMonitor 3) (qs '':1.4'') (demo_portal_env ''a'') = Some p" "p_requests p \<noteq> []"
    by (simp add: portal_begin_def choose_monitor_def portal_start_def make_request_def new_request_def
        request_listen_def portal_init_def session_init_def setActiveStream_def demo_portal_env_def Let_def)
  obtain path where "e_reply (demo_portal_env ''b'') = Some path" by (simp add: demo_portal_env_def)
  from granted_session_starts [of "[]" "TheMonitor 3" "qs '':1.4''" "demo_portal_env ''a''" p, OF _ p(2) this,
      of demo_portal_result 7 5] p(1)
  show ?thesis by (fastforce simp: demo_portal_result_def)
qed

end
