(* ===== verification/Streamer.thy ===== *)
theory Streamer
  imports PortalSession ServerMain
begin

text \<open>
  The example program, \<open>examples/streamer/main.cpp\<close>: a portal session whose stream is encoded and
  written to a file. What it tells the encoder is a log; the file is what was written to it.
\<close>

section \<open>State and start\<close>

record streamer_options =
  so_quit_after :: "qstring option"
  so_monitor :: "qstring option"
  so_quality :: "qstring option"

datatype encoder_out =
    EncoderQuality u8
  | EncoderSource u64 u32
  | EncoderFd int
  | EncoderStart

record streamer =
  ex_portal :: portal
  ex_encoder :: "encoder_out list"
  ex_file :: "u8 list"
  ex_interval :: "int option"
  ex_timerRuns :: bool
  ex_quit :: bool

text \<open>\<open>QString::toUShort\<close> on ASCII text: anything that is not a number of 16 bits is 0.\<close>

definition toUShort :: "qstring \<Rightarrow> int" where
  "toUShort s =
     (let t = trimmed s; ds = (case t of [] \<Rightarrow> [] | c # cs \<Rightarrow> if uint c = 43 then cs else t); v = digits_value ds
      in if ds = [] \<or> \<not> list_all is_digit ds \<or> v > 2 ^ 16 - 1 then 0 else v)"

text \<open>The program up to its event loop; an error is its exit code.\<close>

definition streamer_main ::
  "streamer_options \<Rightarrow> bool \<Rightarrow> qstring \<Rightarrow> portal_env \<Rightarrow> (int + streamer) option" where
  "streamer_main opts file_opens baseService env =
     (let monitor = (case so_monitor opts of Some v \<Rightarrow> TheMonitor (toInt v) | None \<Rightarrow> WholeWorkspace);
          told = (case so_quality opts of Some v \<Rightarrow> [EncoderQuality (of_int (toUShort v))] | None \<Rightarrow> [])
      in if \<not> file_opens then Some (Inl (- 1))
         else map_option (\<lambda>p. Inr \<lparr>ex_portal = p, ex_encoder = told, ex_file = [],
                ex_interval = map_option (\<lambda>v. to_int32 (toInt v * 1000)) (so_quit_after opts),
                ex_timerRuns = False, ex_quit = False\<rparr>)
              (portal_begin monitor baseService env))"

section \<open>The event loop\<close>

text \<open>The session has started: the encoder gets its source and runs, and the timer to quit starts.\<close>

definition streamer_onStarted :: "streamer \<Rightarrow> streamer" where
  "streamer_onStarted st =
     (let b = p_base (ex_portal st); (fd, b') = takePipeWireFd b
      in st\<lparr>ex_portal := (ex_portal st)\<lparr>p_base := b'\<rparr>,
            ex_encoder := ex_encoder st @ [EncoderSource (s_objectSerial b) (s_nodeId b)] @
              (if fd \<ge> 0 then [EncoderFd fd] else []) @ [EncoderStart],
            ex_timerRuns := (ex_timerRuns st \<or> ex_interval st \<noteq> None)\<rparr>)"

datatype streamer_event =
    StPortal portal_event
  | StPacket "u8 list"
  | StTimeout
  | StSignal

text \<open>
  The portal's events are those the program has: it sends no input and takes the descriptor only in its
  slot. KPipeWire delivers packets once the encoder runs.
\<close>

fun streamer_step :: "streamer_event \<Rightarrow> streamer \<Rightarrow> streamer option" where
  "streamer_step (StPortal e) st =
     map_option (\<lambda>p. let st' = st\<lparr>ex_portal := p\<rparr>
                    in if count_list (s_log (p_base p)) StartedSignal >
                          count_list (s_log (p_base (ex_portal st))) StartedSignal
                       then streamer_onStarted st' else st')
       (portal_step e (ex_portal st))"
| "streamer_step (StPacket data) st =
     Some (if EncoderStart \<in> set (ex_encoder st) then st\<lparr>ex_file := ex_file st @ data\<rparr> else st)"
| "streamer_step StTimeout st = Some (if ex_timerRuns st then st\<lparr>ex_quit := True\<rparr> else st)"
| "streamer_step StSignal st = Some (st\<lparr>ex_quit := True\<rparr>)"

section \<open>Properties\<close>

definition streamer_good :: "streamer \<Rightarrow> bool" where
  "streamer_good st \<longleftrightarrow> portal_good (ex_portal st) \<and>
     (EncoderStart \<in> set (ex_encoder st) \<longleftrightarrow> s_started (p_base (ex_portal st))) \<and>
     (ex_timerRuns st \<longleftrightarrow> ex_interval st \<noteq> None \<and> s_started (p_base (ex_portal st)))"

lemma portal_step_starts:
  assumes "portal_good p" and "portal_step e p = Some p'"
  shows "portal_good p'" "s_started (p_base p) \<Longrightarrow> s_started (p_base p')"
    "s_started (p_base p') \<Longrightarrow> \<not> s_started (p_base p) \<Longrightarrow>
      count_list (s_log (p_base p')) StartedSignal > count_list (s_log (p_base p)) StartedSignal"
    "count_list (s_log (p_base p')) StartedSignal > count_list (s_log (p_base p)) StartedSignal \<Longrightarrow>
      s_started (p_base p')"
proof -
  have keeps: "portal_keeps p p'" using portal_step_keeps [OF assms(1), of e] assms(2) by simp
  then show good: "portal_good p'" using assms(1) by (rule portal_good_keeps)
  show "s_started (p_base p) \<Longrightarrow> s_started (p_base p')"
    using keeps assms(1) by (simp add: portal_keeps_def base_step_def portal_good_def)
  have sig: "StartedSignal \<in> set (s_log (p_base q)) \<longleftrightarrow> s_started (p_base q)" if "portal_good q" for q
    using that by (simp add: portal_good_def base_good_def)
  have pos: "count_list xs x > 0 \<longleftrightarrow> x \<in> set xs" for xs :: "session_out list" and x
    by (induction xs) auto
  show "s_started (p_base p') \<Longrightarrow> \<not> s_started (p_base p) \<Longrightarrow>
      count_list (s_log (p_base p')) StartedSignal > count_list (s_log (p_base p)) StartedSignal"
    using sig [OF assms(1)] sig [OF good] pos by (metis not_gr_zero)
  show "count_list (s_log (p_base p')) StartedSignal > count_list (s_log (p_base p)) StartedSignal \<Longrightarrow>
      s_started (p_base p')"
    using sig [OF good] pos by (metis gr_implies_not_zero not_gr_zero)
qed

lemma streamer_step_good:
  assumes "streamer_good st" shows "returns_with streamer_good (streamer_step e st)"
proof (cases e)
  case (StPortal pe)
  have good: "portal_good (ex_portal st)" using assms by (simp add: streamer_good_def)
  then obtain p where p: "portal_step pe (ex_portal st) = Some p" using portal_step_keeps by blast
  have taken: "portal_good (q\<lparr>p_base := (p_base q)\<lparr>s_pipeWireFd := fd\<rparr>\<rparr>) = portal_good q" for q fd
    by (simp add: portal_good_def base_good_def)
  show ?thesis
    using StPortal p assms portal_step_starts [OF good p]
    by (auto simp: streamer_good_def streamer_onStarted_def takePipeWireFd_def taken Let_def)
qed (use assms in \<open>auto simp: streamer_good_def\<close>)

lemma streamer_run:
  assumes "streamer_main opts True bs env = Some (Inr st0)"
  shows "returns_with streamer_good (fold (lift_step streamer_step) es (Some st0))"
proof -
  have start: "streamer_good st0"
  proof -
    obtain p m where p: "portal_begin m bs env = Some p" "ex_portal st0 = p" "\<not> ex_timerRuns st0"
        "EncoderStart \<notin> set (ex_encoder st0)"
      using assms by (auto simp: streamer_main_def Let_def split: option.splits)
    have "portal_good p" using portal_good_begin [of m bs env] p(1) by simp
    moreover have "\<not> s_started (p_base p)"
      using p(1) by (auto simp: portal_begin_def choose_monitor_def setActiveStream_def setVirtualMonitor_def
          session_init_def portal_start_def portal_init_def split: monitor_choice.splits)
    ultimately show ?thesis using p by (simp add: streamer_good_def)
  qed
  show ?thesis
  proof (induction es rule: rev_induct)
    case (snoc e es)
    then show ?case using streamer_step_good by (auto simp: returns_with_iff)
  qed (use start in simp)
qed

text \<open>
The program never fails once it runs, its encoder runs exactly when the session has started, and
\<open>--quit-after\<close> counts only from then: without a session the program does not end by itself.
\<close>

theorem streamer_follows_session:
  assumes "streamer_main opts True bs env = Some (Inr st0)"
  shows "\<exists>st. fold (lift_step streamer_step) es (Some st0) = Some st \<and>
    (EncoderStart \<in> set (ex_encoder st) \<longleftrightarrow> s_started (p_base (ex_portal st))) \<and>
    (ex_timerRuns st \<longleftrightarrow> ex_interval st \<noteq> None \<and> s_started (p_base (ex_portal st)))"
  using streamer_run [OF assms, of es] by (auto simp: returns_with_iff streamer_good_def)

end
