(* ===== verification/Spec2Isabelle.thy ===== *)
theory Spec2Isabelle
  imports LoginGate CursorCache PlasmaSession InputPath PicturePath SettingsModule Streamer
begin

text \<open>
  A model of krdp, the RDP server of Plasma, and what is proved of it.

  \<^bold>\<open>The program.\<close> \<open>server/main.cpp\<close> reads the command line and the configuration, starts a
  \<open>Server\<close> and a \<open>SessionController\<close>, and enters the event loop. For each socket the server makes an
  \<open>RdpConnection\<close>, whose run thread drives FreeRDP: it authenticates the client, opens the virtual
  channels and calls back into \<open>InputHandler\<close>, \<open>Clipboard\<close>, \<open>DisplayControl\<close>, \<open>NetworkDetection\<close>,
  \<open>Cursor\<close> and \<open>VideoStream\<close>. When a connection is activated the controller gives it a session, of the
  desktop portal or of Plasma, which finds the PipeWire stream that feeds \<open>VideoStream\<close> and takes the
  input that goes through \<open>EiConnection\<close> to the compositor. The settings module edits the users.

  \<^bold>\<open>How it is modelled.\<close> A class is a record with the fields of the source, an enum a datatype, a method
  a function from state to state with the branches and early returns of the source; a null pointer that is
  followed, a failed assertion or a loop that does not end is \<open>None\<close>. Calls to FreeRDP, KPipeWire,
  libei, PAM, D-Bus and Qt are appended to a log in the state; their answers, the clock and the order in
  which Qt walks a hash are arguments. Widths matter where the source has them: counters, sizes and times
  are words or integers with the wrap written out, and doubles are reals with every operation rounded
  (\<open>Doubles\<close>: any rounding to 53 bits that is monotone and keeps small integers). Threads interleave at
  the points where the source takes a lock, waits or queues a call.

  \<^bold>\<open>Theories\<close>, each with the file it models:
  \<^item> \<open>Prelude\<close>, \<open>Doubles\<close>, \<open>Connection_Types\<close>: widths, rounding, Qt's values, and the interfaces used
    everywhere: \<open>machine\<close> (an invariant carries over to runs), \<open>logging_machine\<close>, \<open>simulation\<close>.
  \<^item> \<open>NetworkDetection\<close> (\<open>NetworkDetection.cpp\<close>): RTT and bandwidth measurement.
  \<^item> \<open>CursorCache\<close> (\<open>Cursor.cpp\<close>): the pointer cache, against a client with its own cache.
  \<^item> \<open>InputHandler\<close>, \<open>Clipboard\<close>, \<open>DisplayControl\<close>: the PDUs of those channels.
  \<^item> \<open>VideoWindow\<close>, \<open>VideoQuality\<close>, \<open>VideoStreamSurface\<close>, \<open>VideoStream\<close>, \<open>VideoSubmission\<close>,
    \<open>VideoSteady\<close> (\<open>VideoStream.cpp\<close>, \<open>VideoStreamSurface.cpp\<close>): flow control, quality, surfaces,
    capability negotiation and the submission thread, against a client that parses the commands.
  \<^item> \<open>VideoSource\<close>: what KPipeWire's two streams have been told, in whatever order things come; and
    \<open>PicturePath\<close>, which joins the display control channel, the session wrapper and the video stream, with
    the signals between their threads in queues.
  \<^item> \<open>Server\<close>, \<open>ServerSessions\<close> (\<open>Server.cpp\<close>): settings, and the list of connections.
  \<^item> \<open>Authentication\<close>, \<open>ConnectionSettings\<close>, \<open>RdpConnection\<close>, \<open>ConnectionLife\<close>,
    \<open>ConnectionProperties\<close> (\<open>RdpConnection.cpp\<close>, \<open>PeerContext.cpp\<close>): the SAM file, PAM, the settings
    of the peer, the run thread cut at its waits, and the life of a connection.
  \<^item> \<open>LoginGate\<close>: the callbacks a connection runs, and that no session starts without a login.
  \<^item> \<open>AbstractSession\<close>, \<open>PortalSession\<close>, \<open>PlasmaSession\<close> (\<open>AbstractSession.cpp\<close>, \<open>PortalSession.cpp\<close>,
    \<open>PlasmaScreencastV1Session.cpp\<close>, \<open>screencasting.cpp\<close>): what a session owes its user is the interface
    \<open>session_backend\<close>, which both provide; the owner of a descriptor is \<open>fd_owner\<close>.
  \<^item> \<open>EiConnection\<close> (\<open>EiConnection.cpp\<close>), and \<open>InputPath\<close>, which joins it with the input handler.
  \<^item> \<open>SessionController\<close> (\<open>server/SessionController.cpp\<close>), joined with the server's list at its end.
  \<^item> \<open>ServerMain\<close> (\<open>server/main.cpp\<close>), \<open>ServerSettings\<close> and \<open>SettingsModule\<close> (\<open>kcm/\<close>: the operations,
    and the module with systemd's answers), \<open>Streamer\<close> (\<open>examples/streamer/\<close>).

  \<^bold>\<open>What the lemmas show.\<close> Each component has an invariant that every step keeps, stated as an
  interpretation of \<open>machine\<close>; the properties are read off it for every run. Beside these there are
  refinements (the pointer cache shows what was asked for; the wallet implements a map of accounts),
  equivalences (the keys down in the compositor are those the handler counts), protocol conformance
  (graphics commands, portal calls, bandwidth requests, the life of a connection), round trips (clipboard
  text, the SAM file, the monitor on the command line), typing (the users model), liveness (quality
  converges, a stop request ends the connection, clipboard data is announced, a portal that grants
  everything gets the session started, the picture flows once session and client want it) and termination
  (sequence numbers, the journal).

  \<^bold>\<open>Fuel and bounds.\<close> No fuel is used. The two loops of the source that may not end are
  \<open>partial_function (option)\<close>: the search for a free sequence number, which is shown to return because
  at most 429 of 65535 are in use, and the journal loop, for which the exact condition is proved. The bounds
  proved are 2 to 60 frames in flight and 30 s for an RTT request, as in the source.

  \<^bold>\<open>Not modelled.\<close> FreeRDP, KPipeWire, libei, PAM, Qt, KConfig, systemd and the keychain themselves; log
  messages; the widget of the status notifier; plugin registration, QML and getters that only ask Qt in
  the settings module; data races on fields that the source reads without a lock (each step of the model
  is atomic). \<open>deleteLater\<close> takes effect at once.
\<close>

section \<open>The program as a whole\<close>

text \<open>
C4. The desktop is unlocked only where that was asked for and while someone is connected: if the program
reaches its event loop and at some later point, after any connections, states, destructions and reports,
the desktop was unlocked last rather than locked, then the command line or, without a word there, the
configuration chose remote access, and a connection that is still held or being destroyed has a session.
\<close>

theorem desktop_unlocked_only_on_request:
  assumes "server_main env opts cf = EventLoop s c jobs"
    and "fold (lift_step (system_step tr)) es (Some (sessions_init, c)) = Some (ss, c')"
    and "unlocked (ctl_log c')"
  shows "(o_mode opts = Some (qs ''RemoteAccess'') \<or> o_mode opts = None \<and> cf_exclusiveMode cf) \<and>
    (\<exists>conn \<in> set (ss_sessions ss) \<union> set (ss_dying ss). conn \<in> w_connection ` set (m_wrappers c'))"
proof -
  obtain t index vm q adaptive mode where c: "c = controller_setup t index vm q adaptive mode"
    and asked: "mode = RemoteAccess \<longrightarrow> o_mode opts = Some (qs ''RemoteAccess'') \<or> o_mode opts = None \<and> cf_exclusiveMode cf"
    using main_controller [OF assms(1)] by blast
  have "returns_with (\<lambda>sc. system_inv sc \<and> m_operatingMode (snd sc) = mode)
      (fold (lift_step (system_step tr)) es (Some (sessions_init, c)))"
    unfolding c by (rule sys_mode.inv_reach) (simp add: list_all_iff)
  then have inv: "system_inv (ss, c')" "m_operatingMode c' = mode" using assms(2) by simp_all
  then have lock: "m_wrappers c' \<noteq> []" "mode = RemoteAccess"
    and held: "w_connection ` set (m_wrappers c') \<subseteq> set (ss_sessions ss) \<union> set (ss_dying ss)"
    using assms(3) by (auto simp: system_inv_def ctl_inv_def lock_fine_def wrappers_fine_def)
  obtain w ws where "m_wrappers c' = w # ws" using lock(1) by (cases "m_wrappers c'") auto
  then show ?thesis using asked lock(2) held by auto
qed

definition demo_remote_options :: options where
  "demo_remote_options = demo_options\<lparr>o_mode := Some (qs ''RemoteAccess'')\<rparr>"

lemma demo_remote_main:
  "\<exists>s. server_main demo_environment demo_remote_options demo_config =
     EventLoop s (controller_setup PortalType None None 75 True RemoteAccess) []"
  by (simp add: server_main_def configure_users_def configured_server_def configure_monitor_def configure_mode_def
      configure_quality_def int_option_def parseOperationMode_def setup_defs
      string_option_def server_start_def setters Server.addUser_def demo_environment_def demo_options_def demo_config_def
      demo_remote_options_def qs_def)

theorem desktop_unlocked_only_on_request_witness:
  "\<exists>ss c'. fold (lift_step (system_step qs)) [SysIncoming, SysState 0 Activated]
       (Some (sessions_init, controller_setup PortalType None None 75 True RemoteAccess)) = Some (ss, c') \<and>
     (\<exists>conn \<in> set (ss_sessions ss) \<union> set (ss_dying ss). conn \<in> w_connection ` set (m_wrappers c'))"
proof -
  let ?run = "fold (lift_step (system_step qs)) [SysIncoming, SysState 0 Activated]
       (Some (sessions_init, controller_setup PortalType None None 75 True RemoteAccess))"
  obtain s where main: "server_main demo_environment demo_remote_options demo_config =
     EventLoop s (controller_setup PortalType None None 75 True RemoteAccess) []"
    using demo_remote_main by blast
  have "returns_with (\<lambda>sc :: server_sessions \<times> controller. unlocked (ctl_log (snd sc))) ?run"
    by (simp add: setup_defs activation_defs unlocked_def)
  then obtain ss c' where run: "?run = Some (ss, c')" and open_now: "unlocked (ctl_log c')" by (auto simp: returns_with_iff)
  from desktop_unlocked_only_on_request [OF main run open_now]
  have "\<exists>conn \<in> set (ss_sessions ss) \<union> set (ss_dying ss). conn \<in> w_connection ` set (m_wrappers c')" by (rule conjunct2)
  with run show ?thesis by (intro exI conjI)
qed

end
